(* ===== verification/Prelude.thy ===== *)
theory Prelude
  imports Complex_Main "HOL-Library.Word" "HOL-Library.Char_ord" "HOL-Library.List_Lexorder"
    "HOL-Library.Sublist" "HOL-Library.Multiset"
begin

text \<open>
  The shared vocabulary of the development: Go's machine types, Go's error values, the outcome
  of a Go call that may panic, keyed updates of row lists (an SQL table is a list of rows), and
  the fact collections the component theories add to.
\<close>

section \<open>Machine types\<close>

type_synonym u8 = "8 word"
type_synonym u64 = "64 word"
type_synonym bytes = "u8 list"

text \<open>Instants and durations are integers in one fixed unit (the microsecond of PostgreSQL).\<close>

type_synonym instant = int
type_synonym duration = int

section \<open>Errors and outcomes\<close>

text \<open>
  A Go \<open>error\<close> value: \<open>pgx.ErrNoRows\<close> is recognised by identity (\<open>errors.Is\<close>), every other
  error only by its text.
\<close>

datatype go_error = ErrNoRows | Err string

fun err_text :: "go_error \<Rightarrow> string" where
  "err_text ErrNoRows = ''no rows in result set''"
| "err_text (Err s) = s"

text \<open>
  What a Go call does to its caller: it returns, or it panics (nil dereference, index out of
  range), or, for a loop run with fuel, the fuel was not enough.
\<close>

datatype 'a outcome = Ret 'a | Panic | NoFuel

fun and_then :: "'a outcome \<Rightarrow> ('a \<Rightarrow> 'b outcome) \<Rightarrow> 'b outcome" where
  "and_then (Ret a) f = f a"
| "and_then Panic f = Panic"
| "and_then NoFuel f = NoFuel"

lemma and_then_eq_Ret [simp]:
  "and_then m f = Ret b \<longleftrightarrow> (\<exists>a. m = Ret a \<and> f a = Ret b)"
  by (cases m) auto

lemma and_then_eq_Panic:
  "and_then m f = Panic \<longleftrightarrow> m = Panic \<or> (\<exists>a. m = Ret a \<and> f a = Panic)"
  by (cases m) auto

lemma and_then_eq_NoFuel:
  "and_then m f = NoFuel \<longleftrightarrow> m = NoFuel \<or> (\<exists>a. m = Ret a \<and> f a = NoFuel)"
  by (cases m) auto

section \<open>Fact collections\<close>

named_theorems frame_simps \<open>what an operation leaves unchanged\<close>
named_theorems table_simps \<open>reading a table after a statement\<close>

section \<open>Tables: lists of rows with a key\<close>

text \<open>\<open>UPDATE t SET .. WHERE key = k\<close>: every row with that key is rewritten.\<close>

definition upd_by :: "('r \<Rightarrow> 'k) \<Rightarrow> 'k \<Rightarrow> ('r \<Rightarrow> 'r) \<Rightarrow> 'r list \<Rightarrow> 'r list" where
  "upd_by key k f rows = map (\<lambda>r. if key r = k then f r else r) rows"

text \<open>\<open>SELECT .. WHERE key = k\<close> of at most one row.\<close>

definition row_by :: "('r \<Rightarrow> 'k) \<Rightarrow> 'k \<Rightarrow> 'r list \<Rightarrow> 'r option" where
  "row_by key k rows = find (\<lambda>r. key r = k) rows"

lemma upd_by_Nil [simp]: "upd_by key k f [] = []"
  by (simp add: upd_by_def)

lemma upd_by_Cons [simp]:
  "upd_by key k f (r # rs) = (if key r = k then f r else r) # upd_by key k f rs"
  by (simp add: upd_by_def)

lemma row_by_Nil [simp]: "row_by key k [] = None"
  by (simp add: row_by_def)

lemma row_by_Cons [simp]:
  "row_by key k (r # rs) = (if key r = k then Some r else row_by key k rs)"
  by (simp add: row_by_def)

lemma length_upd_by [simp]: "length (upd_by key k f rows) = length rows"
  by (simp add: upd_by_def)

lemma set_upd_by:
  "set (upd_by key k f rows) = {r \<in> set rows. key r \<noteq> k} \<union> f ` {r \<in> set rows. key r = k}"
  by (auto simp: upd_by_def)

lemma keys_upd_by [table_simps]:
  assumes "\<And>r. key (f r) = key r"
  shows "map key (upd_by key k f rows) = map key rows"
  using assms by (induction rows) auto

lemma row_by_Some_in: "row_by key k rows = Some r \<Longrightarrow> r \<in> set rows \<and> key r = k"
  by (induction rows) (auto split: if_splits)

lemma row_by_None_iff: "row_by key k rows = None \<longleftrightarrow> k \<notin> key ` set rows"
  by (induction rows) auto

lemma row_by_in_distinct:
  "distinct (map key rows) \<Longrightarrow> r \<in> set rows \<Longrightarrow> row_by key (key r) rows = Some r"
  by (induction rows) (auto simp: rev_image_eqI)

lemma row_by_append:
  "row_by key k (xs @ ys) = (case row_by key k xs of None \<Rightarrow> row_by key k ys | Some r \<Rightarrow> Some r)"
  by (induction xs) auto

lemma row_by_upd_by:
  assumes "\<And>r. key (f r) = key r"
  shows "row_by key j (upd_by key k f rows) =
    (if j = k then map_option f (row_by key j rows) else row_by key j rows)"
  using assms by (induction rows) auto

lemma upd_by_other: "k \<notin> key ` set rows \<Longrightarrow> upd_by key k f rows = rows"
  by (induction rows) auto

lemma in_upd_byE:
  assumes "r \<in> set (upd_by key k f rows)"
  obtains "r \<in> set rows" "key r \<noteq> k"
    | r0 where "r0 \<in> set rows" "key r0 = k" "r = f r0"
  using assms by (auto simp: set_upd_by)

lemma ball_upd_by:
  "(\<forall>r \<in> set (upd_by key k f rows). P r) \<longleftrightarrow>
   (\<forall>r \<in> set rows. if key r = k then P (f r) else P r)"
  by (auto simp: upd_by_def)

lemma bex_upd_by:
  "(\<exists>r \<in> set (upd_by key k f rows). P r) \<longleftrightarrow>
   (\<exists>r \<in> set rows. if key r = k then P (f r) else P r)"
  by (auto simp: upd_by_def)

lemma filter_upd_by_other:
  assumes "\<And>r. r \<in> set rows \<Longrightarrow> key r = k \<Longrightarrow> P (f r) = P r \<and> \<not> P r"
  shows "filter P (upd_by key k f rows) = filter P rows"
  using assms by (induction rows) auto

text \<open>The head of a sorted listing is a minimum.\<close>

lemma sort_key_eq_Nil [simp]: "sort_key f xs = [] \<longleftrightarrow> xs = []"
  by (metis set_empty set_sort)

lemma sort_key_eq_Cons:
  fixes f :: "'a \<Rightarrow> 'k::linorder"
  assumes "sort_key f xs = y # ys"
  shows "y \<in> set xs \<and> (\<forall>x \<in> set xs. f y \<le> f x)"
proof -
  have s: "set (y # ys) = set xs" by (metis assms set_sort)
  have "sorted (map f (y # ys))" by (metis assms sorted_sort_key)
  then have "\<forall>x \<in> set (y # ys). f y \<le> f x" by auto
  with s show ?thesis by auto
qed

end
