(* ===== verification/GoStd.thy ===== *)
theory GoStd
  imports Prelude
begin

text \<open>
  The parts of Go's standard library the program relies on, as functions on byte strings: the
  functions of package strings that the code calls, and the decimal text of \<open>math/big.Int\<close>
  (\<open>String\<close> and \<open>SetString(_, 10)\<close>) with their round trip.
\<close>

section \<open>Package strings\<close>

text \<open>
  The UTF-8 encodings of the code points for which \<open>unicode.IsSpace\<close> holds. \<open>TrimSpace\<close> removes
  them at both ends.
\<close>

definition space_seqs :: "string list" where
  "space_seqs = map (map char_of)
     [[9], [10], [11], [12], [13], [32 :: nat],
      [194, 133], [194, 160], [225, 154, 128],
      [226, 128, 128], [226, 128, 129], [226, 128, 130], [226, 128, 131], [226, 128, 132],
      [226, 128, 133], [226, 128, 134], [226, 128, 135], [226, 128, 136], [226, 128, 137],
      [226, 128, 138], [226, 128, 168], [226, 128, 169], [226, 128, 175], [226, 129, 159],
      [227, 128, 128]]"

definition lead_len :: "string list \<Rightarrow> string \<Rightarrow> nat" where
  "lead_len seqs s = (case find (\<lambda>w. prefix w s) seqs of None \<Rightarrow> 0 | Some w \<Rightarrow> length w)"

function trim_lead :: "string list \<Rightarrow> string \<Rightarrow> string" where
  "trim_lead seqs s =
     (if s = [] \<or> lead_len seqs s = 0 then s else trim_lead seqs (drop (lead_len seqs s) s))"
  by pat_completeness auto
termination
  by (relation "measure (\<lambda>(seqs, s). length s)") auto

declare trim_lead.simps [simp del]

definition TrimSpace :: "string \<Rightarrow> string" where
  "TrimSpace s = rev (trim_lead (map rev space_seqs) (rev (trim_lead space_seqs s)))"

definition HasPrefix :: "string \<Rightarrow> string \<Rightarrow> bool" where
  "HasPrefix s p = prefix p s"

text \<open>\<open>strings.SplitN(s, sep, 2)\<close> for a one-byte separator: the parts around the first one.\<close>

definition SplitN2 :: "string \<Rightarrow> char \<Rightarrow> string list" where
  "SplitN2 s c =
     (if c \<in> set s then [takeWhile (\<lambda>x. x \<noteq> c) s, tl (dropWhile (\<lambda>x. x \<noteq> c) s)] else [s])"

definition TrimLeft :: "string \<Rightarrow> char \<Rightarrow> string" where
  "TrimLeft s c = dropWhile (\<lambda>x. x = c) s"

definition Repeat :: "char \<Rightarrow> nat \<Rightarrow> string" where
  "Repeat c n = replicate n c"

text \<open>
  \<open>strings.ToLower\<close>, \<open>strings.ToUpper\<close> and \<open>strings.EqualFold\<close> on ASCII text, which is what
  \<open>Address.Hex\<close> produces and what \<open>IsHexAddress\<close> accepts.
\<close>

definition lower_char :: "char \<Rightarrow> char" where
  "lower_char c = (let n = of_char c :: nat in if 65 \<le> n \<and> n \<le> 90 then char_of (n + 32) else c)"

definition upper_char :: "char \<Rightarrow> char" where
  "upper_char c = (let n = of_char c :: nat in if 97 \<le> n \<and> n \<le> 122 then char_of (n - 32) else c)"

definition ToLower :: "string \<Rightarrow> string" where
  "ToLower s = map lower_char s"

definition ToUpper :: "string \<Rightarrow> string" where
  "ToUpper s = map upper_char s"

definition EqualFold :: "string \<Rightarrow> string \<Rightarrow> bool" where
  "EqualFold s t = (ToLower s = ToLower t)"

lemma EqualFold_refl [simp]: "EqualFold s s"
  by (simp add: EqualFold_def)

lemma EqualFold_sym: "EqualFold s t \<Longrightarrow> EqualFold t s"
  by (simp add: EqualFold_def)

lemma EqualFold_trans: "EqualFold s t \<Longrightarrow> EqualFold t u \<Longrightarrow> EqualFold s u"
  by (simp add: EqualFold_def)

section \<open>Decimal text of integers\<close>

definition is_digit :: "char \<Rightarrow> bool" where
  "is_digit c = (48 \<le> (of_char c :: nat) \<and> (of_char c :: nat) \<le> 57)"

definition digit_val :: "char \<Rightarrow> nat" where
  "digit_val c = of_char c - 48"

definition digit_char :: "nat \<Rightarrow> char" where
  "digit_char d = char_of (48 + d)"

text \<open>The value of a digit string, starting from the value of the digits already read.\<close>

fun dec_acc :: "nat \<Rightarrow> string \<Rightarrow> nat option" where
  "dec_acc n [] = Some n"
| "dec_acc n (c # cs) = (if is_digit c then dec_acc (10 * n + digit_val c) cs else None)"

definition scan_nat :: "string \<Rightarrow> nat option" where
  "scan_nat s = (if s = [] then None else dec_acc 0 s)"

text \<open>\<open>new(big.Int).SetString(s, 10)\<close>: an optional sign, then digits and nothing else.\<close>

definition SetString10 :: "string \<Rightarrow> int option" where
  "SetString10 s = (case s of
       [] \<Rightarrow> None
     | c # cs \<Rightarrow>
         if c = CHR ''-'' then map_option (\<lambda>n. - int n) (scan_nat cs)
         else if c = CHR ''+'' then map_option int (scan_nat cs)
         else map_option int (scan_nat s))"

fun nat_dec :: "nat \<Rightarrow> string" where
  "nat_dec n = (if n < 10 then [digit_char n] else nat_dec (n div 10) @ [digit_char (n mod 10)])"

declare nat_dec.simps [simp del]

text \<open>\<open>big.Int.String\<close> and the \<open>%d\<close> of fmt.\<close>

definition int_dec :: "int \<Rightarrow> string" where
  "int_dec i = (if i < 0 then CHR ''-'' # nat_dec (nat (- i)) else nat_dec (nat i))"

definition u64_dec :: "u64 \<Rightarrow> string" where
  "u64_dec w = nat_dec (unat w)"

text \<open>\<open>strconv.ParseUint(s, 10, 64)\<close>, and the text of its error.\<close>

definition ParseUint :: "string \<Rightarrow> u64 option" where
  "ParseUint s = (case scan_nat s of
       None \<Rightarrow> None | Some n \<Rightarrow> if n < 2 ^ 64 then Some (word_of_nat n) else None)"

definition quoted :: "string \<Rightarrow> string" where
  "quoted s = CHR 0x22 # s @ [CHR 0x22]"

definition ParseUint_error :: "string \<Rightarrow> string" where
  "ParseUint_error s = ''strconv.ParseUint: parsing '' @ quoted s @ '': ''
     @ (if scan_nat s = None then ''invalid syntax'' else ''value out of range'')"

lemma digit_char_is_digit: "d < 10 \<Longrightarrow> is_digit (digit_char d)"
  by (simp add: is_digit_def digit_char_def)

lemma digit_val_char: "d < 10 \<Longrightarrow> digit_val (digit_char d) = d"
  by (simp add: digit_val_def digit_char_def)

lemma is_digit_not_sign: "is_digit c \<Longrightarrow> c \<noteq> CHR ''-'' \<and> c \<noteq> CHR ''+'' \<and> c \<noteq> CHR ''.''"
  by (auto simp: is_digit_def)

lemma digit_zero [simp]: "is_digit CHR ''0''" "digit_val CHR ''0'' = 0"
  by (simp_all add: is_digit_def digit_val_def)

lemma dec_acc_None: "dec_acc n s = None \<longleftrightarrow> \<not> list_all is_digit s"
  by (induction s arbitrary: n) auto

text \<open>The positional value of a digit string, the reference the parsers are compared with.\<close>

definition dec_value :: "string \<Rightarrow> nat" where
  "dec_value s = foldl (\<lambda>n c. 10 * n + digit_val c) 0 s"

lemma dec_acc_foldl:
  "list_all is_digit s \<Longrightarrow> dec_acc n s = Some (foldl (\<lambda>n c. 10 * n + digit_val c) n s)"
  by (induction s arbitrary: n) auto

lemma dec_acc_value: "list_all is_digit s \<Longrightarrow> dec_acc 0 s = Some (dec_value s)"
  by (simp add: dec_acc_foldl dec_value_def)

lemma foldl_dec_shift:
  "foldl (\<lambda>n c. 10 * n + digit_val c) n s
     = n * 10 ^ length s + foldl (\<lambda>n c. 10 * n + digit_val c) 0 s"
proof (induction s arbitrary: n)
  case Nil
  then show ?case by simp
next
  case (Cons c cs)
  show ?case
    using Cons.IH [of "10 * n + digit_val c"] Cons.IH [of "digit_val c"]
    by (simp add: algebra_simps)
qed

lemma dec_value_Nil [simp]: "dec_value [] = 0"
  by (simp add: dec_value_def)

lemma dec_value_append: "dec_value (s @ t) = dec_value s * 10 ^ length t + dec_value t"
  using foldl_dec_shift [of "dec_value s" t] by (simp add: dec_value_def)

lemma dec_value_Cons: "dec_value (c # cs) = digit_val c * 10 ^ length cs + dec_value cs"
  using dec_value_append [of "[c]" cs] by (simp add: dec_value_def)

lemma dec_value_zeros [simp]: "dec_value (replicate n CHR ''0'') = 0"
  by (induction n) (simp_all add: dec_value_Cons)

lemma dec_value_trim: "dec_value (dropWhile (\<lambda>x. x = CHR ''0'') s) = dec_value s"
  by (induction s) (auto simp: dec_value_Cons)

lemma dec_value_bound: "list_all is_digit s \<Longrightarrow> dec_value s < 10 ^ length s"
proof (induction s)
  case Nil
  then show ?case by simp
next
  case (Cons c cs)
  then have "digit_val c \<le> 9" "dec_value cs < 10 ^ length cs"
    by (auto simp: is_digit_def digit_val_def)
  then have "digit_val c * 10 ^ length cs + dec_value cs < 9 * 10 ^ length cs + 10 ^ length cs"
    by (meson add_le_less_mono mult_le_mono1)
  then show ?case by (simp add: dec_value_Cons)
qed

lemma nat_dec_digits: "list_all is_digit (nat_dec n)"
proof (induction n rule: nat_dec.induct)
  case (1 n)
  then show ?case
    by (cases "n < 10") (simp_all add: nat_dec.simps [of n] digit_char_is_digit)
qed

lemma nat_dec_nonempty: "nat_dec n \<noteq> []"
  by (simp add: nat_dec.simps [of n])

lemma nat_dec_value: "dec_value (nat_dec n) = n"
proof (induction n rule: nat_dec.induct)
  case (1 n)
  show ?case
  proof (cases "n < 10")
    case True
    then show ?thesis by (simp add: nat_dec.simps [of n] dec_value_Cons digit_val_char)
  next
    case False
    with 1 show ?thesis
      by (simp add: nat_dec.simps [of n] dec_value_append dec_value_Cons digit_val_char)
  qed
qed

lemma scan_nat_digits: "list_all is_digit s \<Longrightarrow> s \<noteq> [] \<Longrightarrow> scan_nat s = Some (dec_value s)"
  by (simp add: scan_nat_def dec_acc_value)

lemma scan_nat_Some:
  "scan_nat s = Some n \<longleftrightarrow> s \<noteq> [] \<and> list_all is_digit s \<and> n = dec_value s"
proof (cases "list_all is_digit s")
  case True
  then show ?thesis by (auto simp: scan_nat_def dec_acc_value)
next
  case False
  then have "dec_acc 0 s = None" by (simp add: dec_acc_None)
  with False show ?thesis by (simp add: scan_nat_def)
qed

lemma SetString10_digits:
  assumes "list_all is_digit s" and "s \<noteq> []"
  shows "SetString10 s = Some (int (dec_value s))"
proof -
  obtain c cs where s: "s = c # cs" using assms(2) by (cases s) auto
  with assms(1) have "c \<noteq> CHR ''-''" "c \<noteq> CHR ''+''"
    using is_digit_not_sign [of c] by auto
  with s scan_nat_digits [OF assms] show ?thesis by (simp add: SetString10_def)
qed

text \<open>The round trip every amount, price and fee makes through a text column.\<close>

lemma SetString10_int_dec [simp]: "SetString10 (int_dec i) = Some i"
proof (cases "i < 0")
  case True
  then show ?thesis
    by (simp add: int_dec_def SetString10_def scan_nat_digits nat_dec_digits nat_dec_nonempty
        nat_dec_value)
next
  case False
  then show ?thesis
    by (simp add: int_dec_def SetString10_digits nat_dec_digits nat_dec_nonempty nat_dec_value)
qed

lemma int_dec_nonempty [simp]: "int_dec i \<noteq> []"
  by (simp add: int_dec_def nat_dec_nonempty)

lemma int_dec_inj: "int_dec i = int_dec j \<longleftrightarrow> i = j"
  by (metis SetString10_int_dec option.inject)

lemma nat_dec_inj: "nat_dec m = nat_dec n \<longleftrightarrow> m = n"
  by (metis nat_dec_value)

end
