(* ===== verification/Amount.thy ===== *)
theory Amount
  imports GoStd
begin

text \<open>
  \<open>ParseAmountToSmallestUnit\<close> of internal/domain/transfer.go: a decimal amount text and a number
  of token decimals give the amount in the smallest unit. The reference is positional decimal
  arithmetic (\<open>dec_value\<close>); \<open>format_amount\<close> prints an amount back.
\<close>

section \<open>The parser\<close>

definition MaxUint256 :: int where
  "MaxUint256 =
     115792089237316195423570985008687907853269984665640564039457584007913129639935"

datatype amount_error =
    EmptyAmount
  | NegativeAmount
  | TooManyDecimals nat nat
  | InvalidNumeric string

fun amount_error_text :: "amount_error \<Rightarrow> string" where
  "amount_error_text EmptyAmount = ''empty amount''"
| "amount_error_text NegativeAmount = ''negative amount''"
| "amount_error_text (TooManyDecimals k d) =
     ''amount has '' @ nat_dec k @ '' decimal places, token supports '' @ nat_dec d"
| "amount_error_text (InvalidNumeric s) = ''invalid numeric amount: '' @ s"

definition ParseAmountToSmallestUnit :: "string \<Rightarrow> u8 \<Rightarrow> amount_error + int" where
  "ParseAmountToSmallestUnit amount0 decimals =
    (if amount0 = [] then Inl EmptyAmount
     else
       let amount = TrimSpace amount0 in
       if HasPrefix amount ''-'' then Inl NegativeAmount
       else
         let parts = SplitN2 amount (CHR ''.'');
             intPart0 = parts ! 0;
             fracPart0 = (if length parts = 2 then parts ! 1 else []);
             intPart = (if intPart0 = [] then ''0'' else intPart0)
         in
         if length fracPart0 > unat decimals
         then Inl (TooManyDecimals (length fracPart0) (unat decimals))
         else
           let fracPart = fracPart0 @ Repeat (CHR ''0'') (unat decimals - length fracPart0);
               combined0 = TrimLeft (intPart @ fracPart) (CHR ''0'');
               combined = (if combined0 = [] then ''0'' else combined0)
           in
           (case SetString10 combined of
              None \<Rightarrow> Inl (InvalidNumeric amount)
            | Some result \<Rightarrow> Inr result))"

text \<open>The reference printer: at least one integer digit, exactly \<open>d\<close> fractional digits.\<close>

definition pad_left :: "nat \<Rightarrow> string \<Rightarrow> string" where
  "pad_left n s = replicate (n - length s) (CHR ''0'') @ s"

definition format_amount :: "nat \<Rightarrow> nat \<Rightarrow> string" where
  "format_amount v d =
     (if d = 0 then nat_dec v
      else nat_dec (v div 10 ^ d) @ ''.'' @ pad_left d (nat_dec (v mod 10 ^ d)))"

section \<open>Trimming\<close>

text \<open>An encoded white space never starts or ends with a digit or with the decimal point.\<close>

definition num_char :: "char \<Rightarrow> bool" where
  "num_char c = (is_digit c \<or> c = CHR ''.'')"

lemma space_seqs_ends:
  assumes "w \<in> set space_seqs"
  shows "w \<noteq> []" and "\<not> num_char (hd w)" and "\<not> num_char (last w)"
proof -
  have "list_all (\<lambda>w. w \<noteq> [] \<and> \<not> num_char (hd w) \<and> \<not> num_char (last w)) space_seqs"
    by (simp add: space_seqs_def num_char_def is_digit_def char_of_eq_iff)
  with assms show "w \<noteq> []" and "\<not> num_char (hd w)" and "\<not> num_char (last w)"
    by (auto simp: list_all_iff)
qed

lemma trim_lead_id:
  assumes "\<And>w. w \<in> set seqs \<Longrightarrow> w \<noteq> [] \<and> (s \<noteq> [] \<longrightarrow> hd w \<noteq> hd s)"
  shows "trim_lead seqs s = s"
proof (cases "s = []")
  case True
  then show ?thesis by (simp add: trim_lead.simps [of seqs "[]"])
next
  case False
  have "\<not> prefix w s" if "w \<in> set seqs" for w
    using assms [OF that] False by (auto simp: prefix_def)
  then have "find (\<lambda>w. prefix w s) seqs = None"
    by (simp add: find_None_iff)
  then have "lead_len seqs s = 0"
    by (simp add: lead_len_def)
  then show ?thesis by (simp add: trim_lead.simps [of seqs s])
qed

lemma TrimSpace_id:
  assumes "s \<noteq> [] \<Longrightarrow> num_char (hd s) \<and> num_char (last s)"
  shows "TrimSpace s = s"
proof -
  have "trim_lead space_seqs s = s"
    by (rule trim_lead_id) (use assms space_seqs_ends in fastforce)
  moreover have "trim_lead (map rev space_seqs) (rev s) = rev s"
    by (rule trim_lead_id) (use assms space_seqs_ends in \<open>fastforce simp: hd_rev\<close>)
  ultimately show ?thesis by (simp add: TrimSpace_def)
qed

text \<open>
  No encoded white space is a proper prefix (or, reversed, a proper suffix) of another, so the
  trimming removes exactly the ones that were put around a text.
\<close>

definition prefix_free :: "string list \<Rightarrow> bool" where
  "prefix_free seqs = list_all (\<lambda>w. w \<noteq> [] \<and> list_all (\<lambda>v. prefix v w \<longrightarrow> v = w) seqs) seqs"

lemma prefix_free_spaces: "prefix_free space_seqs" "prefix_free (map rev space_seqs)"
  by (simp_all add: prefix_free_def space_seqs_def char_of_eq_iff)

lemma lead_len_append:
  assumes "prefix_free seqs" and "w \<in> set seqs"
  shows "lead_len seqs (w @ s) = length w"
proof -
  obtain v where v: "find (\<lambda>w'. prefix w' (w @ s)) seqs = Some v"
    using assms(2) by (metis find_None_iff not_None_eq prefixI)
  then have "v \<in> set seqs" "prefix v (w @ s)"
    by (auto simp: find_Some_iff)
  moreover from this have "prefix v w \<or> prefix w v"
    by (meson prefixI prefix_same_cases)
  ultimately have "v = w"
    using assms by (fastforce simp: prefix_free_def list_all_iff)
  with v show ?thesis by (simp add: lead_len_def)
qed

lemma trim_lead_append:
  assumes "prefix_free seqs" and "set ws \<subseteq> set seqs"
  shows "trim_lead seqs (concat ws @ s) = trim_lead seqs s"
  using assms(2)
proof (induction ws)
  case Nil
  then show ?case by simp
next
  case (Cons w ws)
  then have w: "w \<in> set seqs" by simp
  with assms(1) have "w \<noteq> []" by (auto simp: prefix_free_def list_all_iff)
  have "trim_lead seqs (w @ concat ws @ s) = trim_lead seqs (concat ws @ s)"
    using \<open>w \<noteq> []\<close> by (subst trim_lead.simps) (simp add: lead_len_append [OF assms(1) w])
  with Cons show ?case by simp
qed

lemma TrimSpace_around:
  assumes "set ws \<subseteq> set space_seqs" and "set vs \<subseteq> set space_seqs"
    and s: "s \<noteq> []" "num_char (hd s)" "num_char (last s)"
  shows "TrimSpace (concat ws @ s @ concat vs) = s"
proof -
  have 1: "trim_lead space_seqs (concat ws @ s @ concat vs) = s @ concat vs"
  proof -
    have "trim_lead space_seqs (s @ concat vs) = s @ concat vs"
      by (rule trim_lead_id) (use s space_seqs_ends in fastforce)
    with trim_lead_append [OF prefix_free_spaces(1) assms(1)] show ?thesis by simp
  qed
  have "rev (s @ concat vs) = concat (rev (map rev vs)) @ rev s"
    by (simp add: rev_concat rev_map)
  moreover have "set (rev (map rev vs)) \<subseteq> set (map rev space_seqs)"
    using assms(2) by auto
  ultimately have "trim_lead (map rev space_seqs) (rev (s @ concat vs))
      = trim_lead (map rev space_seqs) (rev s)"
    using trim_lead_append [OF prefix_free_spaces(2)] by metis
  also have "\<dots> = rev s"
    by (rule trim_lead_id) (use s space_seqs_ends in \<open>fastforce simp: hd_rev\<close>)
  finally show ?thesis using 1 by (simp add: TrimSpace_def)
qed

section \<open>What the parser computes\<close>

lemma SplitN2_point:
  "list_all is_digit i \<Longrightarrow> SplitN2 (i @ CHR ''.'' # f) (CHR ''.'') = [i, f]"
  using is_digit_not_sign
  by (auto simp: SplitN2_def list_all_iff takeWhile_append dropWhile_append)

lemma SplitN2_no_point: "list_all is_digit i \<Longrightarrow> SplitN2 i (CHR ''.'') = [i]"
  using is_digit_not_sign by (auto simp: SplitN2_def list_all_iff)

lemma SetString10_trimmed:
  assumes "list_all is_digit s"
  shows "SetString10 (let t = TrimLeft s (CHR ''0'') in if t = [] then ''0'' else t)
    = Some (int (dec_value s))"
proof (cases "TrimLeft s (CHR ''0'') = []")
  case True
  then have "dec_value s = dec_value []"
    using dec_value_trim [of s] by (simp only: TrimLeft_def)
  then have "dec_value s = 0" by simp
  with True SetString10_digits [of "''0''"] show ?thesis
    by (simp add: dec_value_Cons)
next
  case False
  have "list_all is_digit (TrimLeft s (CHR ''0''))"
    using assms by (auto simp: TrimLeft_def list_all_iff dest: set_dropWhileD)
  from SetString10_digits [OF this False]
  have "SetString10 (TrimLeft s (CHR ''0'')) = Some (int (dec_value s))"
    by (simp only: TrimLeft_def dec_value_trim)
  with False show ?thesis by simp
qed

text \<open>The parts of a number text: what \<open>SplitN\<close> leaves to the arithmetic.\<close>

definition number_text :: "string \<Rightarrow> string \<Rightarrow> string \<Rightarrow> bool" where
  "number_text s i f =
     (list_all is_digit i \<and> list_all is_digit f \<and>
      (s = i \<and> f = [] \<and> i \<noteq> [] \<or> s = i @ CHR ''.'' # f))"

lemma number_text_ends:
  assumes "number_text s i f"
  shows "s \<noteq> []" "num_char (hd s)" "num_char (last s)"
proof -
  have c: "list_all num_char s"
    using assms by (auto simp: number_text_def num_char_def list_all_iff)
  show ne: "s \<noteq> []" using assms by (auto simp: number_text_def)
  from c ne show "num_char (hd s)" "num_char (last s)"
    by (auto simp: list_all_iff)
qed

lemma number_text_not_minus: "number_text s i f \<Longrightarrow> \<not> HasPrefix s ''-''"
  using number_text_ends [of s i f] is_digit_not_sign
  by (cases s) (auto simp: HasPrefix_def num_char_def)

lemma number_text_split:
  assumes "number_text s i f"
  shows "SplitN2 s (CHR ''.'') ! 0 = i"
    and "(if length (SplitN2 s (CHR ''.'')) = 2 then SplitN2 s (CHR ''.'') ! 1 else []) = f"
  using assms by (auto simp: number_text_def SplitN2_point SplitN2_no_point)

lemma parse_trimmed:
  assumes "number_text s i f" and "TrimSpace s0 = s"
  shows "ParseAmountToSmallestUnit s0 d =
    (if unat d < length f then Inl (TooManyDecimals (length f) (unat d))
     else Inr (int (dec_value (i @ f) * 10 ^ (unat d - length f))))"
proof -
  have s0: "s0 \<noteq> []"
    using assms number_text_ends [of s i f] TrimSpace_id [of "[]"] by force
  have i0: "list_all is_digit (if i = [] then ''0'' else i)" "list_all is_digit f"
    using assms by (auto simp: number_text_def)
  let ?c = "(if i = [] then ''0'' else i) @ f @ Repeat (CHR ''0'') (unat d - length f)"
  have "list_all is_digit ?c"
    using i0 by (auto simp: Repeat_def list_all_iff)
  from SetString10_trimmed [OF this]
  have "SetString10 (if TrimLeft ?c (CHR ''0'') = [] then ''0'' else TrimLeft ?c (CHR ''0''))
      = Some (int (dec_value ?c))"
    by (simp add: Let_def)
  moreover have "dec_value ?c = dec_value (i @ f) * 10 ^ (unat d - length f)"
    by (simp add: Repeat_def dec_value_append dec_value_Cons algebra_simps power_add)
  ultimately show ?thesis
    using s0 assms(2) number_text_not_minus [OF assms(1)] number_text_split [OF assms(1)]
    by (auto simp: ParseAmountToSmallestUnit_def Let_def)
qed

lemma format_number_text:
  "number_text (format_amount v d) (nat_dec (v div 10 ^ d))
     (if d = 0 then [] else pad_left d (nat_dec (v mod 10 ^ d)))"
  using nat_dec_digits nat_dec_nonempty
  by (auto simp: number_text_def format_amount_def pad_left_def list_all_iff)

lemma nat_dec_length: "n < 10 ^ d \<Longrightarrow> 0 < d \<Longrightarrow> length (nat_dec n) \<le> d"
proof (induction n arbitrary: d rule: nat_dec.induct)
  case (1 n)
  show ?case
  proof (cases "n < 10")
    case True
    with 1 show ?thesis by (simp add: nat_dec.simps [of n])
  next
    case False
    with "1.prems" obtain e where e: "d = Suc e" "0 < e"
      by (cases d; cases "d - 1") auto
    with "1.prems" have "n div 10 < 10 ^ e" by (simp add: less_mult_imp_div_less)
    with 1 False e show ?thesis by (simp add: nat_dec.simps [of n])
  qed
qed

lemma pad_left_length: "length s \<le> n \<Longrightarrow> length (pad_left n s) = n"
  by (simp add: pad_left_def)

lemma pad_left_value [simp]: "dec_value (pad_left n s) = dec_value s"
  by (simp add: pad_left_def dec_value_append)

section \<open>Properties\<close>

text \<open>C35: A plain decimal text, with or without a point and with any white space around it, is
  read exactly: its digits as a number, shifted by the token's decimals, with no rounding.\<close>

theorem parse_amount_exact:
  assumes "number_text s i f" and "length f \<le> unat d"
    and "set ws \<subseteq> set space_seqs" and "set vs \<subseteq> set space_seqs"
  shows "ParseAmountToSmallestUnit (concat ws @ s @ concat vs) d
    = Inr (int (dec_value (i @ f) * 10 ^ (unat d - length f)))"
proof -
  have "TrimSpace (concat ws @ s @ concat vs) = s"
    using assms(3,4) number_text_ends [OF assms(1)] by (rule TrimSpace_around)
  from parse_trimmed [OF assms(1) this] assms(2) show ?thesis by simp
qed

theorem parse_amount_exact_witness:
  "ParseAmountToSmallestUnit '' 1500.50 '' 6 = Inr 1500500000"
proof -
  have sp: "set ['' ''] \<subseteq> set space_seqs" by (simp add: space_seqs_def char_of_def bit_0)
  have n: "number_text ''1500.50'' ''1500'' ''50''"
    by (simp add: number_text_def is_digit_def)
  have "ParseAmountToSmallestUnit (concat ['' ''] @ ''1500.50'' @ concat ['' '']) 6
      = Inr (int (dec_value (''1500'' @ ''50'') * 10 ^ (unat (6 :: u8) - length ''50'')))"
    by (rule parse_amount_exact [OF n _ sp sp]) simp
  then show ?thesis by (simp add: dec_value_def digit_val_def)
qed

text \<open>C36: Printing an amount with a token's decimals and parsing the text back gives the amount,
  for every amount and every number of decimals.\<close>

theorem parse_format_roundtrip:
  "ParseAmountToSmallestUnit (format_amount v (unat d)) d = Inr (int v)"
proof -
  let ?f = "if unat d = 0 then [] else pad_left (unat d) (nat_dec (v mod 10 ^ unat d))"
  have t: "TrimSpace (format_amount v (unat d)) = format_amount v (unat d)"
    using number_text_ends [OF format_number_text] by (intro TrimSpace_id) auto
  have l: "length ?f = unat d"
    by (simp add: pad_left_length nat_dec_length)
  have "dec_value ?f = v mod 10 ^ unat d"
    by (auto simp: nat_dec_value)
  then have "dec_value (nat_dec (v div 10 ^ unat d) @ ?f) = v"
    using l by (simp only: dec_value_append nat_dec_value div_mult_mod_eq)
  with parse_trimmed [OF format_number_text t] l show ?thesis
    by auto
qed

text \<open>A text with more fractional digits than the token has decimals is never truncated: it is
  refused, and the error says how many digits were given and how many the token supports.\<close>

theorem parse_amount_too_precise:
  assumes "number_text s i f" and "unat d < length f"
  shows "ParseAmountToSmallestUnit s d = Inl (TooManyDecimals (length f) (unat d))"
proof -
  have "TrimSpace s = s"
    using number_text_ends [OF assms(1)] by (intro TrimSpace_id) auto
  from parse_trimmed [OF assms(1) this] assms(2) show ?thesis by simp
qed

theorem parse_amount_too_precise_witness:
  "ParseAmountToSmallestUnit ''1.5'' 0 = Inl (TooManyDecimals 1 0)"
proof -
  have "number_text ''1.5'' ''1'' ''5''" by (simp add: number_text_def is_digit_def)
  from parse_amount_too_precise [OF this, of 0] show ?thesis by simp
qed

text \<open>The check for a leading minus sign does not exclude negative results: once leading zeros
  are stripped, a sign in the middle of the text comes first and is read as the sign of the
  number, so \<open>0-5\<close> is accepted and gives minus five.\<close>

theorem parse_amount_hidden_sign:
  assumes "list_all is_digit ds" and "ds \<noteq> []"
  shows "ParseAmountToSmallestUnit (''0-'' @ ds) d = Inr (- int (dec_value ds * 10 ^ unat d))"
proof -
  have ends: "num_char (hd (''0-'' @ ds))" "num_char (last (''0-'' @ ds))"
    using assms by (auto simp: num_char_def list_all_iff)
  then have t: "TrimSpace (''0-'' @ ds) = ''0-'' @ ds"
    by (intro TrimSpace_id) auto
  have "CHR ''.'' \<notin> set (''0-'' @ ds)"
    using assms is_digit_not_sign by (auto simp: list_all_iff)
  then have sp: "SplitN2 (''0-'' @ ds) (CHR ''.'') = [''0-'' @ ds]"
    by (simp add: SplitN2_def)
  have all: "list_all is_digit (ds @ replicate (unat d) (CHR ''0''))"
    using assms by (auto simp: list_all_iff)
  have "scan_nat (ds @ replicate (unat d) (CHR ''0'')) = Some (dec_value ds * 10 ^ unat d)"
    using scan_nat_digits [OF all] assms(2) by (simp add: dec_value_append)
  then show ?thesis
    using t sp
    by (simp add: ParseAmountToSmallestUnit_def HasPrefix_def TrimLeft_def Repeat_def
        SetString10_def Let_def)
qed

theorem parse_amount_hidden_sign_witness: "ParseAmountToSmallestUnit ''0-5'' 0 = Inr (- 5)"
proof -
  have "list_all is_digit ''5''" by (simp add: is_digit_def)
  from parse_amount_hidden_sign [OF this, of 0] show ?thesis
    by (simp add: dec_value_def digit_val_def)
qed

end
