(* ===== verification/Domain.thy ===== *)
theory Domain
  imports GoStd
begin

text \<open>
  The entities of internal/domain: statuses, priorities, error codes, transactions, attempts, the
  state log, chain and token configuration, gas parameters and receipts, each as the code has it.
  A Go pointer that may be nil is an \<open>option\<close>; a \<open>*big.Int\<close> is an \<open>int option\<close>. Addresses and
  hashes are go-ethereum's 20- and 32-byte values, compared by value, so they are words.
\<close>

type_synonym address = "160 word"
type_synonym hash = "256 word"

section \<open>Statuses and priorities (transaction.go)\<close>

datatype tx_status =
    TxStatusQueued | TxStatusPending | TxStatusSubmitted | TxStatusIncluded
  | TxStatusConfirmed | TxStatusReverted | TxStatusFailed

fun status_text :: "tx_status \<Rightarrow> string" where
  "status_text TxStatusQueued = ''QUEUED''"
| "status_text TxStatusPending = ''PENDING''"
| "status_text TxStatusSubmitted = ''SUBMITTED''"
| "status_text TxStatusIncluded = ''INCLUDED''"
| "status_text TxStatusConfirmed = ''CONFIRMED''"
| "status_text TxStatusReverted = ''REVERTED''"
| "status_text TxStatusFailed = ''FAILED''"

definition IsTerminal :: "tx_status \<Rightarrow> bool" where
  "IsTerminal s = (s = TxStatusConfirmed \<or> s = TxStatusReverted \<or> s = TxStatusFailed)"

datatype attempt_status = AttemptBroadcast | AttemptConfirmed | AttemptReplaced | AttemptDropped

fun attempt_status_text :: "attempt_status \<Rightarrow> string" where
  "attempt_status_text AttemptBroadcast = ''BROADCAST''"
| "attempt_status_text AttemptConfirmed = ''CONFIRMED''"
| "attempt_status_text AttemptReplaced = ''REPLACED''"
| "attempt_status_text AttemptDropped = ''DROPPED''"

text \<open>
  \<open>Priority\<close> is a Go string type: beside the four constants a value may hold any other text, in
  particular the empty one that \<open>ParsePriority\<close> returns with false.
\<close>

datatype priority =
  PriorityLow | PriorityNormal | PriorityHigh | PriorityUrgent | PriorityOther string

fun priority_text :: "priority \<Rightarrow> string" where
  "priority_text PriorityLow = ''low''"
| "priority_text PriorityNormal = ''normal''"
| "priority_text PriorityHigh = ''high''"
| "priority_text PriorityUrgent = ''urgent''"
| "priority_text (PriorityOther s) = s"

definition ParsePriority :: "string \<Rightarrow> priority \<times> bool" where
  "ParsePriority s =
    (if s = ''low'' then (PriorityLow, True)
     else if s = ''normal'' then (PriorityNormal, True)
     else if s = ''high'' then (PriorityHigh, True)
     else if s = ''urgent'' then (PriorityUrgent, True)
     else (PriorityOther [], False))"

lemma status_text_inj [simp]: "status_text s = status_text t \<longleftrightarrow> s = t"
  by (cases s; cases t) simp_all

lemma ParsePriority_text: "ParsePriority s = (p, True) \<Longrightarrow> priority_text p = s"
  by (auto simp: ParsePriority_def split: if_splits)

section \<open>Error codes (errors.go)\<close>

datatype error_code =
    ErrCodeInvalidAddress | ErrCodeInvalidChain | ErrCodeInvalidValue | ErrCodeUnknownSender
  | ErrCodeIdempotencyConflict | ErrCodeEstimationReverted | ErrCodeInsufficientFunds
  | ErrCodeNonceTooLow | ErrCodeRPCUnavailable | ErrCodeBroadcastFailed
  | ErrCodeMaxRetriesExceeded | ErrCodeSigningFailed | ErrCodeDBUnavailable
  | ErrCodeInternalError | ErrCodeTokenNotWhitelisted | ErrCodeTokenDisabled
  | ErrCodeInvalidAmount | ErrCodeAmountTooManyDecimals | ErrCodeZeroAmount
  | ErrCodeExceedsTransferLimit | ErrCodeAmountOverflow | ErrCodeZeroAddressRecipient
  | ErrCodeSelfTransferToken | ErrCodeInvalidRecipient | ErrCodeInvalidPriority
  | ErrCodeMissingField | ErrCodeIdempotencyKeyTooLong | ErrCodeERC20TransferNotVerified
  | ErrCodeReorgDetected

fun error_code_text :: "error_code \<Rightarrow> string" where
  "error_code_text ErrCodeInvalidAddress = ''INVALID_ADDRESS''"
| "error_code_text ErrCodeInvalidChain = ''INVALID_CHAIN''"
| "error_code_text ErrCodeInvalidValue = ''INVALID_VALUE''"
| "error_code_text ErrCodeUnknownSender = ''UNKNOWN_SENDER''"
| "error_code_text ErrCodeIdempotencyConflict = ''IDEMPOTENCY_CONFLICT''"
| "error_code_text ErrCodeEstimationReverted = ''ESTIMATION_REVERTED''"
| "error_code_text ErrCodeInsufficientFunds = ''INSUFFICIENT_FUNDS''"
| "error_code_text ErrCodeNonceTooLow = ''NONCE_TOO_LOW''"
| "error_code_text ErrCodeRPCUnavailable = ''RPC_UNAVAILABLE''"
| "error_code_text ErrCodeBroadcastFailed = ''BROADCAST_FAILED''"
| "error_code_text ErrCodeMaxRetriesExceeded = ''MAX_RETRIES_EXCEEDED''"
| "error_code_text ErrCodeSigningFailed = ''SIGNING_FAILED''"
| "error_code_text ErrCodeDBUnavailable = ''DB_UNAVAILABLE''"
| "error_code_text ErrCodeInternalError = ''INTERNAL_ERROR''"
| "error_code_text ErrCodeTokenNotWhitelisted = ''TOKEN_NOT_WHITELISTED''"
| "error_code_text ErrCodeTokenDisabled = ''TOKEN_DISABLED''"
| "error_code_text ErrCodeInvalidAmount = ''INVALID_AMOUNT''"
| "error_code_text ErrCodeAmountTooManyDecimals = ''AMOUNT_TOO_MANY_DECIMALS''"
| "error_code_text ErrCodeZeroAmount = ''ZERO_AMOUNT''"
| "error_code_text ErrCodeExceedsTransferLimit = ''EXCEEDS_TRANSFER_LIMIT''"
| "error_code_text ErrCodeAmountOverflow = ''AMOUNT_OVERFLOW''"
| "error_code_text ErrCodeZeroAddressRecipient = ''ZERO_ADDRESS_RECIPIENT''"
| "error_code_text ErrCodeSelfTransferToken = ''SELF_TRANSFER_TOKEN''"
| "error_code_text ErrCodeInvalidRecipient = ''INVALID_RECIPIENT''"
| "error_code_text ErrCodeInvalidPriority = ''INVALID_PRIORITY''"
| "error_code_text ErrCodeMissingField = ''MISSING_FIELD''"
| "error_code_text ErrCodeIdempotencyKeyTooLong = ''IDEMPOTENCY_KEY_TOO_LONG''"
| "error_code_text ErrCodeERC20TransferNotVerified = ''ERC20_TRANSFER_NOT_VERIFIED''"
| "error_code_text ErrCodeReorgDetected = ''REORG_DETECTED''"

record app_error =
  ae_Code :: error_code
  ae_Message :: string
  ae_HTTP :: int

definition NewAppError :: "error_code \<Rightarrow> int \<Rightarrow> string \<Rightarrow> app_error" where
  "NewAppError code httpStatus message =
     \<lparr>ae_Code = code, ae_Message = message, ae_HTTP = httpStatus\<rparr>"

definition AppError_Error :: "app_error \<Rightarrow> string" where
  "AppError_Error e = error_code_text (ae_Code e) @ '': '' @ ae_Message e"

section \<open>Transactions, attempts, log entries, cursors (transaction.go)\<close>

record transaction =
  tx_ID :: string
  tx_IdempotencyKey :: string
  tx_ChainID :: u64
  tx_Sender :: string
  tx_ToAddress :: string
  tx_Value :: "int option"
  tx_Data :: "bytes option"
  tx_GasLimit :: "u64 option"
  tx_Nonce :: "u64 option"
  tx_Priority :: priority
  tx_Status :: tx_status
  tx_ErrorReason :: string
  tx_ErrorCode :: string
  tx_FinalTxHash :: string
  tx_BlockNumber :: "u64 option"
  tx_BlockHash :: string
  tx_GasUsed :: "u64 option"
  tx_EffectiveGasPrice :: "int option"
  tx_ReceiptStatus :: "u8 option"
  tx_ReceiptData :: "bytes option"
  tx_Confirmations :: int
  tx_TransferToken :: string
  tx_TransferAmount :: string
  tx_TransferRecipient :: string
  tx_TokenContract :: string
  tx_TokenDecimals :: u8
  tx_Metadata :: "bytes option"
  tx_CreatedAt :: instant
  tx_UpdatedAt :: instant
  tx_SubmittedAt :: "instant option"
  tx_ConfirmedAt :: "instant option"
  tx_ClaimedBy :: string
  tx_ClaimedAt :: "instant option"

record tx_attempt =
  at_ID :: string
  at_TransactionID :: string
  at_AttemptNumber :: int
  at_TxHash :: string
  at_GasLimit :: u64
  at_MaxFeePerGas :: "int option"
  at_MaxPriorityFeePerGas :: "int option"
  at_GasPrice :: "int option"
  at_TxType :: int
  at_RawTx :: bytes
  at_Status :: attempt_status
  at_ErrorReason :: string
  at_CreatedAt :: instant
  at_ConfirmedAt :: "instant option"

record tx_state_log =
  sl_TransactionID :: string
  sl_FromStatus :: string
  sl_ToStatus :: string
  sl_Actor :: string
  sl_Reason :: string

record nonce_cursor =
  nc_Sender :: string
  nc_ChainID :: u64
  nc_NextNonce :: u64
  nc_UpdatedAt :: instant

section \<open>Gas parameters, receipts, filters (gas.go, interfaces.go)\<close>

record gas_params =
  gp_GasLimit :: u64
  gp_MaxFeePerGas :: "int option"
  gp_MaxPriorityFeePerGas :: "int option"
  gp_GasPrice :: "int option"
  gp_TxType :: int

text \<open>Go's zero value, returned together with an error.\<close>

definition zero_gas_params :: gas_params where
  "zero_gas_params = \<lparr>gp_GasLimit = 0, gp_MaxFeePerGas = None, gp_MaxPriorityFeePerGas = None,
     gp_GasPrice = None, gp_TxType = 0\<rparr>"

record tx_filter =
  tf_ChainID :: "u64 option"
  tf_Sender :: string
  tf_Status :: string
  tf_Limit :: int
  tf_After :: string

record tx_receipt =
  rc_TxHash :: string
  rc_BlockNumber :: u64
  rc_BlockHash :: string
  rc_GasUsed :: u64
  rc_EffectiveGasPrice :: "int option"
  rc_Status :: u8
  rc_ReceiptJSON :: bytes

section \<open>Chains and tokens (config.go)\<close>

record token_config =
  tk_Symbol :: string
  tk_ContractAddress :: address
  tk_Decimals :: u8
  tk_MaxTransfer :: "int option"
  tk_Enabled :: bool

text \<open>The gas multiplier is the rational value of the configured double.\<close>

record chain_config =
  ch_ChainID :: u64
  ch_Name :: string
  ch_RPCEndpoints :: "string list"
  ch_BlockTime :: duration
  ch_ConfirmationBlocks :: int
  ch_SupportsEIP1559 :: bool
  ch_GasLimitMultiplier :: rat
  ch_MinMaxFee :: "int option"
  ch_MaxMaxFee :: "int option"
  ch_MinPriorityFee :: "int option"
  ch_MaxPriorityFee :: "int option"
  ch_ReceiptChunkSize :: int
  ch_StuckThreshold :: duration
  ch_GasBumpInterval :: duration
  ch_NativeTokenSymbol :: string
  ch_NativeTokenDecimals :: u8
  ch_NativeMaxTransfer :: "int option"
  ch_TokenWhitelist :: "string \<rightharpoonup> token_config"

section \<open>Go-ethereum values the code builds and reads\<close>

text \<open>
  The two transaction forms the code builds with \<open>types.NewTx\<close>, the signed transaction that
  \<open>types.SignTx\<close> makes of one, and the fields of a receipt and its event logs that the code reads.
\<close>

record dynamic_fee_tx =
  df_ChainID :: int
  df_Nonce :: u64
  df_GasTipCap :: "int option"
  df_GasFeeCap :: "int option"
  df_Gas :: u64
  df_To :: address
  df_Value :: "int option"
  df_Data :: "bytes option"

record legacy_tx =
  lg_Nonce :: u64
  lg_GasPrice :: "int option"
  lg_Gas :: u64
  lg_To :: address
  lg_Value :: "int option"
  lg_Data :: "bytes option"

datatype eth_tx = DynamicFeeTx dynamic_fee_tx | LegacyTx legacy_tx

fun eth_tx_nonce :: "eth_tx \<Rightarrow> u64" where
  "eth_tx_nonce (DynamicFeeTx t) = df_Nonce t"
| "eth_tx_nonce (LegacyTx t) = lg_Nonce t"

record signed_tx =
  st_inner :: eth_tx
  st_sig :: bytes

record event_log =
  ev_Address :: address
  ev_Topics :: "hash list"

record eth_receipt =
  er_Status :: u64
  er_BlockNumber :: "int option"
  er_BlockHash :: hash
  er_GasUsed :: u64
  er_EffectiveGasPrice :: "int option"
  er_Logs :: "event_log list"

text \<open>
  The library functions of go-ethereum the code calls. Their code is not part of the repository,
  so they are a parameter of every definition that uses one of them. \<open>SignTx\<close> is the signature that
  \<open>types.SignTx\<close> attaches to the transaction. The last field is the result
  of a Go conversion from a double outside the range of \<open>uint64\<close>, which the language leaves to the
  platform.
\<close>

record 'key eth_lib =
  IsHexAddress :: "string \<Rightarrow> bool"
  HexToAddress :: "string \<Rightarrow> address"
  Address_Hex :: "address \<Rightarrow> string"
  AddressToHash :: "address \<Rightarrow> hash"
  HexToHash :: "string \<Rightarrow> hash"
  Hash_Hex :: "hash \<Rightarrow> string"
  SignTx :: "eth_tx \<Rightarrow> int \<Rightarrow> 'key \<Rightarrow> go_error + bytes"
  Tx_Hash :: "signed_tx \<Rightarrow> hash"
  MarshalBinary :: "signed_tx \<Rightarrow> go_error + bytes"
  UnmarshalBinary :: "bytes \<Rightarrow> go_error + signed_tx"
  Receipt_JSON :: "eth_receipt \<Rightarrow> bytes"
  TransferEventSig :: hash
  PackTransfer :: "address \<Rightarrow> int \<Rightarrow> go_error + bytes"
  Float_out_of_range :: "rat \<Rightarrow> u64"

end
