(* ===== verification/Store.thy ===== *)
theory Store
  imports Domain
begin

text \<open>
  The world the program acts on: the four PostgreSQL tables of migrations/001_init.sql, the RPC
  endpoints of every chain, and the environment (clock, identifiers, cancellation, what the
  database and the RPC nodes answer). The environment is a family of functions of a step counter,
  universally quantified in the theorems, so a statement holds for every behaviour of database and
  network. Every database statement and every RPC call advances the counter. Goroutines share the
  database: \<open>w_others\<close> is what the other goroutines (and other writers) have done to it by the time
  the next statement of the modelled goroutine runs, so the theorems hold for every interleaving at
  the granularity of statements. \<open>w_steps\<close> is the history of the goroutine's own database steps,
  which nothing reads: what a goroutine guarantees the others is stated over it.
\<close>

section \<open>Tables\<close>

text \<open>A nullable column is an \<open>option\<close>; BIGINT and NUMERIC are integers.\<close>

record tx_row =
  r_id :: string
  r_idempotency_key :: string
  r_chain_id :: int
  r_sender :: string
  r_to_address :: string
  r_value :: int
  r_data :: "bytes option"
  r_gas_limit :: "int option"
  r_nonce :: "int option"
  r_priority :: priority
  r_status :: tx_status
  r_error_reason :: "string option"
  r_error_code :: "string option"
  r_final_tx_hash :: "string option"
  r_block_number :: "int option"
  r_block_hash :: "string option"
  r_gas_used :: "int option"
  r_effective_gas_price :: "int option"
  r_receipt_status :: "int option"
  r_receipt_data :: "bytes option"
  r_confirmations :: "int option"
  r_transfer_token :: string
  r_transfer_amount :: string
  r_transfer_recipient :: string
  r_token_contract :: "string option"
  r_token_decimals :: int
  r_metadata :: "bytes option"
  r_created_at :: instant
  r_updated_at :: instant
  r_submitted_at :: "instant option"
  r_confirmed_at :: "instant option"
  r_claimed_by :: "string option"
  r_claimed_at :: "instant option"

record attempt_row =
  a_id :: string
  a_transaction_id :: string
  a_attempt_number :: int
  a_tx_hash :: string
  a_gas_limit :: int
  a_max_fee_per_gas :: "int option"
  a_max_priority_fee_per_gas :: "int option"
  a_gas_price :: "int option"
  a_tx_type :: int
  a_raw_tx :: bytes
  a_status :: attempt_status
  a_error_reason :: "string option"
  a_created_at :: instant
  a_confirmed_at :: "instant option"

record cursor_row =
  c_sender :: string
  c_chain_id :: int
  c_next_nonce :: int
  c_updated_at :: instant

definition c_key :: "cursor_row \<Rightarrow> string \<times> int" where
  "c_key c = (c_sender c, c_chain_id c)"

record db =
  d_transactions :: "tx_row list"
  d_attempts :: "attempt_row list"
  d_log :: "(tx_state_log \<times> instant) list"
  d_cursors :: "cursor_row list"

section \<open>The world\<close>

text \<open>
  What happens to a statement: it is executed and its result returned, or it fails without effect,
  or it takes effect but the reply is lost and the caller sees an error (a broken connection, a
  cancelled context).
\<close>

datatype db_outcome = DbOk | DbRefused string | DbLostReply string

text \<open>The answers of the RPC nodes, by endpoint URL and step.\<close>

record rpc_nodes =
  rpc_BlockNumber :: "string \<Rightarrow> nat \<Rightarrow> go_error + u64"
  rpc_PendingNonceAt :: "string \<Rightarrow> nat \<Rightarrow> address \<Rightarrow> go_error + u64"
  rpc_NonceAt :: "string \<Rightarrow> nat \<Rightarrow> address \<Rightarrow> go_error + u64"
  rpc_SuggestGasPrice :: "string \<Rightarrow> nat \<Rightarrow> go_error + int"
  rpc_SuggestGasTipCap :: "string \<Rightarrow> nat \<Rightarrow> go_error + int"
  rpc_EstimateGas ::
    "string \<Rightarrow> nat \<Rightarrow> address \<Rightarrow> address \<Rightarrow> bytes option \<Rightarrow> int option \<Rightarrow> go_error + u64"
  rpc_LatestBaseFee :: "string \<Rightarrow> nat \<Rightarrow> go_error + int option"
  rpc_SendTransaction :: "string \<Rightarrow> nat \<Rightarrow> signed_tx \<Rightarrow> go_error option"
  rpc_TransactionReceipt :: "string \<Rightarrow> nat \<Rightarrow> hash \<Rightarrow> go_error + eth_receipt"
  rpc_BatchReceipts ::
    "string \<Rightarrow> nat \<Rightarrow> hash list \<Rightarrow> go_error + (nat \<Rightarrow> go_error option \<times> eth_receipt)"
  rpc_CodeAt :: "string \<Rightarrow> nat \<Rightarrow> address \<Rightarrow> go_error + bytes"

record endpoint =
  ep_url :: string
  ep_healthy :: bool

record world =
  w_db :: db
  w_endpoints :: "u64 \<Rightarrow> endpoint list"
  w_sent :: "(u64 \<times> string \<times> signed_tx) list"
  w_notify :: "string \<Rightarrow> bool"
  w_tick :: nat
  w_clock :: "nat \<Rightarrow> instant"
  w_ulid :: "nat \<Rightarrow> string"
  w_done :: "nat \<Rightarrow> bool"
  w_dbres :: "nat \<Rightarrow> db_outcome"
  w_maporder :: "nat \<Rightarrow> nat \<Rightarrow> nat list"
  w_others :: "nat \<Rightarrow> db \<Rightarrow> db"
  w_rpc :: rpc_nodes
  w_steps :: "(db \<times> db) list"

definition tick :: "world \<Rightarrow> world" where
  "tick w = w\<lparr>w_tick := Suc (w_tick w)\<rparr>"

text \<open>The database the next statement runs on.\<close>

definition db_now :: "world \<Rightarrow> db" where
  "db_now w = w_others w (w_tick w) (w_db w)"

definition time_now :: "world \<Rightarrow> instant" where
  "time_now w = w_clock w (w_tick w)"

definition ulid_make :: "world \<Rightarrow> string \<times> world" where
  "ulid_make w = (w_ulid w (w_tick w), tick w)"

text \<open>\<open>ctx.Err() != nil\<close> now, and a sleep that ends when the timer fires or the context is done.\<close>

definition ctx_done :: "world \<Rightarrow> bool" where
  "ctx_done w = w_done w (w_tick w)"

definition sleepCtx :: "world \<Rightarrow> world" where
  "sleepCtx w = tick w"

lemma tick_simps [simp]:
  "w_db (tick w) = w_db w" "w_endpoints (tick w) = w_endpoints w" "w_sent (tick w) = w_sent w"
  "w_notify (tick w) = w_notify w" "w_clock (tick w) = w_clock w" "w_ulid (tick w) = w_ulid w"
  "w_done (tick w) = w_done w" "w_dbres (tick w) = w_dbres w" "w_rpc (tick w) = w_rpc w"
  "w_maporder (tick w) = w_maporder w" "w_others (tick w) = w_others w" "w_steps (tick w) = w_steps w"
  "w_tick (tick w) = Suc (w_tick w)"
  by (simp_all add: tick_def)

text \<open>
  Go's \<open>range\<close> over a map visits the keys in an arbitrary order. The environment chooses it as a
  permutation of the positions; a choice that is no permutation counts as the order of insertion.
\<close>

definition range_order :: "'a list \<Rightarrow> world \<Rightarrow> 'a list" where
  "range_order ks w =
     (let p = w_maporder w (w_tick w) (length ks) in
      if mset p = mset [0..<length ks] then map (\<lambda>i. ks ! i) p else ks)"

lemma range_order_mset [simp]: "mset (range_order ks w) = mset ks"
proof -
  have "mset (map (\<lambda>i. ks ! i) p) = mset ks" if "mset p = mset [0..<length ks]" for p
  proof -
    have "mset (map (\<lambda>i. ks ! i) p) = image_mset (\<lambda>i. ks ! i) (mset p)" by simp
    also have "\<dots> = mset (map (\<lambda>i. ks ! i) [0..<length ks])" using that by simp
    also have "\<dots> = mset ks" by (simp only: map_nth)
    finally show ?thesis .
  qed
  then show ?thesis by (simp add: range_order_def Let_def)
qed

lemma range_order_set [simp]: "set (range_order ks w) = set ks"
  by (metis range_order_mset set_mset_mset)

lemma range_order_distinct [simp]: "distinct (range_order ks w) = distinct ks"
  by (metis range_order_mset mset_eq_imp_distinct_iff)

section \<open>Statements\<close>

type_synonym 'a stmt = "db \<Rightarrow> go_error + ('a \<times> db)"

definition after_stmt :: "db \<Rightarrow> world \<Rightarrow> world" where
  "after_stmt d w = tick (w\<lparr>w_db := d, w_steps := w_steps w @ [(db_now w, d)]\<rparr>)"

definition run_stmt :: "'a stmt \<Rightarrow> world \<Rightarrow> (go_error + 'a) \<times> world" where
  "run_stmt st w =
    (let d = db_now w in
     case w_dbres w (w_tick w) of
       DbOk \<Rightarrow> (case st d of
           Inl e \<Rightarrow> (Inl e, after_stmt d w)
         | Inr (a, d') \<Rightarrow> (Inr a, after_stmt d' w))
     | DbRefused e \<Rightarrow> (Inl (Err e), after_stmt d w)
     | DbLostReply e \<Rightarrow> (case st d of
           Inl _ \<Rightarrow> (Inl (Err e), after_stmt d w)
         | Inr (a, d') \<Rightarrow> (Inl (Err e), after_stmt d' w)))"

lemma after_stmt_simps [simp]:
  "w_db (after_stmt d w) = d" "w_endpoints (after_stmt d w) = w_endpoints w"
  "w_sent (after_stmt d w) = w_sent w" "w_notify (after_stmt d w) = w_notify w"
  "w_clock (after_stmt d w) = w_clock w" "w_ulid (after_stmt d w) = w_ulid w"
  "w_done (after_stmt d w) = w_done w" "w_dbres (after_stmt d w) = w_dbres w"
  "w_maporder (after_stmt d w) = w_maporder w" "w_others (after_stmt d w) = w_others w"
  "w_rpc (after_stmt d w) = w_rpc w" "w_tick (after_stmt d w) = Suc (w_tick w)"
  "w_steps (after_stmt d w) = w_steps w @ [(db_now w, d)]"
  by (simp_all add: after_stmt_def)

text \<open>\<open>pool.Exec\<close> of a statement without a result, and a query that changes nothing.\<close>

definition exec :: "(db \<Rightarrow> go_error + db) \<Rightarrow> world \<Rightarrow> go_error option \<times> world" where
  "exec st w =
    (case run_stmt (\<lambda>d. case st d of Inl e \<Rightarrow> Inl e | Inr d' \<Rightarrow> Inr ((), d')) w of
       (Inl e, w') \<Rightarrow> (Some e, w')
     | (Inr _, w') \<Rightarrow> (None, w'))"

definition query :: "(db \<Rightarrow> go_error + 'a) \<Rightarrow> world \<Rightarrow> (go_error + 'a) \<times> world" where
  "query q w = run_stmt (\<lambda>d. case q d of Inl e \<Rightarrow> Inl e | Inr a \<Rightarrow> Inr (a, d)) w"

text \<open>
  A statement of an open SQL transaction works on the transaction's own copy of the database;
  the commit publishes it. (\<open>defer tx.Rollback\<close> discards the copy on every other path.) The rows a
  transaction has written are locked until it ends, so what other goroutines do meanwhile commutes
  with it and counts as done before it began.
\<close>

definition run_in_tx :: "'a stmt \<Rightarrow> db \<Rightarrow> world \<Rightarrow> (go_error + 'a \<times> db) \<times> world" where
  "run_in_tx st d w =
    (case w_dbres w (w_tick w) of
       DbOk \<Rightarrow> (st d, tick w)
     | DbRefused e \<Rightarrow> (Inl (Err e), tick w)
     | DbLostReply e \<Rightarrow> (Inl (Err e), tick w))"

definition begin_tx :: "world \<Rightarrow> (go_error + db) \<times> world" where
  "begin_tx w = query (\<lambda>d. Inr d) w"

definition commit_tx :: "db \<Rightarrow> world \<Rightarrow> go_error option \<times> world" where
  "commit_tx d w =
    (let committed = tick (w\<lparr>w_db := d, w_steps := w_steps w @ [(w_db w, d)]\<rparr>) in
     case w_dbres w (w_tick w) of
       DbOk \<Rightarrow> (None, committed)
     | DbRefused e \<Rightarrow> (Some (Err e), tick w)
     | DbLostReply e \<Rightarrow> (Some (Err e), committed))"

section \<open>Frame facts: what a statement leaves unchanged\<close>

text \<open>Everything but the database and the step counter.\<close>

definition same_env :: "world \<Rightarrow> world \<Rightarrow> bool" where
  "same_env w v \<longleftrightarrow> w_endpoints v = w_endpoints w \<and> w_sent v = w_sent w \<and> w_notify v = w_notify w
     \<and> w_clock v = w_clock w \<and> w_ulid v = w_ulid w \<and> w_done v = w_done w
     \<and> w_dbres v = w_dbres w \<and> w_maporder v = w_maporder w \<and> w_others v = w_others w
     \<and> w_rpc v = w_rpc w"

lemma same_env_refl [simp, intro]: "same_env w w"
  by (simp add: same_env_def)

lemma same_env_trans [trans]: "same_env u v \<Longrightarrow> same_env v w \<Longrightarrow> same_env u w"
  by (simp add: same_env_def)

lemma same_env_tick [simp]: "same_env w (tick v) = same_env w v"
  by (simp add: same_env_def)

lemma same_env_run_stmt: "run_stmt st w = (r, w') \<Longrightarrow> same_env w w' \<and> w_tick w' = Suc (w_tick w)"
  by (auto simp: run_stmt_def Let_def same_env_def split: db_outcome.splits sum.splits prod.splits)

lemma same_env_exec: "exec st w = (r, w') \<Longrightarrow> same_env w w' \<and> w_tick w' = Suc (w_tick w)"
  by (auto simp: exec_def split: sum.splits prod.splits dest: same_env_run_stmt)

lemma same_env_query: "query q w = (r, w') \<Longrightarrow> same_env w w' \<and> w_tick w' = Suc (w_tick w)"
  by (auto simp: query_def dest: same_env_run_stmt)

text \<open>
  What a statement can have done to the database: on success it ran; on an error it either ran
  or did not.
\<close>

lemma run_stmt_db_cases:
  assumes "run_stmt st w = (r, w')"
  obtains e where "r = Inl e" "w_db w' = db_now w"
    | a where "st (db_now w) = Inr (a, w_db w')" "r = Inr a \<or> (\<exists>e. r = Inl e)"
  using assms
  by (auto simp: run_stmt_def Let_def split: db_outcome.splits sum.splits prod.splits)

lemma run_stmt_effect:
  assumes "run_stmt st w = (r, w')" and "Q (db_now w)"
    and "\<And>a d'. st (db_now w) = Inr (a, d') \<Longrightarrow> Q d'"
  shows "Q (w_db w')"
  using assms by (elim run_stmt_db_cases) auto

lemma run_stmt_steps:
  "run_stmt st w = (r, w') \<Longrightarrow> w_steps w' = w_steps w @ [(db_now w, w_db w')]"
  by (auto simp: run_stmt_def Let_def split: db_outcome.splits sum.splits prod.splits)

lemma exec_steps:
  "exec st w = (r, w') \<Longrightarrow> w_steps w' = w_steps w @ [(db_now w, w_db w')]"
  by (auto simp: exec_def split: sum.splits prod.splits dest: run_stmt_steps)

lemma query_steps:
  "query q w = (r, w') \<Longrightarrow> w_steps w' = w_steps w @ [(db_now w, w_db w')]"
  by (auto simp: query_def dest: run_stmt_steps)

lemma run_stmt_ok:
  "run_stmt st w = (Inr a, w') \<Longrightarrow> st (db_now w) = Inr (a, w_db w')"
  by (auto simp: run_stmt_def Let_def split: db_outcome.splits sum.splits prod.splits)

lemma run_stmt_runs:
  "w_dbres w (w_tick w) = DbOk \<Longrightarrow> st (db_now w) = Inr (a, d)
    \<Longrightarrow> run_stmt st w = (Inr a, after_stmt d w)"
  by (simp add: run_stmt_def)

lemma exec_db_cases:
  assumes "exec st w = (r, w')"
  obtains e where "r = Some e" "w_db w' = db_now w" | "st (db_now w) = Inr (w_db w')"
  using assms
  by (auto simp: exec_def run_stmt_def Let_def split: db_outcome.splits sum.splits)

lemma exec_effect:
  assumes "exec st w = (r, w')" and "Q (db_now w)" and "\<And>d'. st (db_now w) = Inr d' \<Longrightarrow> Q d'"
  shows "Q (w_db w')"
  using assms by (elim exec_db_cases) auto

lemma exec_ok:
  "exec st w = (None, w') \<Longrightarrow> st (db_now w) = Inr (w_db w')"
  by (auto simp: exec_def run_stmt_def Let_def split: db_outcome.splits sum.splits prod.splits)

lemma exec_runs:
  "w_dbres w (w_tick w) = DbOk \<Longrightarrow> st (db_now w) = Inr d
    \<Longrightarrow> exec st w = (None, after_stmt d w)"
  by (simp add: exec_def run_stmt_def)

lemma query_db: "query q w = (r, w') \<Longrightarrow> w_db w' = db_now w"
  by (auto simp: query_def run_stmt_def Let_def split: db_outcome.splits sum.splits prod.splits)

lemma query_ok: "query q w = (Inr a, w') \<Longrightarrow> q (db_now w) = Inr a"
  by (auto simp: query_def run_stmt_def Let_def split: db_outcome.splits sum.splits prod.splits)

lemma query_runs:
  "w_dbres w (w_tick w) = DbOk \<Longrightarrow> q (db_now w) = Inr a
    \<Longrightarrow> query q w = (Inr a, after_stmt (db_now w) w)"
  by (simp add: query_def run_stmt_def)

text \<open>The statements of an SQL transaction.\<close>

lemma begin_tx_effect:
  "begin_tx w = (r, v) \<Longrightarrow> same_env w v \<and> w_db v = db_now w \<and> (\<forall>d. r = Inr d \<longrightarrow> d = db_now w)"
  using query_ok [of "\<lambda>d. Inr d" w] query_db [of "\<lambda>d. Inr d" w r v] same_env_query [of _ w r v]
  by (fastforce simp: begin_tx_def)

lemma run_in_tx_effect:
  "run_in_tx st d w = (r, v) \<Longrightarrow> same_env w v \<and> w_db v = w_db w \<and> (\<forall>x. r = Inr x \<longrightarrow> st d = Inr x)"
  by (auto simp: run_in_tx_def split: db_outcome.splits)

lemma commit_tx_effect:
  "commit_tx d w = (r, v) \<Longrightarrow> same_env w v \<and> (w_db v = w_db w \<or> w_db v = d)
    \<and> (r = None \<longrightarrow> w_db v = d)"
  by (auto simp: commit_tx_def Let_def same_env_def split: db_outcome.splits)

section \<open>Undisturbed execution\<close>

text \<open>
  When the database answers every statement and nobody else writes, a statement simply runs.
\<close>

definition calm :: "world \<Rightarrow> bool" where
  "calm w \<longleftrightarrow> (\<forall>t. w_dbres w t = DbOk) \<and> (\<forall>t d. w_others w t d = d)"

lemma calm_simps [simp]:
  "calm (tick w) = calm w" "calm (after_stmt d w) = calm w"
  "calm (w\<lparr>w_db := d\<rparr>) = calm w" "calm (w\<lparr>w_steps := s\<rparr>) = calm w"
  "calm (w\<lparr>w_sent := n\<rparr>) = calm w" "calm (w\<lparr>w_endpoints := e\<rparr>) = calm w"
  "calm (w\<lparr>w_notify := f\<rparr>) = calm w"
  by (simp_all add: calm_def)

lemma calm_db_now [simp]: "calm w \<Longrightarrow> db_now w = w_db w"
  by (simp add: calm_def db_now_def)

lemma calm_run_stmt: "calm w \<Longrightarrow> run_stmt st w = (case st (w_db w) of
    Inl e \<Rightarrow> (Inl e, after_stmt (w_db w) w) | Inr (a, d) \<Rightarrow> (Inr a, after_stmt d w))"
  by (simp add: run_stmt_def calm_def db_now_def Let_def)

lemma calm_exec: "calm w \<Longrightarrow> exec st w = (case st (w_db w) of
    Inl e \<Rightarrow> (Some e, after_stmt (w_db w) w) | Inr d \<Rightarrow> (None, after_stmt d w))"
  by (simp add: exec_def calm_run_stmt split: sum.split)

lemma calm_query: "calm w \<Longrightarrow> query q w = (q (w_db w), after_stmt (w_db w) w)"
  by (simp add: query_def calm_run_stmt split: sum.split)

lemma calm_tx:
  "calm w \<Longrightarrow> begin_tx w = (Inr (w_db w), after_stmt (w_db w) w)"
  "calm w \<Longrightarrow> run_in_tx st d w = (st d, tick w)"
  "calm w \<Longrightarrow> commit_tx d w = (None, tick (w\<lparr>w_db := d, w_steps := w_steps w @ [(w_db w, d)]\<rparr>))"
  by (simp_all add: begin_tx_def calm_query run_in_tx_def commit_tx_def)
    (simp_all add: calm_def)

lemmas calm_runs = calm_run_stmt calm_exec calm_query calm_tx

end
