(* ===== verification/Repo.thy ===== *)
theory Repo
  imports Store
begin

text \<open>
  internal/infrastructure/postgres/repo.go: every SQL statement of the repository as an operation
  on the tables, the conversion of rows to domain values (\<open>scanTransaction\<close>, \<open>scanAttempt\<close>), and
  the invariants every operation keeps: primary keys, unique idempotency keys, unique attempt
  numbers, referential integrity and the range of the nonce cursors.
\<close>

section \<open>Parameters and columns\<close>

text \<open>
  A \<open>uint64\<close> parameter of a BIGINT column must fit an int64, a \<open>*big.Int\<close> goes to NUMERIC(78,0)
  as its decimal text (a nil one as the text \<open><nil>\<close>, which the database refuses).
\<close>

definition bigint :: "u64 \<Rightarrow> go_error + int" where
  "bigint n = (if unat n < 2 ^ 63 then Inr (int (unat n))
     else Inl (Err (''cannot encode '' @ u64_dec n @ '' into int8'')))"

definition numeric78 :: "int option \<Rightarrow> go_error + int" where
  "numeric78 v = (case v of
       None \<Rightarrow> Inl (Err ''invalid input syntax for type numeric'')
     | Some i \<Rightarrow> if \<bar>i\<bar> < 10 ^ 78 then Inr i else Inl (Err ''numeric field overflow''))"

text \<open>\<open>bigIntToString\<close>: nil is NULL. \<open>nullIfEmpty\<close> and \<open>derefString\<close>: empty text is NULL.\<close>

definition bigIntToString :: "int option \<Rightarrow> string option" where
  "bigIntToString b = map_option int_dec b"

definition nullable_numeric78 :: "string option \<Rightarrow> go_error + int option" where
  "nullable_numeric78 s = (case s of
       None \<Rightarrow> Inr None
     | Some t \<Rightarrow> (case numeric78 (SetString10 t) of Inl e \<Rightarrow> Inl e | Inr i \<Rightarrow> Inr (Some i)))"

definition nullIfEmpty :: "string \<Rightarrow> string option" where
  "nullIfEmpty s = (if s = [] then None else Some s)"

definition derefString :: "string option \<Rightarrow> string" where
  "derefString s = (case s of None \<Rightarrow> [] | Some t \<Rightarrow> t)"

section \<open>Scanning rows\<close>

text \<open>
  The numeric columns are scanned as text and parsed with \<open>SetString\<close>; a value that does not
  parse becomes zero, an optional one stays nil.
\<close>

definition scanTransaction :: "tx_row \<Rightarrow> transaction" where
  "scanTransaction r =
    (let valueStr = int_dec (r_value r);
         effectiveGasPriceStr = map_option int_dec (r_effective_gas_price r)
     in \<lparr>
      tx_ID = r_id r,
      tx_IdempotencyKey = r_idempotency_key r,
      tx_ChainID = word_of_int (r_chain_id r),
      tx_Sender = r_sender r,
      tx_ToAddress = r_to_address r,
      tx_Value = (case SetString10 valueStr of None \<Rightarrow> Some 0 | Some v \<Rightarrow> Some v),
      tx_Data = r_data r,
      tx_GasLimit = map_option word_of_int (r_gas_limit r),
      tx_Nonce = map_option word_of_int (r_nonce r),
      tx_Priority = r_priority r,
      tx_Status = r_status r,
      tx_ErrorReason = derefString (r_error_reason r),
      tx_ErrorCode = derefString (r_error_code r),
      tx_FinalTxHash = derefString (r_final_tx_hash r),
      tx_BlockNumber = map_option word_of_int (r_block_number r),
      tx_BlockHash = derefString (r_block_hash r),
      tx_GasUsed = map_option word_of_int (r_gas_used r),
      tx_EffectiveGasPrice = Option.bind effectiveGasPriceStr SetString10,
      tx_ReceiptStatus = map_option word_of_int (r_receipt_status r),
      tx_ReceiptData = r_receipt_data r,
      tx_Confirmations = (case r_confirmations r of None \<Rightarrow> 0 | Some c \<Rightarrow> c),
      tx_TransferToken = r_transfer_token r,
      tx_TransferAmount = r_transfer_amount r,
      tx_TransferRecipient = r_transfer_recipient r,
      tx_TokenContract = derefString (r_token_contract r),
      tx_TokenDecimals = word_of_int (r_token_decimals r),
      tx_Metadata = r_metadata r,
      tx_CreatedAt = r_created_at r,
      tx_UpdatedAt = r_updated_at r,
      tx_SubmittedAt = r_submitted_at r,
      tx_ConfirmedAt = r_confirmed_at r,
      tx_ClaimedBy = derefString (r_claimed_by r),
      tx_ClaimedAt = r_claimed_at r\<rparr>)"

text \<open>\<open>scanTransactionRows\<close> is the same code over \<open>pgx.Rows\<close>.\<close>

definition scanTransactionRows :: "tx_row list \<Rightarrow> transaction list" where
  "scanTransactionRows rows = map scanTransaction rows"

definition scanAttempt :: "attempt_row \<Rightarrow> tx_attempt" where
  "scanAttempt a = \<lparr>
      at_ID = a_id a,
      at_TransactionID = a_transaction_id a,
      at_AttemptNumber = a_attempt_number a,
      at_TxHash = a_tx_hash a,
      at_GasLimit = word_of_int (a_gas_limit a),
      at_MaxFeePerGas = Option.bind (map_option int_dec (a_max_fee_per_gas a)) SetString10,
      at_MaxPriorityFeePerGas =
        Option.bind (map_option int_dec (a_max_priority_fee_per_gas a)) SetString10,
      at_GasPrice = Option.bind (map_option int_dec (a_gas_price a)) SetString10,
      at_TxType = a_tx_type a,
      at_RawTx = a_raw_tx a,
      at_Status = a_status a,
      at_ErrorReason = derefString (a_error_reason a),
      at_CreatedAt = a_created_at a,
      at_ConfirmedAt = a_confirmed_at a\<rparr>"

section \<open>Transactions\<close>

definition upd_tx :: "string \<Rightarrow> (tx_row \<Rightarrow> tx_row) \<Rightarrow> db \<Rightarrow> db" where
  "upd_tx txid f d = d\<lparr>d_transactions := upd_by r_id txid f (d_transactions d)\<rparr>"

text \<open>The columns the INSERT does not name take their defaults.\<close>

definition insert_tx :: "transaction \<Rightarrow> db \<Rightarrow> go_error + db" where
  "insert_tx tx d =
    (case bigint (tx_ChainID tx) of Inl e \<Rightarrow> Inl e | Inr chain \<Rightarrow>
     (case numeric78 (tx_Value tx) of Inl e \<Rightarrow> Inl e | Inr v \<Rightarrow>
      if tx_ID tx \<in> r_id ` set (d_transactions d)
      then Inl (Err ''duplicate key value violates unique constraint transactions_pkey'')
      else if tx_IdempotencyKey tx \<in> r_idempotency_key ` set (d_transactions d)
      then Inl (Err ''duplicate key value violates unique constraint idempotency_key'')
      else Inr (d\<lparr>d_transactions := d_transactions d @
        [\<lparr>r_id = tx_ID tx, r_idempotency_key = tx_IdempotencyKey tx, r_chain_id = chain,
          r_sender = tx_Sender tx, r_to_address = tx_ToAddress tx, r_value = v,
          r_data = tx_Data tx, r_gas_limit = None, r_nonce = None, r_priority = tx_Priority tx,
          r_status = tx_Status tx, r_error_reason = None, r_error_code = None,
          r_final_tx_hash = None, r_block_number = None, r_block_hash = None,
          r_gas_used = None, r_effective_gas_price = None, r_receipt_status = None,
          r_receipt_data = None, r_confirmations = Some 0,
          r_transfer_token = tx_TransferToken tx, r_transfer_amount = tx_TransferAmount tx,
          r_transfer_recipient = tx_TransferRecipient tx,
          r_token_contract = nullIfEmpty (tx_TokenContract tx),
          r_token_decimals = int (unat (tx_TokenDecimals tx)), r_metadata = tx_Metadata tx,
          r_created_at = tx_CreatedAt tx, r_updated_at = tx_UpdatedAt tx,
          r_submitted_at = None, r_confirmed_at = None, r_claimed_by = None,
          r_claimed_at = None\<rparr>]\<rparr>)))"

definition CreateTransaction :: "transaction \<Rightarrow> world \<Rightarrow> go_error option \<times> world" where
  "CreateTransaction tx w = exec (insert_tx tx) w"

definition GetTransaction :: "string \<Rightarrow> world \<Rightarrow> (go_error + transaction) \<times> world" where
  "GetTransaction txid w =
     query (\<lambda>d. case row_by r_id txid (d_transactions d) of
         None \<Rightarrow> Inl ErrNoRows
       | Some r \<Rightarrow> Inr (scanTransaction r)) w"

text \<open>\<open>errors.Is(err, pgx.ErrNoRows)\<close> gives \<open>nil, nil\<close>.\<close>

definition no_rows_is_nil :: "(go_error + 'a) \<times> world \<Rightarrow> (go_error + 'a option) \<times> world" where
  "no_rows_is_nil res = (case res of
       (Inl ErrNoRows, w) \<Rightarrow> (Inr None, w)
     | (Inl e, w) \<Rightarrow> (Inl e, w)
     | (Inr a, w) \<Rightarrow> (Inr (Some a), w))"

definition GetTransactionByIdempotencyKey ::
    "string \<Rightarrow> world \<Rightarrow> (go_error + transaction option) \<times> world" where
  "GetTransactionByIdempotencyKey key w =
     no_rows_is_nil (query (\<lambda>d. case row_by r_idempotency_key key (d_transactions d) of
         None \<Rightarrow> Inl ErrNoRows
       | Some r \<Rightarrow> Inr (scanTransaction r)) w)"

definition list_limit :: "int \<Rightarrow> nat" where
  "list_limit n = (if n \<le> 0 \<or> n > 100 then 50 else nat n)"

definition ListTransactions :: "tx_filter \<Rightarrow> world \<Rightarrow> (go_error + transaction list) \<times> world" where
  "ListTransactions filt w =
    query (\<lambda>d.
      case (case tf_ChainID filt of None \<Rightarrow> Inr None
              | Some c \<Rightarrow> (case bigint c of Inl e \<Rightarrow> Inl e | Inr i \<Rightarrow> Inr (Some i))) of
        Inl e \<Rightarrow> Inl e
      | Inr chain \<Rightarrow>
          Inr (scanTransactionRows (take (list_limit (tf_Limit filt))
            (sort_key r_id (filter (\<lambda>r.
                (case chain of None \<Rightarrow> True | Some c \<Rightarrow> r_chain_id r = c)
              \<and> (tf_Sender filt \<noteq> [] \<longrightarrow> r_sender r = tf_Sender filt)
              \<and> (tf_Status filt \<noteq> [] \<longrightarrow> status_text (r_status r) = tf_Status filt)
              \<and> (tf_After filt \<noteq> [] \<longrightarrow> tf_After filt < r_id r))
              (d_transactions d)))))) w"

section \<open>Pipeline operations\<close>

text \<open>The oldest queued row of a (sender, chain); between equal creation times any may be taken.\<close>

definition next_queued :: "string \<Rightarrow> int \<Rightarrow> db \<Rightarrow> tx_row option" where
  "next_queued sender chain d =
    (case sort_key r_created_at (filter (\<lambda>r. r_status r = TxStatusQueued
        \<and> r_sender r = sender \<and> r_chain_id r = chain) (d_transactions d)) of
       [] \<Rightarrow> None | r # _ \<Rightarrow> Some r)"

definition claim_row :: "string \<Rightarrow> instant \<Rightarrow> tx_row \<Rightarrow> tx_row" where
  "claim_row claimedBy now r = r\<lparr>r_status := TxStatusPending, r_claimed_by := Some claimedBy,
     r_claimed_at := Some now, r_updated_at := now\<rparr>"

definition ClaimNextQueued ::
    "string \<Rightarrow> u64 \<Rightarrow> string \<Rightarrow> world \<Rightarrow> (go_error + transaction option) \<times> world" where
  "ClaimNextQueued sender chainID claimedBy w =
    (let now = time_now w in
     no_rows_is_nil (run_stmt (\<lambda>d.
       case bigint chainID of Inl e \<Rightarrow> Inl e | Inr chain \<Rightarrow>
       (case next_queued sender chain d of
          None \<Rightarrow> Inl ErrNoRows
        | Some r \<Rightarrow> Inr (scanTransaction (claim_row claimedBy now r),
                        upd_tx (r_id r) (claim_row claimedBy now) d))) w))"

text \<open>Despite its name the statement writes the nonce only.\<close>

definition nonce_row :: "int \<Rightarrow> instant \<Rightarrow> tx_row \<Rightarrow> tx_row" where
  "nonce_row n now r = r\<lparr>r_nonce := Some n, r_updated_at := now\<rparr>"

definition MarkPending :: "string \<Rightarrow> u64 \<Rightarrow> world \<Rightarrow> go_error option \<times> world" where
  "MarkPending txid nonce w =
    (let now = time_now w in exec (\<lambda>d. case bigint nonce of Inl e \<Rightarrow> Inl e
       | Inr n \<Rightarrow> Inr (upd_tx txid (nonce_row n now) d)) w)"

definition submitted_row :: "string \<Rightarrow> instant \<Rightarrow> tx_row \<Rightarrow> tx_row" where
  "submitted_row txHash now r = r\<lparr>r_status := TxStatusSubmitted, r_final_tx_hash := Some txHash,
     r_submitted_at := Some now, r_updated_at := now\<rparr>"

definition MarkSubmitted :: "string \<Rightarrow> string \<Rightarrow> world \<Rightarrow> go_error option \<times> world" where
  "MarkSubmitted txid txHash w =
    (let now = time_now w in exec (\<lambda>d. Inr (upd_tx txid (submitted_row txHash now) d)) w)"

text \<open>The receipt columns that \<open>MarkConfirmed\<close>, \<open>MarkIncluded\<close> and \<open>MarkReverted\<close> write.\<close>

definition receipt_columns :: "tx_receipt \<Rightarrow> go_error + (tx_row \<Rightarrow> tx_row)" where
  "receipt_columns rc =
    (case bigint (rc_BlockNumber rc) of Inl e \<Rightarrow> Inl e | Inr bn \<Rightarrow>
     (case bigint (rc_GasUsed rc) of Inl e \<Rightarrow> Inl e | Inr gu \<Rightarrow>
      (case numeric78 (rc_EffectiveGasPrice rc) of Inl e \<Rightarrow> Inl e | Inr price \<Rightarrow>
        Inr (\<lambda>r. r\<lparr>r_final_tx_hash := Some (rc_TxHash rc), r_block_number := Some bn,
          r_block_hash := Some (rc_BlockHash rc), r_gas_used := Some gu,
          r_effective_gas_price := Some price,
          r_receipt_status := Some (int (unat (rc_Status rc))),
          r_receipt_data := Some (rc_ReceiptJSON rc)\<rparr>))))"

definition mark_receipt ::
    "(instant \<Rightarrow> tx_row \<Rightarrow> tx_row) \<Rightarrow> string \<Rightarrow> tx_receipt \<Rightarrow> world \<Rightarrow> go_error option \<times> world" where
  "mark_receipt fin txid rc w =
    (let now = time_now w in exec (\<lambda>d. case receipt_columns rc of Inl e \<Rightarrow> Inl e
       | Inr f \<Rightarrow> Inr (upd_tx txid (fin now \<circ> f) d)) w)"

definition confirmed_row :: "instant \<Rightarrow> tx_row \<Rightarrow> tx_row" where
  "confirmed_row now r = r\<lparr>r_status := TxStatusConfirmed, r_confirmed_at := Some now,
     r_updated_at := now\<rparr>"

definition included_row :: "instant \<Rightarrow> tx_row \<Rightarrow> tx_row" where
  "included_row now r = r\<lparr>r_status := TxStatusIncluded, r_updated_at := now\<rparr>"

definition reverted_row :: "instant \<Rightarrow> tx_row \<Rightarrow> tx_row" where
  "reverted_row now r = r\<lparr>r_status := TxStatusReverted, r_confirmed_at := Some now,
     r_updated_at := now\<rparr>"

definition MarkConfirmed :: "string \<Rightarrow> tx_receipt \<Rightarrow> world \<Rightarrow> go_error option \<times> world" where
  "MarkConfirmed = mark_receipt confirmed_row"

definition MarkIncluded :: "string \<Rightarrow> tx_receipt \<Rightarrow> world \<Rightarrow> go_error option \<times> world" where
  "MarkIncluded = mark_receipt included_row"

definition MarkReverted :: "string \<Rightarrow> tx_receipt \<Rightarrow> world \<Rightarrow> go_error option \<times> world" where
  "MarkReverted = mark_receipt reverted_row"

definition resubmitted_row :: "instant \<Rightarrow> tx_row \<Rightarrow> tx_row" where
  "resubmitted_row now r = r\<lparr>r_status := TxStatusSubmitted,
     r_block_number := None, r_block_hash := None, r_gas_used := None,
     r_effective_gas_price := None, r_receipt_status := None, r_receipt_data := None,
     r_updated_at := now\<rparr>"

definition RevertToSubmitted :: "string \<Rightarrow> world \<Rightarrow> go_error option \<times> world" where
  "RevertToSubmitted txid w =
    (let now = time_now w in exec (\<lambda>d. Inr (upd_tx txid (resubmitted_row now) d)) w)"

definition failed_row :: "error_code \<Rightarrow> string \<Rightarrow> instant \<Rightarrow> tx_row \<Rightarrow> tx_row" where
  "failed_row errCode errReason now r = r\<lparr>r_status := TxStatusFailed,
     r_error_code := Some (error_code_text errCode), r_error_reason := Some errReason,
     r_updated_at := now\<rparr>"

definition MarkFailed :: "string \<Rightarrow> error_code \<Rightarrow> string \<Rightarrow> world \<Rightarrow> go_error option \<times> world" where
  "MarkFailed txid errCode errReason w =
    (let now = time_now w in
     exec (\<lambda>d. Inr (upd_tx txid (failed_row errCode errReason now) d)) w)"

definition reset_row :: "instant \<Rightarrow> tx_row \<Rightarrow> tx_row" where
  "reset_row now r = (if r_status r = TxStatusPending
     then r\<lparr>r_status := TxStatusQueued, r_claimed_by := None, r_claimed_at := None,
       r_nonce := None, r_updated_at := now\<rparr>
     else r)"

definition ResetPendingToQueued :: "world \<Rightarrow> (go_error + int) \<times> world" where
  "ResetPendingToQueued w =
    (let now = time_now w in run_stmt (\<lambda>d. Inr (
       int (length (filter (\<lambda>r. r_status r = TxStatusPending) (d_transactions d))),
       d\<lparr>d_transactions := map (reset_row now) (d_transactions d)\<rparr>)) w)"

section \<open>Attempts\<close>

definition attempt_row_of :: "tx_attempt \<Rightarrow> go_error + attempt_row" where
  "attempt_row_of a =
    (case bigint (at_GasLimit a) of Inl e \<Rightarrow> Inl e | Inr gl \<Rightarrow>
     (case nullable_numeric78 (bigIntToString (at_MaxFeePerGas a)) of Inl e \<Rightarrow> Inl e | Inr mf \<Rightarrow>
      (case nullable_numeric78 (bigIntToString (at_MaxPriorityFeePerGas a)) of
         Inl e \<Rightarrow> Inl e | Inr mp \<Rightarrow>
       (case nullable_numeric78 (bigIntToString (at_GasPrice a)) of Inl e \<Rightarrow> Inl e | Inr gp \<Rightarrow>
         Inr \<lparr>a_id = at_ID a, a_transaction_id = at_TransactionID a,
           a_attempt_number = at_AttemptNumber a, a_tx_hash = at_TxHash a, a_gas_limit = gl,
           a_max_fee_per_gas = mf, a_max_priority_fee_per_gas = mp, a_gas_price = gp,
           a_tx_type = at_TxType a, a_raw_tx = at_RawTx a, a_status = at_Status a,
           a_error_reason = None, a_created_at = at_CreatedAt a, a_confirmed_at = None\<rparr>))))"

definition insert_attempt :: "tx_attempt \<Rightarrow> db \<Rightarrow> go_error + db" where
  "insert_attempt a d =
    (case attempt_row_of a of Inl e \<Rightarrow> Inl e | Inr row \<Rightarrow>
      if a_transaction_id row \<notin> r_id ` set (d_transactions d)
      then Inl (Err ''insert or update violates foreign key constraint'')
      else if a_id row \<in> a_id ` set (d_attempts d)
      then Inl (Err ''duplicate key value violates unique constraint tx_attempts_pkey'')
      else if (a_transaction_id row, a_attempt_number row)
          \<in> (\<lambda>b. (a_transaction_id b, a_attempt_number b)) ` set (d_attempts d)
      then Inl (Err ''duplicate key value violates unique constraint attempt_number'')
      else Inr (d\<lparr>d_attempts := d_attempts d @ [row]\<rparr>))"

definition CreateAttempt :: "tx_attempt \<Rightarrow> world \<Rightarrow> go_error option \<times> world" where
  "CreateAttempt a w = exec (insert_attempt a) w"

definition attempts_of :: "string \<Rightarrow> db \<Rightarrow> attempt_row list" where
  "attempts_of txID d =
     sort_key a_attempt_number (filter (\<lambda>a. a_transaction_id a = txID) (d_attempts d))"

definition GetAttemptsByTransactionID ::
    "string \<Rightarrow> world \<Rightarrow> (go_error + tx_attempt list) \<times> world" where
  "GetAttemptsByTransactionID txID w = query (\<lambda>d. Inr (map scanAttempt (attempts_of txID d))) w"

definition MarkAttemptStatus :: "string \<Rightarrow> attempt_status \<Rightarrow> world \<Rightarrow> go_error option \<times> world" where
  "MarkAttemptStatus attemptID status w =
     exec (\<lambda>d. Inr (d\<lparr>d_attempts :=
       upd_by a_id attemptID (\<lambda>a. a\<lparr>a_status := status\<rparr>) (d_attempts d)\<rparr>)) w"

text \<open>The JOIN pairs every attempt with the transaction it belongs to.\<close>

definition GetBroadcastAttemptsByChain :: "u64 \<Rightarrow> world \<Rightarrow> (go_error + tx_attempt list) \<times> world" where
  "GetBroadcastAttemptsByChain chainID w =
    query (\<lambda>d. case bigint chainID of Inl e \<Rightarrow> Inl e | Inr chain \<Rightarrow>
      Inr (map scanAttempt (sort_key a_created_at (filter (\<lambda>a. a_status a = AttemptBroadcast
        \<and> (case row_by r_id (a_transaction_id a) (d_transactions d) of
             None \<Rightarrow> False | Some r \<Rightarrow> r_chain_id r = chain)) (d_attempts d))))) w"

section \<open>Nonce cursors\<close>

definition upd_cursor :: "string \<times> int \<Rightarrow> (cursor_row \<Rightarrow> cursor_row) \<Rightarrow> db \<Rightarrow> db" where
  "upd_cursor k f d = d\<lparr>d_cursors := upd_by c_key k f (d_cursors d)\<rparr>"

definition GetNonceCursor ::
    "string \<Rightarrow> u64 \<Rightarrow> world \<Rightarrow> (go_error + nonce_cursor option) \<times> world" where
  "GetNonceCursor sender chainID w =
    no_rows_is_nil (query (\<lambda>d. case bigint chainID of Inl e \<Rightarrow> Inl e | Inr chain \<Rightarrow>
      (case row_by c_key (sender, chain) (d_cursors d) of
         None \<Rightarrow> Inl ErrNoRows
       | Some c \<Rightarrow> Inr \<lparr>nc_Sender = c_sender c, nc_ChainID = word_of_int (c_chain_id c),
           nc_NextNonce = word_of_int (c_next_nonce c), nc_UpdatedAt = c_updated_at c\<rparr>)) w)"

text \<open>\<open>INSERT .. ON CONFLICT .. DO UPDATE SET next_nonce = GREATEST(..)\<close>\<close>

definition upsert_cursor :: "string \<times> int \<Rightarrow> int \<Rightarrow> instant \<Rightarrow> db \<Rightarrow> db" where
  "upsert_cursor k n now d =
    (if row_by c_key k (d_cursors d) = None
     then d\<lparr>d_cursors := d_cursors d @
       [\<lparr>c_sender = fst k, c_chain_id = snd k, c_next_nonce = n, c_updated_at = now\<rparr>]\<rparr>
     else upd_cursor k (\<lambda>c. c\<lparr>c_next_nonce := max (c_next_nonce c) n, c_updated_at := now\<rparr>) d)"

definition InitNonceCursor :: "string \<Rightarrow> u64 \<Rightarrow> u64 \<Rightarrow> world \<Rightarrow> go_error option \<times> world" where
  "InitNonceCursor sender chainID nonce w =
    (let now = time_now w in exec (\<lambda>d.
      case bigint chainID of Inl e \<Rightarrow> Inl e | Inr chain \<Rightarrow>
      (case bigint nonce of Inl e \<Rightarrow> Inl e | Inr n \<Rightarrow>
        Inr (upsert_cursor (sender, chain) n now d))) w)"

text \<open>The statement \<open>IncrementNonceCursor\<close> and \<open>AssignNonceAndMarkPending\<close> share.\<close>

definition increment_stmt :: "string \<Rightarrow> u64 \<Rightarrow> instant \<Rightarrow> u64 stmt" where
  "increment_stmt sender chainID now d =
    (case bigint chainID of Inl e \<Rightarrow> Inl e | Inr chain \<Rightarrow>
     (case row_by c_key (sender, chain) (d_cursors d) of
        None \<Rightarrow> Inl ErrNoRows
      | Some c \<Rightarrow>
          if c_next_nonce c + 1 < 2 ^ 63
          then Inr (word_of_int (c_next_nonce c), upd_cursor (sender, chain)
            (\<lambda>c. c\<lparr>c_next_nonce := c_next_nonce c + 1, c_updated_at := now\<rparr>) d)
          else Inl (Err ''bigint out of range'')))"

definition IncrementNonceCursor :: "string \<Rightarrow> u64 \<Rightarrow> world \<Rightarrow> (go_error + u64) \<times> world" where
  "IncrementNonceCursor sender chainID w =
     (let now = time_now w in run_stmt (increment_stmt sender chainID now) w)"

definition set_nonce_stmt :: "string \<Rightarrow> u64 \<Rightarrow> instant \<Rightarrow> unit stmt" where
  "set_nonce_stmt txID nonce now d =
    (case bigint nonce of Inl e \<Rightarrow> Inl e
     | Inr n \<Rightarrow> Inr ((), upd_tx txID (nonce_row n now) d))"

text \<open>Both updates in one SQL transaction; every early return rolls back.\<close>

definition AssignNonceAndMarkPending ::
    "string \<Rightarrow> string \<Rightarrow> u64 \<Rightarrow> world \<Rightarrow> (go_error + u64) \<times> world" where
  "AssignNonceAndMarkPending txID sender chainID w0 =
    (case begin_tx w0 of
       (Inl e, w1) \<Rightarrow> (Inl (Err (''begin tx: '' @ err_text e)), w1)
     | (Inr d0, w1) \<Rightarrow>
    (case run_in_tx (increment_stmt sender chainID (time_now w1)) d0 w1 of
       (Inl e, w2) \<Rightarrow> (Inl (Err (''increment nonce cursor: '' @ err_text e)), w2)
     | (Inr (assigned, d1), w2) \<Rightarrow>
    (case run_in_tx (set_nonce_stmt txID assigned (time_now w2)) d1 w2 of
       (Inl e, w3) \<Rightarrow> (Inl (Err (''mark pending: '' @ err_text e)), w3)
     | (Inr (_, d2), w3) \<Rightarrow>
    (case commit_tx d2 w3 of
       (Some e, w4) \<Rightarrow> (Inl (Err (''commit: '' @ err_text e)), w4)
     | (None, w4) \<Rightarrow> (Inr assigned, w4)))))"

definition SetNonceCursor :: "string \<Rightarrow> u64 \<Rightarrow> u64 \<Rightarrow> world \<Rightarrow> go_error option \<times> world" where
  "SetNonceCursor sender chainID nonce w =
    (let now = time_now w in exec (\<lambda>d.
      case bigint nonce of Inl e \<Rightarrow> Inl e | Inr n \<Rightarrow>
      (case bigint chainID of Inl e \<Rightarrow> Inl e | Inr chain \<Rightarrow>
        Inr (upd_cursor (sender, chain)
          (\<lambda>c. c\<lparr>c_next_nonce := n, c_updated_at := now\<rparr>) d))) w)"

section \<open>State log\<close>

definition LogStateTransition :: "tx_state_log \<Rightarrow> world \<Rightarrow> go_error option \<times> world" where
  "LogStateTransition l w =
    (let now = time_now w in exec (\<lambda>d. Inr (d\<lparr>d_log := d_log d @ [(l, now)]\<rparr>)) w)"

section \<open>Queries of the background workers\<close>

definition page_after :: "tx_status \<Rightarrow> int \<Rightarrow> nat \<Rightarrow> string \<Rightarrow> tx_row list \<Rightarrow> tx_row list" where
  "page_after st chain limit afterID rows =
     take limit (sort_key r_id (filter (\<lambda>r. r_status r = st \<and> r_chain_id r = chain
       \<and> (afterID \<noteq> [] \<longrightarrow> afterID < r_id r)) rows))"

definition get_page ::
    "tx_status \<Rightarrow> u64 \<Rightarrow> int \<Rightarrow> string \<Rightarrow> world \<Rightarrow> (go_error + transaction list) \<times> world" where
  "get_page st chainID limit afterID w =
    query (\<lambda>d. case bigint chainID of Inl e \<Rightarrow> Inl e | Inr chain \<Rightarrow>
      if limit < 0 then Inl (Err ''LIMIT must not be negative'')
      else Inr (scanTransactionRows (page_after st chain (nat limit) afterID (d_transactions d)))) w"

definition GetSubmittedTransactions ::
    "u64 \<Rightarrow> int \<Rightarrow> string \<Rightarrow> world \<Rightarrow> (go_error + transaction list) \<times> world" where
  "GetSubmittedTransactions = get_page TxStatusSubmitted"

definition GetIncludedTransactions ::
    "u64 \<Rightarrow> int \<Rightarrow> string \<Rightarrow> world \<Rightarrow> (go_error + transaction list) \<times> world" where
  "GetIncludedTransactions = get_page TxStatusIncluded"

definition GetStuckTransactions :: "u64 \<Rightarrow> instant \<Rightarrow> world \<Rightarrow> (go_error + transaction list) \<times> world" where
  "GetStuckTransactions chainID submittedBefore w =
    query (\<lambda>d. case bigint chainID of Inl e \<Rightarrow> Inl e | Inr chain \<Rightarrow>
      Inr (scanTransactionRows (sort_key r_id (filter (\<lambda>r. r_status r = TxStatusSubmitted
        \<and> r_chain_id r = chain
        \<and> (case r_submitted_at r of None \<Rightarrow> False | Some t \<Rightarrow> t < submittedBefore))
        (d_transactions d))))) w"

definition CountQueuedTransactions :: "string \<Rightarrow> u64 \<Rightarrow> world \<Rightarrow> (go_error + int) \<times> world" where
  "CountQueuedTransactions sender chainID w =
    query (\<lambda>d. case bigint chainID of Inl e \<Rightarrow> Inl e | Inr chain \<Rightarrow>
      Inr (int (length (filter (\<lambda>r. r_status r = TxStatusQueued \<and> r_sender r = sender
        \<and> r_chain_id r = chain) (d_transactions d))))) w"

end
