(* ===== verification/Fixtures.thy ===== *)
theory Fixtures
  imports Store
begin

text \<open>
  Concrete worlds on which the witnesses apply the properties: a database that executes every
  statement, a clock that counts steps, RPC nodes that answer every call, and an empty database.
\<close>

definition sample_receipt :: eth_receipt where
  "sample_receipt = \<lparr>er_Status = 1, er_BlockNumber = Some 100, er_BlockHash = 7, er_GasUsed = 21000,
     er_EffectiveGasPrice = Some 5, er_Logs = []\<rparr>"

definition sample_nodes :: rpc_nodes where
  "sample_nodes = \<lparr>rpc_BlockNumber = (\<lambda>_ _. Inr 100),
     rpc_PendingNonceAt = (\<lambda>_ _ _. Inr 5),
     rpc_NonceAt = (\<lambda>_ _ _. Inr 5),
     rpc_SuggestGasPrice = (\<lambda>_ _. Inr 1000),
     rpc_SuggestGasTipCap = (\<lambda>_ _. Inr 100),
     rpc_EstimateGas = (\<lambda>_ _ _ _ _ _. Inr 21000),
     rpc_LatestBaseFee = (\<lambda>_ _. Inr (Some 2000)),
     rpc_SendTransaction = (\<lambda>_ _ _. None),
     rpc_TransactionReceipt = (\<lambda>_ _ _. Inr sample_receipt),
     rpc_BatchReceipts = (\<lambda>_ _ _. Inr (\<lambda>_. (None, sample_receipt))),
     rpc_CodeAt = (\<lambda>_ _ _. Inr [])\<rparr>"

definition empty_db :: db where
  "empty_db = \<lparr>d_transactions = [], d_attempts = [], d_log = [], d_cursors = []\<rparr>"

definition sample_tx :: transaction where
  "sample_tx = \<lparr>tx_ID = ''t1'', tx_IdempotencyKey = ''k1'', tx_ChainID = 1, tx_Sender = ''0x7'',
     tx_ToAddress = ''0x2'', tx_Value = Some 5, tx_Data = None, tx_GasLimit = None,
     tx_Nonce = None, tx_Priority = PriorityNormal, tx_Status = TxStatusQueued,
     tx_ErrorReason = [], tx_ErrorCode = [], tx_FinalTxHash = [], tx_BlockNumber = None,
     tx_BlockHash = [], tx_GasUsed = None, tx_EffectiveGasPrice = None, tx_ReceiptStatus = None,
     tx_ReceiptData = None, tx_Confirmations = 0, tx_TransferToken = ''ETH'',
     tx_TransferAmount = ''5'', tx_TransferRecipient = ''0x2'', tx_TokenContract = [],
     tx_TokenDecimals = 18, tx_Metadata = None, tx_CreatedAt = 0, tx_UpdatedAt = 0,
     tx_SubmittedAt = None, tx_ConfirmedAt = None, tx_ClaimedBy = [], tx_ClaimedAt = None\<rparr>"

text \<open>Its row, as it is stored.\<close>

definition sample_row :: tx_row where
  "sample_row = \<lparr>r_id = ''t1'', r_idempotency_key = ''k1'', r_chain_id = 1, r_sender = ''0x7'',
     r_to_address = ''0x2'', r_value = 5, r_data = None, r_gas_limit = None, r_nonce = None,
     r_priority = PriorityNormal, r_status = TxStatusQueued, r_error_reason = None,
     r_error_code = None, r_final_tx_hash = None, r_block_number = None, r_block_hash = None,
     r_gas_used = None, r_effective_gas_price = None, r_receipt_status = None,
     r_receipt_data = None, r_confirmations = Some 0, r_transfer_token = ''ETH'',
     r_transfer_amount = ''5'', r_transfer_recipient = ''0x2'', r_token_contract = None,
     r_token_decimals = 18, r_metadata = None, r_created_at = 0, r_updated_at = 0,
     r_submitted_at = None, r_confirmed_at = None, r_claimed_by = None, r_claimed_at = None\<rparr>"

definition sample_world :: "endpoint list \<Rightarrow> db \<Rightarrow> world" where
  "sample_world eps d = \<lparr>w_db = d, w_endpoints = (\<lambda>_. eps), w_sent = [], w_notify = (\<lambda>_. False),
     w_tick = 0, w_clock = int, w_ulid = (\<lambda>n. CHR ''U'' # nat_dec n), w_done = (\<lambda>_. False),
     w_dbres = (\<lambda>_. DbOk), w_maporder = (\<lambda>_ n. [0..<n]),
     w_others = (\<lambda>_ d. d), w_rpc = sample_nodes, w_steps = []\<rparr>"

lemma sample_world_fields [simp]:
  "w_db (sample_world eps d) = d" "w_endpoints (sample_world eps d) cid = eps"
  "w_sent (sample_world eps d) = []" "w_tick (sample_world eps d) = 0"
  "w_clock (sample_world eps d) = int" "w_dbres (sample_world eps d) t = DbOk"
  "w_others (sample_world eps d) t d' = d'" "w_rpc (sample_world eps d) = sample_nodes"
  "db_now (sample_world eps d) = d"
  by (simp_all add: sample_world_def db_now_def)

lemma calm_sample_world [simp]: "calm (sample_world eps d)"
  by (simp add: calm_def)

definition one_up :: "endpoint list" where
  "one_up = [\<lparr>ep_url = ''a'', ep_healthy = True\<rparr>]"

definition all_down :: "endpoint list" where
  "all_down = [\<lparr>ep_url = ''a'', ep_healthy = False\<rparr>]"

definition sample_chain :: chain_config where
  "sample_chain = \<lparr>ch_ChainID = 1, ch_Name = ''test'', ch_RPCEndpoints = [''a''], ch_BlockTime = 12,
     ch_ConfirmationBlocks = 3, ch_SupportsEIP1559 = True, ch_GasLimitMultiplier = 6 / 5,
     ch_MinMaxFee = Some 10, ch_MaxMaxFee = Some 100000, ch_MinPriorityFee = Some 1,
     ch_MaxPriorityFee = Some 5000, ch_ReceiptChunkSize = 50, ch_StuckThreshold = 180,
     ch_GasBumpInterval = 30, ch_NativeTokenSymbol = ''ETH'', ch_NativeTokenDecimals = 18,
     ch_NativeMaxTransfer = None, ch_TokenWhitelist = Map.empty\<rparr>"

text \<open>A library that writes addresses and hashes in decimal and signs with the key's number.\<close>

definition sample_word :: "string \<Rightarrow> 'n::len word" where
  "sample_word s = (case SetString10 (drop 2 s) of None \<Rightarrow> 0 | Some i \<Rightarrow> word_of_int i)"

definition sample_text :: "'n::len word \<Rightarrow> string" where
  "sample_text a = ''0x'' @ nat_dec (unat a)"

definition sample_lib :: "nat eth_lib" where
  "sample_lib = \<lparr>IsHexAddress = (\<lambda>s. HasPrefix s ''0x''), HexToAddress = sample_word,
     Address_Hex = sample_text, AddressToHash = ucast, HexToHash = sample_word,
     Hash_Hex = sample_text, SignTx = (\<lambda>tx chain key. Inr [of_nat key]),
     Tx_Hash = (\<lambda>s. ucast (eth_tx_nonce (st_inner s))),
     MarshalBinary = (\<lambda>s. Inr [ucast (eth_tx_nonce (st_inner s))]),
     UnmarshalBinary = (\<lambda>bs. Inl (Err ''short'')), Receipt_JSON = (\<lambda>r. []),
     TransferEventSig = 99, PackTransfer = (\<lambda>a n. Inr [1]), Float_out_of_range = (\<lambda>x. 0)\<rparr>"

text \<open>A database that holds the transaction and a cursor for its sender.\<close>

definition queued_db :: db where
  "queued_db = empty_db\<lparr>d_transactions := [sample_row], d_cursors :=
     [\<lparr>c_sender = ''0x7'', c_chain_id = 1, c_next_nonce = 5, c_updated_at = 0\<rparr>]\<rparr>"

lemma sample_row_fields [simp]:
  "r_id sample_row = ''t1''" "r_idempotency_key sample_row = ''k1''"
  "r_status sample_row = TxStatusQueued" "r_sender sample_row = ''0x7''"
  "r_chain_id sample_row = 1" "r_created_at sample_row = 0" "r_nonce sample_row = None"
  by (simp_all add: sample_row_def)

lemma sample_tx_fields [simp]:
  "tx_ID sample_tx = ''t1''" "tx_IdempotencyKey sample_tx = ''k1''" "tx_Sender sample_tx = ''0x7''"
  "tx_ChainID sample_tx = 1" "tx_Status sample_tx = TxStatusQueued"
  by (simp_all add: sample_tx_def)

lemma queued_db_fields [simp]:
  "d_transactions queued_db = [sample_row]" "d_attempts queued_db = []"
  "d_cursors queued_db = [\<lparr>c_sender = ''0x7'', c_chain_id = 1, c_next_nonce = 5, c_updated_at = 0\<rparr>]"
  by (simp_all add: queued_db_def empty_db_def)

definition sample_signed :: signed_tx where
  "sample_signed = \<lparr>st_inner = LegacyTx \<lparr>lg_Nonce = 5, lg_GasPrice = Some 1000, lg_Gas = 21000,
     lg_To = 2, lg_Value = Some 1, lg_Data = None\<rparr>, st_sig = [1]\<rparr>"

end
