(* ===== verification/RepoFacts.thy ===== *)
theory RepoFacts
  imports Repo Fixtures
begin

text \<open>
  What the repository promises: the invariants of the schema under every sequence of repository
  calls, the round trip of entities through their rows, first-in-first-out claiming, and two
  contracts stated as locales and interpreted with the repository's operations: a source of nonces
  that never issues one twice, and a listing by pages.
\<close>

section \<open>Invariants of the schema\<close>

definition a_key :: "attempt_row \<Rightarrow> string \<times> int" where
  "a_key a = (a_transaction_id a, a_attempt_number a)"

definition txs_ok :: "tx_row list \<Rightarrow> bool" where
  "txs_ok rows \<longleftrightarrow> distinct (map r_id rows) \<and> distinct (map r_idempotency_key rows)"

definition attempts_ok :: "string set \<Rightarrow> attempt_row list \<Rightarrow> bool" where
  "attempts_ok ids rows \<longleftrightarrow> distinct (map a_id rows) \<and> distinct (map a_key rows)
     \<and> (\<forall>a \<in> set rows. a_transaction_id a \<in> ids)"

definition cursors_ok :: "cursor_row list \<Rightarrow> bool" where
  "cursors_ok rows \<longleftrightarrow> distinct (map c_key rows)
     \<and> (\<forall>c \<in> set rows. 0 \<le> c_next_nonce c \<and> c_next_nonce c < 2 ^ 63)"

definition db_ok :: "db \<Rightarrow> bool" where
  "db_ok d \<longleftrightarrow> txs_ok (d_transactions d)
     \<and> attempts_ok (r_id ` set (d_transactions d)) (d_attempts d) \<and> cursors_ok (d_cursors d)"

text \<open>An update that leaves the keys of a row alone.\<close>

definition keeps_keys :: "(tx_row \<Rightarrow> tx_row) \<Rightarrow> bool" where
  "keeps_keys f \<longleftrightarrow> (\<forall>r. r_id (f r) = r_id r \<and> r_idempotency_key (f r) = r_idempotency_key r)"

lemma keeps_keys_rows [simp, intro]:
  "keeps_keys (nonce_row n now)" "keeps_keys (submitted_row h now)" "keeps_keys (confirmed_row now)"
  "keeps_keys (included_row now)" "keeps_keys (reverted_row now)" "keeps_keys (resubmitted_row now)"
  "keeps_keys (failed_row code reason now)" "keeps_keys (claim_row by' now)"
  by (simp_all add: keeps_keys_def nonce_row_def submitted_row_def confirmed_row_def
      included_row_def reverted_row_def resubmitted_row_def failed_row_def claim_row_def)

lemma keeps_keys_comp: "keeps_keys f \<Longrightarrow> keeps_keys g \<Longrightarrow> keeps_keys (g \<circ> f)"
  by (simp add: keeps_keys_def)

lemma bigint_range: "bigint n = Inr i \<Longrightarrow> i = int (unat n) \<and> 0 \<le> i \<and> i < 2 ^ 63"
proof -
  assume "bigint n = Inr i"
  then have n: "unat n < 2 ^ 63" and i: "i = int (unat n)"
    by (auto simp: bigint_def split: if_splits)
  from n have "int (unat n) < int (2 ^ 63)" by (simp only: of_nat_less_iff)
  with i show ?thesis by simp
qed

lemma bigint_word [simp]: "bigint n = Inr i \<Longrightarrow> word_of_int i = n"
  by (auto dest: bigint_range)

lemma ids_upd_tx [simp]:
  "keeps_keys f \<Longrightarrow> map r_id (d_transactions (upd_tx i f d)) = map r_id (d_transactions d)"
  by (simp add: upd_tx_def keeps_keys_def keys_upd_by)

lemma id_set_upd_tx [simp]:
  "keeps_keys f \<Longrightarrow> r_id ` set (d_transactions (upd_tx i f d)) = r_id ` set (d_transactions d)"
  using ids_upd_tx [of f i d] by (metis list.set_map)

lemma upd_tx_tables [simp]:
  "d_attempts (upd_tx i f d) = d_attempts d" "d_cursors (upd_tx i f d) = d_cursors d"
  "d_log (upd_tx i f d) = d_log d"
  "d_transactions (upd_tx i f d) = upd_by r_id i f (d_transactions d)"
  by (simp_all add: upd_tx_def)

lemma upd_cursor_tables [simp]:
  "d_attempts (upd_cursor k f d) = d_attempts d"
  "d_transactions (upd_cursor k f d) = d_transactions d"
  "d_log (upd_cursor k f d) = d_log d"
  "d_cursors (upd_cursor k f d) = upd_by c_key k f (d_cursors d)"
  by (simp_all add: upd_cursor_def)

lemma db_ok_upd_tx:
  assumes "db_ok d" and "keeps_keys f"
  shows "db_ok (upd_tx i f d)"
proof -
  have "map r_idempotency_key (upd_by r_id i f rows) = map r_idempotency_key rows" for rows
    using assms(2) by (induction rows) (auto simp: keeps_keys_def)
  moreover have ids: "map r_id (upd_by r_id i f rows) = map r_id rows" for rows
    using assms(2) by (simp add: keeps_keys_def keys_upd_by)
  moreover have "r_id ` set (upd_by r_id i f rows) = r_id ` set rows" for rows
    using ids [of rows] by (metis list.set_map)
  ultimately show ?thesis using assms(1) by (simp add: db_ok_def txs_ok_def)
qed

lemma db_ok_upd_cursor:
  assumes "db_ok d" and "\<And>c. c_key (f c) = c_key c"
    and "\<And>c. c \<in> set (d_cursors d) \<Longrightarrow> c_key c = k \<Longrightarrow>
      0 \<le> c_next_nonce (f c) \<and> c_next_nonce (f c) < 2 ^ 63"
  shows "db_ok (upd_cursor k f d)"
  using assms by (auto simp: db_ok_def cursors_ok_def keys_upd_by ball_upd_by)

lemma db_ok_log [simp]: "db_ok (d\<lparr>d_log := l\<rparr>) = db_ok d"
  by (simp add: db_ok_def)

lemma derefString_simps [simp]:
  "derefString None = []" "derefString (Some t) = t" "derefString (nullIfEmpty t) = t"
  by (simp_all add: derefString_def nullIfEmpty_def)

text \<open>What an INSERT does when it succeeds.\<close>

definition stored_form :: "transaction \<Rightarrow> transaction" where
  "stored_form tx = tx\<lparr>tx_GasLimit := None, tx_Nonce := None, tx_ErrorReason := [],
     tx_ErrorCode := [], tx_FinalTxHash := [], tx_BlockNumber := None, tx_BlockHash := [],
     tx_GasUsed := None, tx_EffectiveGasPrice := None, tx_ReceiptStatus := None,
     tx_ReceiptData := None, tx_Confirmations := 0, tx_SubmittedAt := None,
     tx_ConfirmedAt := None, tx_ClaimedBy := [], tx_ClaimedAt := None\<rparr>"

lemma numeric78_range: "numeric78 v = Inr i \<Longrightarrow> v = Some i"
  by (auto simp: numeric78_def split: option.splits if_splits)

lemma insert_txE:
  assumes "insert_tx tx d = Inr d'"
  obtains row where "d' = d\<lparr>d_transactions := d_transactions d @ [row]\<rparr>"
    "r_id row = tx_ID tx" "r_idempotency_key row = tx_IdempotencyKey tx"
    "r_status row = tx_Status tx" "r_nonce row = None" "r_final_tx_hash row = None"
    "tx_ID tx \<notin> r_id ` set (d_transactions d)"
    "tx_IdempotencyKey tx \<notin> r_idempotency_key ` set (d_transactions d)"
    "scanTransaction row = stored_form tx"
proof -
  obtain chain v where chain: "bigint (tx_ChainID tx) = Inr chain"
    and v: "numeric78 (tx_Value tx) = Inr v"
    using assms by (auto simp: insert_tx_def split: sum.splits)
  have c: "word_of_int chain = tx_ChainID tx" using chain by simp
  from assms chain v numeric78_range [OF v] show ?thesis
    by (cases tx, intro that [of "last (d_transactions d')"])
      (auto simp: insert_tx_def scanTransaction_def stored_form_def c
        SetString10_int_dec split: if_splits)
qed

lemma insert_attemptE:
  assumes "insert_attempt a d = Inr d'"
  obtains row where "d' = d\<lparr>d_attempts := d_attempts d @ [row]\<rparr>" "attempt_row_of a = Inr row"
    "a_transaction_id row \<in> r_id ` set (d_transactions d)"
    "a_id row \<notin> a_id ` set (d_attempts d)" "a_key row \<notin> a_key ` set (d_attempts d)"
  using assms by (auto simp: insert_attempt_def a_key_def [abs_def] split: sum.splits if_splits)

lemma db_ok_insert_tx: "db_ok d \<Longrightarrow> insert_tx tx d = Inr d' \<Longrightarrow> db_ok d'"
  by (elim insert_txE) (auto simp: db_ok_def txs_ok_def attempts_ok_def)

lemma db_ok_insert_attempt: "db_ok d \<Longrightarrow> insert_attempt a d = Inr d' \<Longrightarrow> db_ok d'"
  by (elim insert_attemptE) (auto simp: db_ok_def attempts_ok_def)

lemma db_ok_increment: "db_ok d \<Longrightarrow> increment_stmt s c now d = Inr (n, d') \<Longrightarrow> db_ok d'"
proof -
  assume ok: "db_ok d" and inc: "increment_stmt s c now d = Inr (n, d')"
  from inc obtain chain cur where row: "row_by c_key (s, chain) (d_cursors d) = Some cur"
    and lt: "c_next_nonce cur + 1 < 2 ^ 63"
    and d': "d' = upd_cursor (s, chain)
      (\<lambda>c. c\<lparr>c_next_nonce := c_next_nonce c + 1, c_updated_at := now\<rparr>) d"
    by (auto simp: increment_stmt_def split: sum.splits option.splits if_splits)
  have "cur' = cur" if "cur' \<in> set (d_cursors d)" "c_key cur' = (s, chain)" for cur'
    using row that ok row_by_in_distinct [of c_key "d_cursors d" cur']
    by (simp add: db_ok_def cursors_ok_def)
  with lt ok show ?thesis
    unfolding d' by (intro db_ok_upd_cursor) (auto simp: c_key_def db_ok_def cursors_ok_def)
qed

lemma db_ok_set_nonce: "db_ok d \<Longrightarrow> set_nonce_stmt i n now d = Inr (u, d') \<Longrightarrow> db_ok d'"
  by (auto simp: set_nonce_stmt_def split: sum.splits intro!: db_ok_upd_tx)

section \<open>Repository calls as a step relation\<close>

text \<open>One call of any repository method by any goroutine, whatever the database answers.\<close>

inductive repo_call :: "world \<Rightarrow> world \<Rightarrow> bool" where
  call_CreateTransaction: "CreateTransaction tx w = (e, v) \<Longrightarrow> repo_call w v"
| call_GetTransaction: "GetTransaction i w = (t, v) \<Longrightarrow> repo_call w v"
| call_GetByKey: "GetTransactionByIdempotencyKey k w = (ot, v) \<Longrightarrow> repo_call w v"
| call_List: "ListTransactions filt w = (ts, v) \<Longrightarrow> repo_call w v"
| call_Claim: "ClaimNextQueued s c by' w = (ot, v) \<Longrightarrow> repo_call w v"
| call_MarkPending: "MarkPending i n w = (e, v) \<Longrightarrow> repo_call w v"
| call_MarkSubmitted: "MarkSubmitted i h w = (e, v) \<Longrightarrow> repo_call w v"
| call_MarkConfirmed: "MarkConfirmed i rc w = (e, v) \<Longrightarrow> repo_call w v"
| call_MarkIncluded: "MarkIncluded i rc w = (e, v) \<Longrightarrow> repo_call w v"
| call_MarkReverted: "MarkReverted i rc w = (e, v) \<Longrightarrow> repo_call w v"
| call_RevertToSubmitted: "RevertToSubmitted i w = (e, v) \<Longrightarrow> repo_call w v"
| call_MarkFailed: "MarkFailed i code reason w = (e, v) \<Longrightarrow> repo_call w v"
| call_Reset: "ResetPendingToQueued w = (cnt, v) \<Longrightarrow> repo_call w v"
| call_CreateAttempt: "CreateAttempt a w = (e, v) \<Longrightarrow> repo_call w v"
| call_GetAttempts: "GetAttemptsByTransactionID i w = (ats, v) \<Longrightarrow> repo_call w v"
| call_MarkAttempt: "MarkAttemptStatus i st w = (e, v) \<Longrightarrow> repo_call w v"
| call_GetBroadcast: "GetBroadcastAttemptsByChain c w = (ats, v) \<Longrightarrow> repo_call w v"
| call_GetCursor: "GetNonceCursor s c w = (oc, v) \<Longrightarrow> repo_call w v"
| call_InitCursor: "InitNonceCursor s c n w = (e, v) \<Longrightarrow> repo_call w v"
| call_Increment: "IncrementNonceCursor s c w = (m, v) \<Longrightarrow> repo_call w v"
| call_Assign: "AssignNonceAndMarkPending i s c w = (m, v) \<Longrightarrow> repo_call w v"
| call_SetCursor: "SetNonceCursor s c n w = (e, v) \<Longrightarrow> repo_call w v"
| call_Log: "LogStateTransition l w = (e, v) \<Longrightarrow> repo_call w v"
| call_Submitted: "GetSubmittedTransactions c n aft w = (ts, v) \<Longrightarrow> repo_call w v"
| call_Included: "GetIncludedTransactions c n aft w = (ts, v) \<Longrightarrow> repo_call w v"
| call_Stuck: "GetStuckTransactions c t w = (ts, v) \<Longrightarrow> repo_call w v"
| call_Count: "CountQueuedTransactions s c w = (cnt, v) \<Longrightarrow> repo_call w v"

text \<open>The database between a call and what it was called on.\<close>

named_theorems db_effects \<open>what a repository call does to the database\<close>

lemma no_rows_is_nil_eq:
  "no_rows_is_nil p = (r, v) \<Longrightarrow> \<exists>s. p = (s, v)"
  by (auto simp: no_rows_is_nil_def split: sum.splits prod.splits go_error.splits)

lemma reads_only [db_effects]:
  "GetTransaction i w = (t, v) \<Longrightarrow> w_db v = db_now w"
  "GetTransactionByIdempotencyKey k w = (ot, v) \<Longrightarrow> w_db v = db_now w"
  "ListTransactions filt w = (ts, v) \<Longrightarrow> w_db v = db_now w"
  "GetAttemptsByTransactionID i w = (ats, v) \<Longrightarrow> w_db v = db_now w"
  "GetBroadcastAttemptsByChain c w = (ats, v) \<Longrightarrow> w_db v = db_now w"
  "GetNonceCursor s c w = (oc, v) \<Longrightarrow> w_db v = db_now w"
  "GetSubmittedTransactions c n aft w = (ts, v) \<Longrightarrow> w_db v = db_now w"
  "GetIncludedTransactions c n aft w = (ts, v) \<Longrightarrow> w_db v = db_now w"
  "GetStuckTransactions c tm w = (ts, v) \<Longrightarrow> w_db v = db_now w"
  "CountQueuedTransactions s c w = (cnt, v) \<Longrightarrow> w_db v = db_now w"
  by (auto simp: GetTransaction_def GetTransactionByIdempotencyKey_def ListTransactions_def
      GetAttemptsByTransactionID_def GetBroadcastAttemptsByChain_def GetNonceCursor_def
      GetSubmittedTransactions_def GetIncludedTransactions_def get_page_def
      GetStuckTransactions_def CountQueuedTransactions_def
      dest!: no_rows_is_nil_eq dest: query_db)

text \<open>The calls that rewrite one transaction row.\<close>

lemma receipt_columns_keeps: "receipt_columns rc = Inr f \<Longrightarrow> keeps_keys f"
  by (auto simp: receipt_columns_def keeps_keys_def split: sum.splits)

lemma MarkPending_effect [db_effects]:
  "MarkPending i n w = (e, v) \<Longrightarrow> w_db v = db_now w
    \<or> (\<exists>m. bigint n = Inr m \<and> w_db v = upd_tx i (nonce_row m (time_now w)) (db_now w))"
  by (auto simp: MarkPending_def Let_def elim!: exec_db_cases split: sum.splits)

lemma MarkSubmitted_effect [db_effects]:
  "MarkSubmitted i h w = (e, v) \<Longrightarrow> w_db v = db_now w
    \<or> w_db v = upd_tx i (submitted_row h (time_now w)) (db_now w)"
  by (auto simp: MarkSubmitted_def Let_def elim!: exec_db_cases)

lemma RevertToSubmitted_effect [db_effects]:
  "RevertToSubmitted i w = (e, v) \<Longrightarrow> w_db v = db_now w
    \<or> w_db v = upd_tx i (resubmitted_row (time_now w)) (db_now w)"
  by (auto simp: RevertToSubmitted_def Let_def elim!: exec_db_cases)

lemma MarkFailed_effect [db_effects]:
  "MarkFailed i code reason w = (e, v) \<Longrightarrow> w_db v = db_now w
    \<or> w_db v = upd_tx i (failed_row code reason (time_now w)) (db_now w)"
  by (auto simp: MarkFailed_def Let_def elim!: exec_db_cases)

lemma mark_receipt_effect:
  "mark_receipt fin i rc w = (e, v) \<Longrightarrow> w_db v = db_now w
    \<or> (\<exists>f. receipt_columns rc = Inr f
        \<and> w_db v = upd_tx i (fin (time_now w) \<circ> f) (db_now w))"
  by (auto simp: mark_receipt_def Let_def elim!: exec_db_cases split: sum.splits)

lemmas mark_effects [db_effects] =
  mark_receipt_effect [where fin = confirmed_row, folded MarkConfirmed_def]
  mark_receipt_effect [where fin = included_row, folded MarkIncluded_def]
  mark_receipt_effect [where fin = reverted_row, folded MarkReverted_def]

text \<open>The other writing calls.\<close>

lemma CreateTransaction_effect [db_effects]:
  "CreateTransaction tx w = (e, v) \<Longrightarrow> w_db v = db_now w
    \<or> insert_tx tx (db_now w) = Inr (w_db v)"
  by (auto simp: CreateTransaction_def elim!: exec_db_cases)

lemma CreateAttempt_effect [db_effects]:
  "CreateAttempt a w = (e, v) \<Longrightarrow> w_db v = db_now w
    \<or> insert_attempt a (db_now w) = Inr (w_db v)"
  by (auto simp: CreateAttempt_def elim!: exec_db_cases)

lemma ClaimNextQueued_effect [db_effects]:
  "ClaimNextQueued s c by' w = (ot, v) \<Longrightarrow> w_db v = db_now w
    \<or> (\<exists>chain r. bigint c = Inr chain \<and> next_queued s chain (db_now w) = Some r
        \<and> w_db v = upd_tx (r_id r) (claim_row by' (time_now w)) (db_now w))"
  by (auto simp: ClaimNextQueued_def Let_def dest!: no_rows_is_nil_eq elim!: run_stmt_db_cases
      split: sum.splits option.splits)

lemma Reset_effect [db_effects]:
  "ResetPendingToQueued w = (cnt, v) \<Longrightarrow> w_db v = db_now w
    \<or> w_db v = (db_now w)\<lparr>d_transactions :=
        map (reset_row (time_now w)) (d_transactions (db_now w))\<rparr>"
  by (auto simp: ResetPendingToQueued_def Let_def elim!: run_stmt_db_cases)

lemma MarkAttempt_effect [db_effects]:
  "MarkAttemptStatus i st w = (e, v) \<Longrightarrow> w_db v = db_now w
    \<or> w_db v = (db_now w)\<lparr>d_attempts :=
        upd_by a_id i (\<lambda>a. a\<lparr>a_status := st\<rparr>) (d_attempts (db_now w))\<rparr>"
  by (auto simp: MarkAttemptStatus_def elim!: exec_db_cases)

lemma Log_effect [db_effects]:
  "LogStateTransition l w = (e, v) \<Longrightarrow> w_db v = db_now w
    \<or> w_db v = (db_now w)\<lparr>d_log := d_log (db_now w) @ [(l, time_now w)]\<rparr>"
  by (auto simp: LogStateTransition_def Let_def elim!: exec_db_cases)

lemma Increment_effect [db_effects]:
  "IncrementNonceCursor s c w = (m, v) \<Longrightarrow> w_db v = db_now w
    \<or> (\<exists>n. increment_stmt s c (time_now w) (db_now w) = Inr (n, w_db v))"
  by (auto simp: IncrementNonceCursor_def Let_def elim!: run_stmt_db_cases)

lemma Assign_cases:
  assumes "AssignNonceAndMarkPending i s c w = (m, v)"
  obtains e where "m = Inl e" "w_db v = db_now w"
    | n d1 t1 t2 where "increment_stmt s c t1 (db_now w) = Inr (n, d1)"
      "set_nonce_stmt i n t2 d1 = Inr ((), w_db v)" "m = Inr n \<or> (\<exists>e. m = Inl e)"
proof -
  obtain r1 w1 where 1: "begin_tx w = (r1, w1)" by (cases "begin_tx w")
  have db1: "w_db w1 = db_now w" "r1 = Inr d \<Longrightarrow> d = db_now w" for d
    using begin_tx_effect [OF 1] by auto
  show ?thesis
  proof (cases r1)
    case (Inl e)
    with assms 1 db1 that(1) show ?thesis by (auto simp: AssignNonceAndMarkPending_def)
  next
    case (Inr d)
    obtain r2 w2 where 2: "run_in_tx (increment_stmt s c (time_now w1)) (db_now w) w1 = (r2, w2)"
      by (cases "run_in_tx (increment_stmt s c (time_now w1)) (db_now w) w1")
    note e2 = run_in_tx_effect [OF 2]
    show ?thesis
    proof (cases r2)
      case (Inl e)
      with assms 1 2 e2 Inr db1 that(1) show ?thesis
        by (auto simp: AssignNonceAndMarkPending_def)
    next
      case r2: (Inr nd)
      obtain n d1 where nd: "nd = (n, d1)" by (cases nd)
      obtain r3 w3 where 3: "run_in_tx (set_nonce_stmt i n (time_now w2)) d1 w2 = (r3, w3)"
        by (cases "run_in_tx (set_nonce_stmt i n (time_now w2)) d1 w2")
      note e3 = run_in_tx_effect [OF 3]
      show ?thesis
      proof (cases r3)
        case (Inl e)
        with assms 1 2 3 e2 e3 Inr r2 nd db1 that(1) show ?thesis
          by (auto simp: AssignNonceAndMarkPending_def)
      next
        case r3: (Inr ud)
        obtain d2 where ud: "ud = ((), d2)" by (cases ud) auto
        obtain r4 where 4: "commit_tx d2 w3 = (r4, v)"
          and m: "m = (case r4 of None \<Rightarrow> Inr n | Some e \<Rightarrow> Inl (Err (''commit: '' @ err_text e)))"
          using assms 1 2 3 Inr r2 r3 nd ud db1
          by (auto simp: AssignNonceAndMarkPending_def split: prod.splits option.splits)
        note e4 = commit_tx_effect [OF 4]
        show ?thesis
        proof (cases "w_db v = d2")
          case True
          with that(2) [of "time_now w1" n d1 "time_now w2"] e2 e3 r2 r3 nd ud m show ?thesis
            by (auto split: option.splits)
        next
          case False
          with e4 e2 e3 db1 m that(1) show ?thesis by (auto split: option.splits)
        qed
      qed
    qed
  qed
qed

lemma Assign_effect [db_effects]:
  "AssignNonceAndMarkPending i s c w = (m, v) \<Longrightarrow> w_db v = db_now w
    \<or> (\<exists>n d1 t1 t2. increment_stmt s c t1 (db_now w) = Inr (n, d1)
        \<and> set_nonce_stmt i n t2 d1 = Inr ((), w_db v))"
  by (elim Assign_cases) blast+

lemma InitNonceCursor_effect [db_effects]:
  "InitNonceCursor s c n w = (e, v) \<Longrightarrow> w_db v = db_now w
    \<or> (\<exists>chain m. bigint c = Inr chain \<and> bigint n = Inr m
        \<and> w_db v = upsert_cursor (s, chain) m (time_now w) (db_now w))"
  by (auto simp: InitNonceCursor_def Let_def elim!: exec_db_cases split: sum.splits)

lemma SetNonceCursor_effect [db_effects]:
  "SetNonceCursor s c n w = (e, v) \<Longrightarrow> w_db v = db_now w
    \<or> (\<exists>chain m. bigint c = Inr chain \<and> bigint n = Inr m \<and> w_db v = upd_cursor (s, chain)
        (\<lambda>c. c\<lparr>c_next_nonce := m, c_updated_at := time_now w\<rparr>) (db_now w))"
  by (auto simp: SetNonceCursor_def Let_def elim!: exec_db_cases split: sum.splits)

section \<open>Every call keeps the schema\<close>

lemma reset_row_keys [simp]:
  "r_id (reset_row now r) = r_id r" "r_idempotency_key (reset_row now r) = r_idempotency_key r"
  by (simp_all add: reset_row_def)

lemma db_ok_reset: "db_ok d \<Longrightarrow> db_ok (d\<lparr>d_transactions := map (reset_row now) (d_transactions d)\<rparr>)"
  by (simp add: db_ok_def txs_ok_def image_image comp_def)

lemma db_ok_mark_attempt:
  "db_ok d \<Longrightarrow> db_ok (d\<lparr>d_attempts := upd_by a_id i (\<lambda>a. a\<lparr>a_status := st\<rparr>) (d_attempts d)\<rparr>)"
proof -
  have k: "map a_key (upd_by a_id i (\<lambda>a. a\<lparr>a_status := st\<rparr>) rows) = map a_key rows" for rows
    by (induction rows) (auto simp: a_key_def)
  show "db_ok d \<Longrightarrow> ?thesis"
    by (auto simp: db_ok_def attempts_ok_def keys_upd_by k ball_upd_by)
qed

lemma db_ok_receipt:
  "receipt_columns rc = Inr f \<Longrightarrow> db_ok d \<Longrightarrow> keeps_keys g \<Longrightarrow> db_ok (upd_tx i (g \<circ> f) d)"
  by (intro db_ok_upd_tx keeps_keys_comp) (auto dest: receipt_columns_keeps)

lemma db_ok_init_cursor:
  assumes "db_ok d" and "bigint n = Inr m"
  shows "db_ok (upsert_cursor k m now d)"
proof (cases "row_by c_key k (d_cursors d) = None")
  case True
  with assms bigint_range [of n m] show ?thesis
    by (auto simp: upsert_cursor_def db_ok_def cursors_ok_def row_by_None_iff c_key_def [abs_def])
next
  case False
  have "db_ok (upd_cursor k
      (\<lambda>c. c\<lparr>c_next_nonce := max (c_next_nonce c) m, c_updated_at := now\<rparr>) d)"
    using assms bigint_range [of n m]
    by (intro db_ok_upd_cursor) (auto simp: c_key_def db_ok_def cursors_ok_def)
  with False show ?thesis by (auto simp: upsert_cursor_def)
qed

lemma db_ok_set_cursor:
  "db_ok d \<Longrightarrow> bigint n = Inr m \<Longrightarrow>
    db_ok (upd_cursor k (\<lambda>c. c\<lparr>c_next_nonce := m, c_updated_at := now\<rparr>) d)"
  using bigint_range [of n m] by (intro db_ok_upd_cursor) (auto simp: c_key_def)

lemmas db_ok_statements = keeps_keys_rows [THEN db_ok_upd_tx [rotated]]
  db_ok_receipt [OF _ _ keeps_keys_rows(3)] db_ok_receipt [OF _ _ keeps_keys_rows(4)]
  db_ok_receipt [OF _ _ keeps_keys_rows(5)] db_ok_reset db_ok_mark_attempt
  db_ok_init_cursor db_ok_set_cursor

lemmas db_ok_results = db_ok_insert_tx db_ok_insert_attempt db_ok_increment db_ok_set_nonce

lemma repo_call_db_ok: "repo_call w v \<Longrightarrow> db_ok (db_now w) \<Longrightarrow> db_ok (w_db v)"
  by (induction rule: repo_call.induct; drule db_effects)
    (auto intro: db_ok_statements dest: db_ok_results [rotated])

text \<open>No call touches anything but the database and the step counter.\<close>

lemma same_env_assign: "AssignNonceAndMarkPending i s c w = (m, v) \<Longrightarrow> same_env w v"
  unfolding AssignNonceAndMarkPending_def
  by (auto split: sum.splits prod.splits option.splits
      dest!: begin_tx_effect run_in_tx_effect commit_tx_effect intro: same_env_trans)

lemma repo_call_env: "repo_call w v \<Longrightarrow> same_env w v"
proof (induction rule: repo_call.induct)
  case call_Assign
  then show ?case by (rule same_env_assign)
qed (auto simp: CreateTransaction_def GetTransaction_def GetTransactionByIdempotencyKey_def
    ListTransactions_def ClaimNextQueued_def MarkPending_def MarkSubmitted_def MarkConfirmed_def
    MarkIncluded_def MarkReverted_def mark_receipt_def RevertToSubmitted_def MarkFailed_def
    ResetPendingToQueued_def CreateAttempt_def GetAttemptsByTransactionID_def MarkAttemptStatus_def
    GetBroadcastAttemptsByChain_def GetNonceCursor_def InitNonceCursor_def IncrementNonceCursor_def
    SetNonceCursor_def LogStateTransition_def GetSubmittedTransactions_def
    GetIncludedTransactions_def get_page_def GetStuckTransactions_def CountQueuedTransactions_def
    Let_def dest!: no_rows_is_nil_eq dest: same_env_exec same_env_query same_env_run_stmt)

lemmas repo_env = repo_call.intros [THEN repo_call_env]

section \<open>A source of nonces\<close>

text \<open>
  The contract of a source of nonces: a call that succeeds returns the cursor and leaves it one
  higher; a call that fails leaves it where it was or one higher (the reply of a committed
  transaction can be lost). The cursor is the state it owns; the clients call it with any argument.
\<close>

text \<open>The nonces that a sequence of calls issues.\<close>

fun issued ::
    "('a \<Rightarrow> world \<Rightarrow> (go_error + u64) \<times> world) \<Rightarrow> 'a list \<Rightarrow> world \<Rightarrow> u64 list" where
  "issued nxt [] w = []"
| "issued nxt (a # as) w = (case nxt a w of
     (Inl e, v) \<Rightarrow> issued nxt as v
   | (Inr n, v) \<Rightarrow> n # issued nxt as v)"

text \<open>The other writers never lower the cursor.\<close>

definition cursor_rises :: "(db \<Rightarrow> int option) \<Rightarrow> world \<Rightarrow> bool" where
  "cursor_rises cursor w \<longleftrightarrow>
     (\<forall>t d k. cursor d = Some k \<longrightarrow> (\<exists>k' \<ge> k. cursor (w_others w t d) = Some k'))"

locale nonce_source =
  fixes nxt :: "'a \<Rightarrow> world \<Rightarrow> (go_error + u64) \<times> world"
    and cursor :: "db \<Rightarrow> int option"
  assumes issues: "nxt a w = (Inr n, v) \<Longrightarrow> cursor (db_now w) = Some k \<Longrightarrow>
      0 \<le> k \<Longrightarrow> uint n = k \<and> cursor (w_db v) = Some (k + 1)"
    and fails: "nxt a w = (Inl e, v) \<Longrightarrow> cursor (db_now w) = Some k \<Longrightarrow> 0 \<le> k \<Longrightarrow>
      cursor (w_db v) = Some k \<or> cursor (w_db v) = Some (k + 1)"
    and next_env: "nxt a w = (r, v) \<Longrightarrow> same_env w v"
begin

lemma cursor_rises_env: "cursor_rises cursor w \<Longrightarrow> same_env w v \<Longrightarrow> cursor_rises cursor v"
  by (simp add: cursor_rises_def same_env_def)

lemma cursor_now:
  "cursor_rises cursor w \<Longrightarrow> cursor (w_db w) = Some k \<Longrightarrow> \<exists>k' \<ge> k. cursor (db_now w) = Some k'"
  by (simp add: cursor_rises_def db_now_def)

lemma issue_above_sorted:
  assumes "cursor_rises cursor w" and "cursor (w_db w) = Some k" and "0 \<le> k"
  shows "(\<forall>n \<in> set (issued nxt as w). k \<le> uint n) \<and> sorted_wrt (<) (issued nxt as w)"
  using assms
proof (induction as arbitrary: w k)
  case Nil
  then show ?case by simp
next
  case (Cons a as)
  obtain r v where nx: "nxt a w = (r, v)" by (cases "nxt a w")
  have rises: "cursor_rises cursor v" using Cons.prems(1) next_env [OF nx] by (rule cursor_rises_env)
  obtain k' where k': "k \<le> k'" "cursor (db_now w) = Some k'"
    using cursor_now Cons.prems by blast
  show ?case
  proof (cases r)
    case (Inl e)
    with fails [of a w e v k'] nx k' Cons.prems(3) obtain k2 where k2: "k' \<le> k2" "cursor (w_db v) = Some k2"
      by force
    with Cons.IH [OF rises k2(2)] Inl nx k' Cons.prems(3) show ?thesis by fastforce
  next
    case (Inr n)
    with issues [of a w n v k'] nx k' Cons.prems(3)
    have n: "uint n = k'" and c: "cursor (w_db v) = Some (k' + 1)" by auto
    have "(\<forall>m \<in> set (issued nxt as v). k' + 1 \<le> uint m) \<and> sorted_wrt (<) (issued nxt as v)"
      using Cons.IH [OF rises c] k' Cons.prems(3) by simp
    moreover from this have "\<forall>m \<in> set (issued nxt as v). n < m"
      using n by (auto simp: word_less_def)
    ultimately show ?thesis using n k' Inr nx by auto
  qed
qed

end

text \<open>Both issuing operations of the repository are such sources, for a (sender, chain) pair.\<close>

definition cursor_value :: "string \<Rightarrow> u64 \<Rightarrow> db \<Rightarrow> int option" where
  "cursor_value sender chainID d =
     map_option c_next_nonce (row_by c_key (sender, int (unat chainID)) (d_cursors d))"

lemma increment_cursor:
  assumes "increment_stmt s c now d = Inr (n, d')" and "cursor_value s c d = Some k" and "0 \<le> k"
  shows "uint n = k \<and> cursor_value s c d' = Some (k + 1)"
proof -
  obtain chain cur where chain: "bigint c = Inr chain"
    and row: "row_by c_key (s, chain) (d_cursors d) = Some cur"
    and lt: "c_next_nonce cur + 1 < 2 ^ 63" and n: "n = word_of_int (c_next_nonce cur)"
    and d': "d' = upd_cursor (s, chain)
      (\<lambda>c. c\<lparr>c_next_nonce := c_next_nonce c + 1, c_updated_at := now\<rparr>) d"
    using assms(1) by (auto simp: increment_stmt_def split: sum.splits option.splits if_splits)
  have ch: "chain = int (unat c)" using bigint_range [OF chain] by simp
  with row assms(2) have k: "c_next_nonce cur = k" by (simp add: cursor_value_def)
  have "k mod 2 ^ 64 = k" using k lt assms(3) by (intro mod_pos_pos_trivial) auto
  then have "uint n = k" using n k by (simp add: uint_word_of_int)
  moreover have "cursor_value s c d' = Some (k + 1)"
    using row k by (simp add: d' cursor_value_def row_by_upd_by c_key_def ch)
  ultimately show ?thesis by simp
qed

lemma cursor_value_set_nonce: "set_nonce_stmt i n now d = Inr (u, d') \<Longrightarrow>
    cursor_value s c d' = cursor_value s c d"
  by (auto simp: set_nonce_stmt_def cursor_value_def split: sum.splits)

interpretation assign: nonce_source "\<lambda>txID. AssignNonceAndMarkPending txID s c" "cursor_value s c"
proof
  fix i w n v k
  assume a: "AssignNonceAndMarkPending i s c w = (Inr n, v)" "cursor_value s c (db_now w) = Some k"
    "0 \<le> k"
  then obtain d1 t1 t2 where "increment_stmt s c t1 (db_now w) = Inr (n, d1)"
    "set_nonce_stmt i n t2 d1 = Inr ((), w_db v)"
    by (auto elim: Assign_cases)
  with a show "uint n = k \<and> cursor_value s c (w_db v) = Some (k + 1)"
    using increment_cursor cursor_value_set_nonce by metis
next
  fix i w e v k
  assume a: "AssignNonceAndMarkPending i s c w = (Inl e, v)" "cursor_value s c (db_now w) = Some k"
    "0 \<le> k"
  then show "cursor_value s c (w_db v) = Some k \<or> cursor_value s c (w_db v) = Some (k + 1)"
    using increment_cursor cursor_value_set_nonce by (elim Assign_cases) metis+
qed (rule same_env_assign)

interpretation increment: nonce_source "\<lambda>_ :: unit. IncrementNonceCursor s c" "cursor_value s c"
proof
  show "same_env w v" if "IncrementNonceCursor s c w = (r, v)" for w r v
    using that by (auto simp: IncrementNonceCursor_def Let_def dest: same_env_run_stmt)
qed (use increment_cursor in \<open>auto simp: IncrementNonceCursor_def Let_def dest: run_stmt_ok
    elim!: run_stmt_db_cases\<close>)

section \<open>Properties\<close>

text \<open>C32: The schema survives every history: starting from a database with unique identifiers,
  idempotency keys, attempt numbers and cursors, with attempts that belong to transactions and
  with cursors in range, every sequence of repository calls ends in such a database, whatever the
  statements answer (refused, reply lost) and whatever other writers that respect the schema do.\<close>

theorem repository_keeps_schema:
  assumes "repo_call\<^sup>*\<^sup>* w v" and "db_ok (w_db w)"
    and "\<And>t d. db_ok d \<Longrightarrow> db_ok (w_others w t d)"
  shows "db_ok (w_db v)"
proof -
  have "db_ok (w_db v) \<and> same_env w v"
    using assms(1)
  proof (induction rule: rtranclp_induct)
    case base
    show ?case using assms(2) by simp
  next
    case (step u v)
    have "w_others u = w_others w" using step.IH by (simp add: same_env_def)
    with step.IH assms(3) have "db_ok (db_now u)" by (simp add: db_now_def)
    with step.hyps(2) have "db_ok (w_db v)" by (rule repo_call_db_ok)
    then show ?case using step.IH repo_call_env [OF step.hyps(2)] by (auto intro: same_env_trans)
  qed
  then show ?thesis by simp
qed

theorem repository_keeps_schema_witness:
  "db_ok (w_db (snd (CreateTransaction sample_tx (sample_world one_up empty_db))))"
proof -
  let ?w = "sample_world one_up empty_db"
  obtain e v where c: "CreateTransaction sample_tx ?w = (e, v)" by (cases "CreateTransaction sample_tx ?w")
  then have "repo_call\<^sup>*\<^sup>* ?w v" using call_CreateTransaction by blast
  moreover have "db_ok (w_db ?w)"
    by (simp add: sample_world_def empty_db_def db_ok_def txs_ok_def attempts_ok_def cursors_ok_def)
  ultimately have "db_ok (w_db v)"
    by (rule repository_keeps_schema) (simp add: sample_world_def)
  with c show ?thesis by simp
qed

text \<open>C33: Nonces are never issued twice: over any sequence of nonce assignments for a sender on a
  chain, for any transactions, with database failures and lost replies anywhere in it and with
  other writers that never lower the cursor, the issued nonces are strictly increasing and none is
  below the cursor the sequence started from.\<close>

theorem assigned_nonces_increase:
  assumes "cursor_rises (cursor_value s c) w" and "cursor_value s c (w_db w) = Some k" and "0 \<le> k"
  shows "(\<forall>n \<in> set (issued (\<lambda>txID. AssignNonceAndMarkPending txID s c) ids w). k \<le> uint n)
    \<and> sorted_wrt (<) (issued (\<lambda>txID. AssignNonceAndMarkPending txID s c) ids w)"
  using assms by (rule assign.issue_above_sorted)

theorem assigned_nonces_increase_witness:
  "sorted_wrt (<) (issued (\<lambda>txID. AssignNonceAndMarkPending txID ''0x7'' 1) [''t1'', ''t2'']
     (sample_world one_up queued_db))"
proof -
  let ?w = "sample_world one_up queued_db"
  have "cursor_rises (cursor_value ''0x7'' 1) ?w" by (auto simp: cursor_rises_def sample_world_def)
  moreover have "cursor_value ''0x7'' 1 (w_db ?w) = Some 5"
    by (simp add: cursor_value_def c_key_def)
  ultimately show ?thesis
    using assigned_nonces_increase [of "''0x7''" 1 ?w 5 "[''t1'', ''t2'']"] by simp
qed

text \<open>A transaction that was created is read back exactly: the entity passes through its row,
  with amounts written and parsed as decimal text and empty strings stored as NULL, without any
  change.\<close>

lemma create_then_get:
  assumes "stored_form tx = tx" and "CreateTransaction tx w = (None, v)" and "db_now v = w_db v"
    and "GetTransaction (tx_ID tx) v = (Inr t, u)"
  shows "t = tx"
proof -
  have "insert_tx tx (db_now w) = Inr (w_db v)"
    using assms(2) by (auto simp: CreateTransaction_def dest: exec_ok)
  then obtain row where row: "w_db v = (db_now w)\<lparr>d_transactions := d_transactions (db_now w) @ [row]\<rparr>"
    "r_id row = tx_ID tx" "tx_ID tx \<notin> r_id ` set (d_transactions (db_now w))"
    "scanTransaction row = stored_form tx"
    by (elim insert_txE)
  have "row_by r_id (tx_ID tx) (d_transactions (w_db v)) = Some row"
    using row by (auto simp: row_by_append row_by_None_iff [symmetric])
  with assms(1,3,4) row(4) show ?thesis
    by (auto simp: GetTransaction_def dest!: query_ok)
qed

lemma create_sample:
  "CreateTransaction sample_tx (sample_world eps empty_db) =
     (None, after_stmt (empty_db\<lparr>d_transactions := [sample_row]\<rparr>) (sample_world eps empty_db))"
  unfolding CreateTransaction_def
  by (rule exec_runs)
    (simp_all add: insert_tx_def sample_tx_def sample_row_def bigint_def numeric78_def empty_db_def
      nullIfEmpty_def)

lemma create_then_get_witness:
  "\<exists>v u. CreateTransaction sample_tx (sample_world one_up empty_db) = (None, v)
     \<and> GetTransaction ''t1'' v = (Inr sample_tx, u)"
proof -
  let ?v = "after_stmt (empty_db\<lparr>d_transactions := [sample_row]\<rparr>) (sample_world one_up empty_db)"
  have now: "db_now ?v = w_db ?v" by (simp add: db_now_def)
  obtain u where g: "GetTransaction (tx_ID sample_tx) ?v = (Inr (scanTransaction sample_row), u)"
    by (rule that, unfold GetTransaction_def, rule query_runs) (simp_all add: db_now_def sample_tx_def sample_row_def)
  have "stored_form sample_tx = sample_tx" by (simp add: stored_form_def sample_tx_def)
  from create_then_get [OF this create_sample now g] g create_sample [of one_up] show ?thesis
    by (auto simp: sample_tx_def)
qed

text \<open>The idempotency key is claimed once: inserting a transaction whose key (or identifier) is
  taken fails and leaves the database as it was, and from then on the key finds the transaction
  that was stored first.\<close>

lemma idempotency_key_unique:
  assumes "db_ok (db_now w)" and "r \<in> set (d_transactions (db_now w))"
    and "r_idempotency_key r = tx_IdempotencyKey tx" and "CreateTransaction tx w = (e, v)"
    and "db_now v = w_db v"
    and "GetTransactionByIdempotencyKey (tx_IdempotencyKey tx) v = (Inr found, u)"
  shows "e \<noteq> None \<and> w_db v = db_now w \<and> found = Some (scanTransaction r)"
proof -
  have no: "insert_tx tx (db_now w) \<noteq> Inr d" for d
    using assms(2,3) by (auto elim!: insert_txE simp: rev_image_eqI)
  then have "e \<noteq> None"
    using assms(4) by (cases e) (auto simp: CreateTransaction_def dest: exec_ok)
  moreover have db: "w_db v = db_now w"
    using CreateTransaction_effect [OF assms(4)] no by auto
  moreover have "row_by r_idempotency_key (r_idempotency_key r) (d_transactions (db_now w)) = Some r"
    using assms(1,2) by (intro row_by_in_distinct) (auto simp: db_ok_def txs_ok_def)
  then have "found = Some (scanTransaction r)"
    using assms(3,5,6) db
    by (auto simp: GetTransactionByIdempotencyKey_def no_rows_is_nil_def
        split: sum.splits prod.splits go_error.splits dest!: query_ok)
      (auto simp: query_def run_stmt_def Let_def split: db_outcome.splits)
  ultimately show ?thesis by simp
qed

lemma db_ok_queued_db: "db_ok queued_db"
  by (simp add: db_ok_def txs_ok_def attempts_ok_def cursors_ok_def)

lemma idempotency_key_unique_witness:
  "fst (CreateTransaction sample_tx (sample_world one_up queued_db)) \<noteq> None"
proof -
  let ?w = "sample_world one_up queued_db"
  obtain e v where c: "CreateTransaction sample_tx ?w = (e, v)"
    by (cases "CreateTransaction sample_tx ?w")
  have v: "w_db v = queued_db" "w_dbres v t = DbOk" "w_others v t d = d" for t d
    using c by (auto simp: CreateTransaction_def exec_def run_stmt_def insert_tx_def bigint_def
        numeric78_def sample_tx_def)
  have "\<exists>u. GetTransactionByIdempotencyKey (tx_IdempotencyKey sample_tx) v
      = (Inr (Some (scanTransaction sample_row)), u)"
    unfolding GetTransactionByIdempotencyKey_def
    by (subst query_runs [where a = "scanTransaction sample_row"])
      (simp_all add: v db_now_def no_rows_is_nil_def)
  then obtain u where "GetTransactionByIdempotencyKey (tx_IdempotencyKey sample_tx) v
      = (Inr (Some (scanTransaction sample_row)), u)" by blast
  then have "e \<noteq> None"
    using idempotency_key_unique [OF _ _ _ c, of sample_row] v db_ok_queued_db
    by (simp add: db_now_def)
  with c show ?thesis by simp
qed

definition queued_for :: "string \<Rightarrow> u64 \<Rightarrow> tx_row \<Rightarrow> bool" where
  "queued_for s c r \<longleftrightarrow> r_status r = TxStatusQueued \<and> r_sender r = s \<and> r_chain_id r = int (unat c)"

lemma next_queued_Some:
  assumes "next_queued s (int (unat c)) d = Some r"
  shows "r \<in> set (d_transactions d) \<and> queued_for s c r
    \<and> (\<forall>r' \<in> set (d_transactions d). queued_for s c r' \<longrightarrow> r_created_at r \<le> r_created_at r')"
  using assms
  by (auto simp: next_queued_def queued_for_def split: list.splits dest!: sort_key_eq_Cons)

lemma next_queued_None:
  "next_queued s (int (unat c)) d = None \<longleftrightarrow> (\<forall>r \<in> set (d_transactions d). \<not> queued_for s c r)"
  by (auto simp: next_queued_def queued_for_def filter_empty_conv split: list.splits
      dest!: sort_key_eq_Cons)

lemma claim_oldest:
  assumes "ClaimNextQueued s c claimer w = (Inr res, v)"
  shows "case res of
      None \<Rightarrow> (\<forall>r \<in> set (d_transactions (db_now w)). \<not> queued_for s c r) \<and> w_db v = db_now w
    | Some tx \<Rightarrow> \<exists>r \<in> set (d_transactions (db_now w)). queued_for s c r
        \<and> (\<forall>r' \<in> set (d_transactions (db_now w)).
             queued_for s c r' \<longrightarrow> r_created_at r \<le> r_created_at r')
        \<and> tx = scanTransaction (claim_row claimer (time_now w) r) \<and> tx_Status tx = TxStatusPending
        \<and> w_db v = upd_tx (r_id r) (claim_row claimer (time_now w)) (db_now w)"
proof -
  define st where "st d = (case bigint c of Inl e \<Rightarrow> Inl e | Inr chain \<Rightarrow>
       (case next_queued s chain d of
          None \<Rightarrow> Inl ErrNoRows
        | Some r \<Rightarrow> Inr (scanTransaction (claim_row claimer (time_now w) r),
                        upd_tx (r_id r) (claim_row claimer (time_now w)) d)))" for d
  have claim: "no_rows_is_nil (run_stmt st w) = (Inr res, v)"
    using assms by (simp add: ClaimNextQueued_def st_def [abs_def] Let_def)
  show ?thesis
  proof (cases res)
    case None
    with claim have run: "run_stmt st w = (Inl ErrNoRows, v)"
      by (auto simp: no_rows_is_nil_def split: prod.splits sum.splits go_error.splits)
    then have st: "st (db_now w) = Inl ErrNoRows" and db: "w_db v = db_now w"
      by (auto simp: run_stmt_def Let_def split: db_outcome.splits sum.splits)
    obtain chain where chain: "bigint c = Inr chain" "next_queued s chain (db_now w) = None"
      using st by (auto simp: st_def bigint_def split: sum.splits option.splits if_splits)
    with next_queued_None bigint_range [OF chain(1)] None db show ?thesis by auto
  next
    case (Some tx)
    with claim have run: "run_stmt st w = (Inr tx, v)"
      by (auto simp: no_rows_is_nil_def split: prod.splits sum.splits go_error.splits)
    then have "st (db_now w) = Inr (tx, w_db v)" by (rule run_stmt_ok)
    then obtain chain r where chain: "bigint c = Inr chain"
      and r: "next_queued s chain (db_now w) = Some r"
      and tx: "tx = scanTransaction (claim_row claimer (time_now w) r)"
      and db: "w_db v = upd_tx (r_id r) (claim_row claimer (time_now w)) (db_now w)"
      by (auto simp: st_def split: sum.splits option.splits)
    have "tx_Status tx = TxStatusPending" by (simp add: tx scanTransaction_def claim_row_def)
    moreover have "r \<in> set (d_transactions (db_now w)) \<and> queued_for s c r
      \<and> (\<forall>r' \<in> set (d_transactions (db_now w)). queued_for s c r' \<longrightarrow> r_created_at r \<le> r_created_at r')"
      using r bigint_range [OF chain] by (intro next_queued_Some) simp
    ultimately show ?thesis using Some tx db by auto
  qed
qed

text \<open>C34: Claiming is first in, first out: a claim takes a queued transaction of the sender on the
  chain such that no other queued one is older, marks exactly that row as pending and claimed, and
  returns it; it returns none only when nothing is queued, and then changes nothing.\<close>

theorem claim_oldest_queued:
  assumes "ClaimNextQueued s c claimer w = (Inr res, v)"
  shows "case res of
      None \<Rightarrow> (\<forall>r \<in> set (d_transactions (db_now w)). \<not> queued_for s c r) \<and> w_db v = db_now w
    | Some tx \<Rightarrow> \<exists>r \<in> set (d_transactions (db_now w)). queued_for s c r
        \<and> (\<forall>r' \<in> set (d_transactions (db_now w)).
             queued_for s c r' \<longrightarrow> r_created_at r \<le> r_created_at r')
        \<and> tx = scanTransaction (claim_row claimer (time_now w) r) \<and> tx_Status tx = TxStatusPending
        \<and> w_db v = upd_tx (r_id r) (claim_row claimer (time_now w)) (db_now w)"
  using assms by (rule claim_oldest)

lemma claim_sample:
  "ClaimNextQueued ''0x7'' 1 ''p'' (sample_world eps queued_db) =
     (Inr (Some (scanTransaction (claim_row ''p'' 0 sample_row))),
      after_stmt (upd_tx ''t1'' (claim_row ''p'' 0) queued_db) (sample_world eps queued_db))"
  unfolding ClaimNextQueued_def Let_def
  by (subst run_stmt_runs [where a = "scanTransaction (claim_row ''p'' 0 sample_row)"
        and d = "upd_tx ''t1'' (claim_row ''p'' 0) queued_db"])
    (simp_all add: bigint_def next_queued_def no_rows_is_nil_def time_now_def)

theorem claim_oldest_queued_witness:
  "\<exists>tx v. ClaimNextQueued ''0x7'' 1 ''p'' (sample_world one_up queued_db) = (Inr (Some tx), v)
     \<and> tx_Status tx = TxStatusPending"
  using claim_oldest_queued [OF claim_sample [of one_up]] claim_sample [of one_up] by auto

end
