(* ===== verification/EthClient.thy ===== *)
theory EthClient
  imports Fixtures "HOL-Library.AList"
begin

text \<open>
  internal/infrastructure/ethereum/client.go: the pool of RPC endpoints of a chain, with failover
  and broadcast, and \<open>domain.EthClient\<close>, the interface through which the pipeline sees it. The
  locale \<open>rpc_client\<close> states what the pipeline relies on; it is interpreted with the pool.
\<close>

section \<open>The interface domain.EthClient\<close>

record eth_client =
  ec_ChainID :: u64
  ec_BlockNumber :: "world \<Rightarrow> (go_error + u64) \<times> world"
  ec_PendingNonceAt :: "address \<Rightarrow> world \<Rightarrow> (go_error + u64) \<times> world"
  ec_NonceAt :: "address \<Rightarrow> world \<Rightarrow> (go_error + u64) \<times> world"
  ec_SuggestGasPrice :: "world \<Rightarrow> (go_error + int) \<times> world"
  ec_SuggestGasTipCap :: "world \<Rightarrow> (go_error + int) \<times> world"
  ec_EstimateGas ::
    "address \<Rightarrow> address \<Rightarrow> bytes option \<Rightarrow> int option \<Rightarrow> world \<Rightarrow> (go_error + u64) \<times> world"
  ec_LatestBaseFee :: "world \<Rightarrow> (go_error + int) \<times> world"
  ec_SendTransaction :: "signed_tx \<Rightarrow> world \<Rightarrow> go_error option \<times> world"
  ec_TransactionReceipt :: "hash \<Rightarrow> world \<Rightarrow> (go_error + eth_receipt) \<times> world"
  ec_BatchTransactionReceipts ::
    "hash list \<Rightarrow> world \<Rightarrow> (go_error + (hash \<times> eth_receipt) list) \<times> world"
  ec_CodeAt :: "address \<Rightarrow> world \<Rightarrow> (go_error + bytes) \<times> world"
  ec_Healthy :: "world \<Rightarrow> bool"

section \<open>The endpoint pool\<close>

text \<open>\<open>NewClient\<close>: the endpoints that could be dialled, all healthy; at least one is needed.\<close>

definition NewClient ::
    "(string \<Rightarrow> go_error option) \<Rightarrow> u64 \<Rightarrow> string list \<Rightarrow> go_error + endpoint list" where
  "NewClient dial chainID rpcURLs =
    (if rpcURLs = [] then Inl (Err (''no RPC URLs for chain '' @ u64_dec chainID))
     else
       let eps = map (\<lambda>url. \<lparr>ep_url = url, ep_healthy = True\<rparr>)
                   (filter (\<lambda>url. dial url = None) rpcURLs)
       in if eps = []
          then Inl (Err (''no reachable RPC endpoints for chain '' @ u64_dec chainID))
          else Inr eps)"

definition Healthy :: "u64 \<Rightarrow> world \<Rightarrow> bool" where
  "Healthy cid w = (\<exists>ep \<in> set (w_endpoints w cid). ep_healthy ep)"

text \<open>An \<open>*ethclient.Client\<close> is known by the position of its endpoint.\<close>

fun first_healthy :: "nat \<Rightarrow> endpoint list \<Rightarrow> (nat \<times> string) option" where
  "first_healthy i [] = None"
| "first_healthy i (ep # eps) =
     (if ep_healthy ep then Some (i, ep_url ep) else first_healthy (Suc i) eps)"

definition getClient :: "u64 \<Rightarrow> world \<Rightarrow> go_error + nat \<times> string" where
  "getClient cid w = (case first_healthy 0 (w_endpoints w cid) of
       Some cl \<Rightarrow> Inr cl
     | None \<Rightarrow> Inl (Err (''no healthy RPC endpoints for chain '' @ u64_dec cid)))"

definition set_healthy :: "bool \<Rightarrow> nat \<Rightarrow> endpoint list \<Rightarrow> endpoint list" where
  "set_healthy b i eps = (if i < length eps then eps[i := (eps ! i)\<lparr>ep_healthy := b\<rparr>] else eps)"

definition upd_endpoints ::
    "u64 \<Rightarrow> (endpoint list \<Rightarrow> endpoint list) \<Rightarrow> world \<Rightarrow> world" where
  "upd_endpoints cid f w = w\<lparr>w_endpoints := (w_endpoints w)(cid := f (w_endpoints w cid))\<rparr>"

definition markUnhealthy :: "u64 \<Rightarrow> nat \<times> string \<Rightarrow> world \<Rightarrow> world" where
  "markUnhealthy cid cl w = upd_endpoints cid (set_healthy False (fst cl)) w"

text \<open>
  One round of the goroutine that \<open>markUnhealthy\<close> starts for an endpoint: true when the endpoint
  answered and the goroutine ends.
\<close>

definition recoverEndpoint_round :: "u64 \<Rightarrow> nat \<Rightarrow> world \<Rightarrow> bool \<times> world" where
  "recoverEndpoint_round cid i w =
    (if i < length (w_endpoints w cid) then
       (case rpc_BlockNumber (w_rpc w) (ep_url (w_endpoints w cid ! i)) (w_tick w) of
          Inl e \<Rightarrow> (False, tick w)
        | Inr _ \<Rightarrow> (True, tick (upd_endpoints cid (set_healthy True i) w)))
     else (True, w))"

text \<open>One tick of \<open>StartHealthCheck\<close>: every endpoint is asked for its block number.\<close>

definition health_check_round :: "u64 \<Rightarrow> world \<Rightarrow> world" where
  "health_check_round cid w =
     tick (upd_endpoints cid (map (\<lambda>ep. ep\<lparr>ep_healthy :=
       (case rpc_BlockNumber (w_rpc w) (ep_url ep) (w_tick w) of Inl e \<Rightarrow> False | Inr _ \<Rightarrow> True)\<rparr>)) w)"

section \<open>Calls\<close>

text \<open>
  A call on the first healthy endpoint. A failing call marks the endpoint unhealthy, except for
  the tip, the gas estimate and the single receipt.
\<close>

definition rpc_call ::
    "bool \<Rightarrow> u64 \<Rightarrow> (rpc_nodes \<Rightarrow> string \<Rightarrow> nat \<Rightarrow> go_error + 'a) \<Rightarrow> world
      \<Rightarrow> (go_error + 'a) \<times> world" where
  "rpc_call mark cid f w =
    (case getClient cid w of
       Inl e \<Rightarrow> (Inl e, w)
     | Inr cl \<Rightarrow>
         (case f (w_rpc w) (snd cl) (w_tick w) of
            Inl e \<Rightarrow> (Inl e, if mark then markUnhealthy cid cl (tick w) else tick w)
          | Inr a \<Rightarrow> (Inr a, tick w)))"

text \<open>\<open>BlockNumber\<close> tries a second endpoint; the answer of that one is final.\<close>

definition BlockNumber :: "u64 \<Rightarrow> world \<Rightarrow> (go_error + u64) \<times> world" where
  "BlockNumber cid w =
    (case getClient cid w of
       Inl e \<Rightarrow> (Inl e, w)
     | Inr cl \<Rightarrow>
         (case rpc_BlockNumber (w_rpc w) (snd cl) (w_tick w) of
            Inr n \<Rightarrow> (Inr n, tick w)
          | Inl e \<Rightarrow>
              (let w1 = markUnhealthy cid cl (tick w) in
               case getClient cid w1 of
                 Inl e2 \<Rightarrow> (Inl e, w1)
               | Inr cl2 \<Rightarrow> (rpc_BlockNumber (w_rpc w1) (snd cl2) (w_tick w1), tick w1))))"

definition PendingNonceAt :: "u64 \<Rightarrow> address \<Rightarrow> world \<Rightarrow> (go_error + u64) \<times> world" where
  "PendingNonceAt cid addr = rpc_call True cid (\<lambda>n url t. rpc_PendingNonceAt n url t addr)"

definition NonceAt :: "u64 \<Rightarrow> address \<Rightarrow> world \<Rightarrow> (go_error + u64) \<times> world" where
  "NonceAt cid addr = rpc_call True cid (\<lambda>n url t. rpc_NonceAt n url t addr)"

definition SuggestGasPrice :: "u64 \<Rightarrow> world \<Rightarrow> (go_error + int) \<times> world" where
  "SuggestGasPrice cid = rpc_call True cid rpc_SuggestGasPrice"

definition SuggestGasTipCap :: "u64 \<Rightarrow> world \<Rightarrow> (go_error + int) \<times> world" where
  "SuggestGasTipCap cid = rpc_call False cid rpc_SuggestGasTipCap"

definition EstimateGas ::
    "u64 \<Rightarrow> address \<Rightarrow> address \<Rightarrow> bytes option \<Rightarrow> int option \<Rightarrow> world \<Rightarrow> (go_error + u64) \<times> world" where
  "EstimateGas cid src dst data value =
     rpc_call False cid (\<lambda>n url t. rpc_EstimateGas n url t src dst data value)"

text \<open>A header without a base fee is an error of the client, not of the endpoint.\<close>

definition LatestBaseFee :: "u64 \<Rightarrow> world \<Rightarrow> (go_error + int) \<times> world" where
  "LatestBaseFee cid w =
    (case rpc_call True cid rpc_LatestBaseFee w of
       (Inl e, w1) \<Rightarrow> (Inl e, w1)
     | (Inr None, w1) \<Rightarrow>
         (Inl (Err (''chain '' @ u64_dec cid @ '' does not support EIP-1559'')), w1)
     | (Inr (Some f), w1) \<Rightarrow> (Inr f, w1))"

definition CodeAt :: "u64 \<Rightarrow> address \<Rightarrow> world \<Rightarrow> (go_error + bytes) \<times> world" where
  "CodeAt cid addr = rpc_call True cid (\<lambda>n url t. rpc_CodeAt n url t addr)"

definition TransactionReceipt :: "u64 \<Rightarrow> hash \<Rightarrow> world \<Rightarrow> (go_error + eth_receipt) \<times> world" where
  "TransactionReceipt cid h = rpc_call False cid (\<lambda>n url t. rpc_TransactionReceipt n url t h)"

text \<open>
  \<open>SendTransaction\<close> broadcasts to every healthy endpoint and collects one entry of \<open>errs\<close> per
  endpoint. The entry of an endpoint that was skipped is never written: it stays nil.
\<close>

definition send_errs :: "signed_tx \<Rightarrow> world \<Rightarrow> endpoint list \<Rightarrow> go_error option list" where
  "send_errs tx w eps = map (\<lambda>ep. if ep_healthy ep
     then rpc_SendTransaction (w_rpc w) (ep_url ep) (w_tick w) tx else None) eps"

definition SendTransaction :: "u64 \<Rightarrow> signed_tx \<Rightarrow> world \<Rightarrow> go_error option \<times> world" where
  "SendTransaction cid tx w =
    (let eps = w_endpoints w cid;
         errs = send_errs tx w eps;
         w1 = tick (w\<lparr>w_sent := w_sent w @
           map (\<lambda>ep. (cid, ep_url ep, tx)) (filter ep_healthy eps)\<rparr>)
     in if None \<in> set errs then (None, w1)
        else (case errs of
                e # _ \<Rightarrow> (e, w1)
              | [] \<Rightarrow> (Some (Err ''no healthy endpoints to broadcast''), w1)))"

text \<open>
  \<open>BatchTransactionReceipts\<close>: one batch call; elements that failed or came back empty are left
  out. The Go map is an association list without duplicate keys.
\<close>

fun collect_receipts ::
    "(nat \<Rightarrow> go_error option \<times> eth_receipt) \<Rightarrow> nat \<Rightarrow> hash list \<Rightarrow> (hash \<times> eth_receipt) list
      \<Rightarrow> (hash \<times> eth_receipt) list" where
  "collect_receipts res i [] acc = acc"
| "collect_receipts res i (h # hs) acc =
     (case res i of
        (Some e, _) \<Rightarrow> collect_receipts res (Suc i) hs acc
      | (None, rcpt) \<Rightarrow>
          if er_BlockNumber rcpt \<noteq> None
          then collect_receipts res (Suc i) hs (AList.update h rcpt acc)
          else collect_receipts res (Suc i) hs acc)"

definition BatchTransactionReceipts ::
    "u64 \<Rightarrow> hash list \<Rightarrow> world \<Rightarrow> (go_error + (hash \<times> eth_receipt) list) \<times> world" where
  "BatchTransactionReceipts cid hs w =
    (if hs = [] then (Inr [], w)
     else
       (case rpc_call True cid (\<lambda>n url t. rpc_BatchReceipts n url t hs) w of
          (Inl e, w1) \<Rightarrow> (Inl e, w1)
        | (Inr res, w1) \<Rightarrow> (Inr (collect_receipts res 0 hs []), w1)))"

text \<open>The pool as an implementation of the interface.\<close>

definition Client :: "u64 \<Rightarrow> eth_client" where
  "Client cid = \<lparr>ec_ChainID = cid,
     ec_BlockNumber = BlockNumber cid,
     ec_PendingNonceAt = PendingNonceAt cid,
     ec_NonceAt = NonceAt cid,
     ec_SuggestGasPrice = SuggestGasPrice cid,
     ec_SuggestGasTipCap = SuggestGasTipCap cid,
     ec_EstimateGas = EstimateGas cid,
     ec_LatestBaseFee = LatestBaseFee cid,
     ec_SendTransaction = SendTransaction cid,
     ec_TransactionReceipt = TransactionReceipt cid,
     ec_BatchTransactionReceipts = BatchTransactionReceipts cid,
     ec_CodeAt = CodeAt cid,
     ec_Healthy = Healthy cid\<rparr>"

section \<open>The contract the pipeline relies on\<close>

text \<open>
  A call leaves the database and the environment alone, may only move the endpoints, and takes
  time.
\<close>

definition rpc_frame :: "world \<Rightarrow> world \<Rightarrow> bool" where
  "rpc_frame w v \<longleftrightarrow> w_db v = w_db w \<and> w_notify v = w_notify w \<and> w_clock v = w_clock w
     \<and> w_ulid v = w_ulid w \<and> w_done v = w_done w \<and> w_dbres v = w_dbres w
     \<and> w_maporder v = w_maporder w \<and> w_others v = w_others w \<and> w_rpc v = w_rpc w
     \<and> w_steps v = w_steps w \<and> w_tick w \<le> w_tick v"

definition quiet :: "world \<Rightarrow> world \<Rightarrow> bool" where
  "quiet w v \<longleftrightarrow> rpc_frame w v \<and> w_sent v = w_sent w"

definition sends_only :: "u64 \<Rightarrow> signed_tx \<Rightarrow> world \<Rightarrow> world \<Rightarrow> bool" where
  "sends_only cid tx w v \<longleftrightarrow> rpc_frame w v
     \<and> (\<exists>urls. w_sent v = w_sent w @ map (\<lambda>u. (cid, u, tx)) urls)"

locale rpc_client =
  fixes c :: eth_client
  assumes quiet_BlockNumber: "ec_BlockNumber c w = (n, v) \<Longrightarrow> quiet w v"
    and quiet_PendingNonceAt: "ec_PendingNonceAt c addr w = (n, v) \<Longrightarrow> quiet w v"
    and quiet_SuggestGasPrice: "ec_SuggestGasPrice c w = (p, v) \<Longrightarrow> quiet w v"
    and quiet_SuggestGasTipCap: "ec_SuggestGasTipCap c w = (p, v) \<Longrightarrow> quiet w v"
    and quiet_EstimateGas: "ec_EstimateGas c src dst data value w = (n, v) \<Longrightarrow> quiet w v"
    and quiet_LatestBaseFee: "ec_LatestBaseFee c w = (p, v) \<Longrightarrow> quiet w v"
    and quiet_Batch: "ec_BatchTransactionReceipts c hs w = (res, v) \<Longrightarrow> quiet w v"
    and sends_SendTransaction:
      "ec_SendTransaction c tx w = (e, v) \<Longrightarrow> sends_only (ec_ChainID c) tx w v"
    and batch_keys: "ec_BatchTransactionReceipts c hs w = (Inr rs, v) \<Longrightarrow>
      distinct (map fst rs) \<and> fst ` set rs \<subseteq> set hs"
    and batch_blocks: "ec_BatchTransactionReceipts c hs w = (Inr rs, v) \<Longrightarrow> (h, r) \<in> set rs \<Longrightarrow>
      er_BlockNumber r \<noteq> None"
begin

lemmas quiet_calls = quiet_BlockNumber quiet_PendingNonceAt quiet_SuggestGasPrice
  quiet_SuggestGasTipCap quiet_EstimateGas quiet_LatestBaseFee quiet_Batch

end

lemma rpc_frame_refl [simp]: "rpc_frame w w"
  by (simp add: rpc_frame_def)

lemma quiet_refl [simp, intro]: "quiet w w"
  by (simp add: quiet_def)

lemma quiet_trans [trans]: "quiet u v \<Longrightarrow> quiet v w \<Longrightarrow> quiet u w"
  by (simp add: quiet_def rpc_frame_def)

lemma quiet_tick [simp, intro]: "quiet w v \<Longrightarrow> quiet w (tick v)"
  by (simp add: quiet_def rpc_frame_def)

lemma quiet_upd_endpoints [simp]: "quiet w (upd_endpoints cid f v) = quiet w v"
  by (simp add: quiet_def rpc_frame_def upd_endpoints_def)

lemma quiet_db: "quiet w v \<Longrightarrow> w_db v = w_db w"
  by (simp add: quiet_def rpc_frame_def)

lemma quiet_rpc_call: "rpc_call mark cid f w = (r, v) \<Longrightarrow> quiet w v"
  by (auto simp: rpc_call_def markUnhealthy_def split: sum.splits if_splits)

lemma quiet_BlockNumber_pool: "BlockNumber cid w = (r, v) \<Longrightarrow> quiet w v"
  by (auto simp: BlockNumber_def markUnhealthy_def Let_def split: sum.splits)

lemma quiet_LatestBaseFee_pool: "LatestBaseFee cid w = (r, v) \<Longrightarrow> quiet w v"
  by (auto simp: LatestBaseFee_def split: sum.splits prod.splits option.splits
      dest: quiet_rpc_call)

lemma quiet_Batch_pool: "BatchTransactionReceipts cid hs w = (r, v) \<Longrightarrow> quiet w v"
  by (auto simp: BatchTransactionReceipts_def split: sum.splits prod.splits if_splits
      dest: quiet_rpc_call)

lemma sends_only_pool: "SendTransaction cid tx w = (e, v) \<Longrightarrow> sends_only cid tx w v"
  by (auto simp: SendTransaction_def Let_def sends_only_def rpc_frame_def
      split: if_splits list.splits intro!: exI [of _ "map ep_url (filter ep_healthy (w_endpoints w cid))"])

lemma set_alist_update: "set (AList.update k v al) \<subseteq> insert (k, v) (set al)"
  by (induction al) auto

lemma collect_receipts_distinct:
  "distinct (map fst acc) \<Longrightarrow> distinct (map fst (collect_receipts res i hs acc))"
  by (induction res i hs acc rule: collect_receipts.induct)
    (auto simp: distinct_update split: prod.splits option.splits)

lemma collect_receipts_keys:
  "fst ` set (collect_receipts res i hs acc) \<subseteq> fst ` set acc \<union> set hs"
proof (induction res i hs acc rule: collect_receipts.induct)
  case (1 res i acc)
  then show ?case by simp
next
  case (2 res i h hs acc)
  obtain e rcpt where p: "res i = (e, rcpt)" by (cases "res i")
  show ?case
  proof (cases "e = None \<and> er_BlockNumber rcpt \<noteq> None")
    case True
    have "fst ` set (collect_receipts res (Suc i) hs (AList.update h rcpt acc))
        \<subseteq> fst ` set (AList.update h rcpt acc) \<union> set hs"
      using "2.IH" p True by simp
    then show ?thesis using p True by (auto simp: dom_update)
  next
    case False
    then have "fst ` set (collect_receipts res (Suc i) hs acc) \<subseteq> fst ` set acc \<union> set hs"
      using "2.IH" p by (cases e) auto
    then show ?thesis using p False by (cases e) auto
  qed
qed

lemma collect_receipts_blocks:
  "(\<And>h r. (h, r) \<in> set acc \<Longrightarrow> er_BlockNumber r \<noteq> None) \<Longrightarrow>
    (h, r) \<in> set (collect_receipts res i hs acc) \<Longrightarrow> er_BlockNumber r \<noteq> None"
proof (induction res i hs acc rule: collect_receipts.induct)
  case (1 res i acc)
  then show ?case by simp
next
  case (2 res i h' hs acc)
  obtain e rcpt where p: "res i = (e, rcpt)" by (cases "res i")
  have upd: "er_BlockNumber r \<noteq> None"
    if "(h, r) \<in> set (AList.update h' rcpt acc)" "er_BlockNumber rcpt \<noteq> None" for h r
    using that 2(4) set_alist_update [of h' rcpt acc] by blast
  then show ?case
    using 2 p by (cases e) (auto split: if_splits)
qed

text \<open>The pool keeps the contract.\<close>

interpretation pool: rpc_client "Client cid"
proof unfold_locales
  show "\<And>hs w rs v. ec_BatchTransactionReceipts (Client cid) hs w = (Inr rs, v) \<Longrightarrow>
      distinct (map fst rs) \<and> fst ` set rs \<subseteq> set hs"
    using collect_receipts_keys [of _ _ _ "[]"] collect_receipts_distinct [of "[]"]
    by (fastforce simp: Client_def BatchTransactionReceipts_def
        split: sum.splits prod.splits if_splits)
  show "\<And>hs w rs v h r. ec_BatchTransactionReceipts (Client cid) hs w = (Inr rs, v) \<Longrightarrow>
      (h, r) \<in> set rs \<Longrightarrow> er_BlockNumber r \<noteq> None"
    using collect_receipts_blocks [of "[]"]
    by (auto simp: Client_def BatchTransactionReceipts_def split: sum.splits prod.splits if_splits)
qed (auto simp: Client_def PendingNonceAt_def SuggestGasPrice_def SuggestGasTipCap_def EstimateGas_def
    intro: quiet_BlockNumber_pool quiet_rpc_call quiet_LatestBaseFee_pool quiet_Batch_pool
      sends_only_pool)

section \<open>Facts about the pool\<close>

lemma first_healthy_eq:
  "first_healthy i eps = (case filter (\<lambda>j. ep_healthy (eps ! j)) [0..<length eps] of
       [] \<Rightarrow> None | j # _ \<Rightarrow> Some (i + j, ep_url (eps ! j)))"
proof (induction eps arbitrary: i)
  case Nil
  then show ?case by simp
next
  case (Cons ep eps)
  have "filter (\<lambda>j. ep_healthy ((ep # eps) ! j)) [0..<length (ep # eps)]
      = (if ep_healthy ep then [0] else [])
        @ map Suc (filter (\<lambda>j. ep_healthy (eps ! j)) [0..<length eps])"
    by (simp add: upt_conv_Cons map_Suc_upt [symmetric] filter_map comp_def del: upt_Suc)
  then show ?case
    using Cons.IH [of "Suc i"] by (auto split: list.splits)
qed

lemma first_healthy_urls:
  "map_option snd (first_healthy i eps) =
     (case map ep_url (filter ep_healthy eps) of [] \<Rightarrow> None | u # _ \<Rightarrow> Some u)"
  by (induction eps arbitrary: i) auto

lemma first_healthy_index:
  "first_healthy i eps = Some (j, u) \<Longrightarrow> i \<le> j \<and> j - i < length eps \<and> ep_healthy (eps ! (j - i))
     \<and> u = ep_url (eps ! (j - i)) \<and> (\<forall>k < j - i. \<not> ep_healthy (eps ! k))"
proof (induction eps arbitrary: i)
  case Nil
  then show ?case by simp
next
  case (Cons ep eps)
  show ?case
  proof (cases "ep_healthy ep")
    case True
    with Cons.prems show ?thesis by auto
  next
    case False
    with Cons have "Suc i \<le> j \<and> j - Suc i < length eps \<and> ep_healthy (eps ! (j - Suc i))
        \<and> u = ep_url (eps ! (j - Suc i)) \<and> (\<forall>k < j - Suc i. \<not> ep_healthy (eps ! k))"
      by simp
    with False show ?thesis by (auto simp: nth_Cons' Suc_diff_Suc)
  qed
qed

text \<open>Marking the first healthy endpoint drops it from the healthy ones and keeps the others.\<close>

lemma healthy_urls_after_mark:
  "first_healthy i eps = Some (j, u) \<Longrightarrow>
     map ep_url (filter ep_healthy (set_healthy False (j - i) eps))
       = tl (map ep_url (filter ep_healthy eps))"
proof (induction eps arbitrary: i)
  case Nil
  then show ?case by simp
next
  case (Cons ep eps)
  show ?case
  proof (cases "ep_healthy ep")
    case True
    with Cons.prems show ?thesis by (auto simp: set_healthy_def)
  next
    case False
    with Cons.prems have f: "first_healthy (Suc i) eps = Some (j, u)" by simp
    from first_healthy_index [OF f] have "j - i = Suc (j - Suc i)" by arith
    with False Cons.IH [OF f] show ?thesis by (simp add: set_healthy_def split: if_splits)
  qed
qed

text \<open>The pool with its first healthy endpoint marked unhealthy.\<close>

fun first_marked :: "endpoint list \<Rightarrow> endpoint list" where
  "first_marked [] = []"
| "first_marked (ep # eps) = (if ep_healthy ep then ep\<lparr>ep_healthy := False\<rparr> # eps else ep # first_marked eps)"

lemma set_healthy_first:
  "first_healthy i eps = Some (j, u) \<Longrightarrow> set_healthy False (j - i) eps = first_marked eps"
proof (induction eps arbitrary: i)
  case (Cons ep eps)
  show ?case
  proof (cases "ep_healthy ep")
    case True
    with Cons.prems show ?thesis by (auto simp: set_healthy_def)
  next
    case False
    with Cons.prems have f: "first_healthy (Suc i) eps = Some (j, u)" by simp
    from first_healthy_index [OF f] have "j - i = Suc (j - Suc i)" by arith
    with False Cons.IH [OF f] show ?thesis by (simp add: set_healthy_def split: if_splits)
  qed
qed simp

text \<open>The failover of \<open>BlockNumber\<close> over the healthy endpoints, in their order.\<close>

definition failover_answer ::
    "u64 \<Rightarrow> (string \<Rightarrow> nat \<Rightarrow> go_error + 'a) \<Rightarrow> nat \<Rightarrow> string list \<Rightarrow> go_error + 'a" where
  "failover_answer cid ask t urls = (case urls of
       [] \<Rightarrow> Inl (Err (''no healthy RPC endpoints for chain '' @ u64_dec cid))
     | [u] \<Rightarrow> ask u t
     | u # v # _ \<Rightarrow> (case ask u t of Inr n \<Rightarrow> Inr n | Inl e \<Rightarrow> ask v (Suc t)))"

lemma BlockNumber_failover:
  "fst (BlockNumber cid w) = failover_answer cid (rpc_BlockNumber (w_rpc w)) (w_tick w)
     (map ep_url (filter ep_healthy (w_endpoints w cid)))"
proof (cases "first_healthy 0 (w_endpoints w cid)")
  case None
  with first_healthy_urls [of 0 "w_endpoints w cid"] show ?thesis
    by (auto simp: BlockNumber_def getClient_def failover_answer_def split: list.splits)
next
  case (Some cl)
  obtain j u where cl: "cl = (j, u)" by (cases cl)
  let ?us = "map ep_url (filter ep_healthy (w_endpoints w cid))"
  obtain us where us: "?us = u # us"
    using Some cl first_healthy_urls [of 0 "w_endpoints w cid"] by (auto split: list.splits)
  have after: "map ep_url (filter ep_healthy (set_healthy False j (w_endpoints w cid))) = us"
    using healthy_urls_after_mark [of 0 "w_endpoints w cid" j u] Some cl us by simp
  have snd: "map_option snd (first_healthy 0 (set_healthy False j (w_endpoints w cid)))
      = (case us of [] \<Rightarrow> None | v # _ \<Rightarrow> Some v)"
    using first_healthy_urls [of 0 "set_healthy False j (w_endpoints w cid)"] after by simp
  show ?thesis
  proof (cases "rpc_BlockNumber (w_rpc w) u (w_tick w)")
    case (Inr n)
    with Some cl us show ?thesis
      by (auto simp: BlockNumber_def getClient_def failover_answer_def split: list.splits)
  next
    case (Inl e)
    with Some cl us snd show ?thesis
      by (auto simp: BlockNumber_def getClient_def failover_answer_def markUnhealthy_def
          upd_endpoints_def Let_def split: list.splits option.splits)
  qed
qed

lemma collect_receipts_map_of:
  assumes "distinct hs" and "set hs \<inter> fst ` set acc = {}" and "k < length hs"
  shows "map_of (collect_receipts res i hs acc) (hs ! k) =
    (case res (i + k) of (e, rcpt) \<Rightarrow>
       if e = None \<and> er_BlockNumber rcpt \<noteq> None then Some rcpt else None)"
  using assms
proof (induction res i hs acc arbitrary: k rule: collect_receipts.induct)
  case (1 res i acc)
  then show ?case by simp
next
  case (2 res i h hs acc)
  obtain e rcpt where p: "res i = (e, rcpt)" by (cases "res i")
  define ok where "ok \<longleftrightarrow> e = None \<and> er_BlockNumber rcpt \<noteq> None"
  define acc' where "acc' = (if ok then AList.update h rcpt acc else acc)"
  have step: "collect_receipts res i (h # hs) acc = collect_receipts res (Suc i) hs acc'"
    using p by (cases e) (auto simp: ok_def acc'_def)
  have dis: "distinct hs" "h \<notin> set hs" "set hs \<inter> fst ` set acc' = {}"
    using "2.prems" by (auto simp: acc'_def dom_update)
  have IH: "map_of (collect_receipts res (Suc i) hs acc') (hs ! m) =
      (case res (Suc i + m) of (e, rcpt) \<Rightarrow>
         if e = None \<and> er_BlockNumber rcpt \<noteq> None then Some rcpt else None)"
    if "m < length hs" for m
    using "2.IH" dis that p by (cases e) (auto simp: ok_def acc'_def split: if_splits)
  show ?case
  proof (cases k)
    case (Suc m)
    with IH [of m] "2.prems" step show ?thesis by simp
  next
    case 0
    have keep: "map_of (collect_receipts res j ys zs) h = map_of zs h" if "h \<notin> set ys" for j ys zs
      using that
      by (induction res j ys zs rule: collect_receipts.induct)
        (auto simp: update_conv' split: prod.splits option.splits)
    have "map_of acc h = None"
      using "2.prems" by (simp add: map_of_eq_None_iff)
    with 0 step keep [OF dis(2)] p show ?thesis
      by (auto simp: ok_def acc'_def update_conv')
  qed
qed

lemma send_errs_None:
  "None \<in> set (send_errs tx w eps) \<longleftrightarrow> (\<exists>ep \<in> set eps. \<not> ep_healthy ep
     \<or> rpc_SendTransaction (w_rpc w) (ep_url ep) (w_tick w) tx = None)"
  by (induction eps) (auto simp: send_errs_def)

section \<open>Properties\<close>

text \<open>C39: Asking for the block number fails over: the answer is that of the first healthy endpoint
  or, when that one fails, of the next healthy one; only when no endpoint is healthy, or both
  fail, is an error returned. The first healthy endpoint is marked unhealthy exactly when it failed;
  no other endpoint, of this or another chain, changes.\<close>

theorem BlockNumber_fails_over:
  "fst (BlockNumber cid w) = failover_answer cid (rpc_BlockNumber (w_rpc w)) (w_tick w)
     (map ep_url (filter ep_healthy (w_endpoints w cid)))
   \<and> w_endpoints (snd (BlockNumber cid w)) = (w_endpoints w)(cid :=
       (case map ep_url (filter ep_healthy (w_endpoints w cid)) of
          [] \<Rightarrow> w_endpoints w cid
        | u # _ \<Rightarrow> (case rpc_BlockNumber (w_rpc w) u (w_tick w) of
            Inr n \<Rightarrow> w_endpoints w cid
          | Inl e \<Rightarrow> first_marked (w_endpoints w cid))))"
proof -
  let ?eps = "w_endpoints w cid"
  have "w_endpoints (snd (BlockNumber cid w)) = (w_endpoints w)(cid :=
       (case map ep_url (filter ep_healthy ?eps) of [] \<Rightarrow> ?eps
        | u # _ \<Rightarrow> (case rpc_BlockNumber (w_rpc w) u (w_tick w) of
            Inr n \<Rightarrow> ?eps | Inl e \<Rightarrow> first_marked ?eps)))"
  proof (cases "first_healthy 0 ?eps")
    case None
    with first_healthy_urls [of 0 ?eps] have "map ep_url (filter ep_healthy ?eps) = []"
      by (simp split: list.splits)
    then show ?thesis by (simp add: BlockNumber_def getClient_def None)
  next
    case (Some cl)
    obtain j u where cl: "cl = (j, u)" by (cases cl)
    obtain us where us: "map ep_url (filter ep_healthy ?eps) = u # us"
      using Some cl first_healthy_urls [of 0 ?eps] by (auto split: list.splits)
    have "set_healthy False j ?eps = first_marked ?eps"
      using set_healthy_first [of 0 ?eps j u] Some cl by simp
    then show ?thesis unfolding us using Some cl
      by (auto simp: BlockNumber_def getClient_def markUnhealthy_def upd_endpoints_def Let_def
          split: sum.splits option.splits)
  qed
  with BlockNumber_failover show ?thesis by blast
qed

text \<open>A batch of distinct hashes gives exactly the receipts that exist: the receipt of a hash is
  in the result when its element came back without an error and with a block number, and then it
  is that receipt; every other hash is absent.\<close>

theorem batch_receipts_exact:
  assumes "distinct hs" and "k < length hs"
    and "getClient cid w = Inr cl"
    and "rpc_BatchReceipts (w_rpc w) (snd cl) (w_tick w) hs = Inr res"
    and "BatchTransactionReceipts cid hs w = (Inr rs, v)"
  shows "map_of rs (hs ! k) = (case res k of (e, rcpt) \<Rightarrow>
    if e = None \<and> er_BlockNumber rcpt \<noteq> None then Some rcpt else None)"
  using collect_receipts_map_of [OF assms(1) _ assms(2), of "[]" res 0] assms
  by (auto simp: BatchTransactionReceipts_def rpc_call_def split: if_splits)

theorem batch_receipts_exact_witness:
  "fst (BatchTransactionReceipts 1 [3] (sample_world one_up empty_db)) = Inr [(3, sample_receipt)]
     \<and> map_of [(3, sample_receipt)] (3 :: hash) = Some sample_receipt"
proof -
  let ?w = "sample_world one_up empty_db"
  have cl: "getClient 1 ?w = Inr (0, ''a'')"
    by (simp add: getClient_def sample_world_def one_up_def)
  have res: "rpc_BatchReceipts (w_rpc ?w) (snd (0 :: nat, ''a'')) (w_tick ?w) [3]
      = Inr (\<lambda>_. (None, sample_receipt))"
    by (simp add: sample_world_def sample_nodes_def)
  have b: "BatchTransactionReceipts 1 [3] ?w = (Inr [(3, sample_receipt)], tick ?w)"
    using cl res by (simp add: BatchTransactionReceipts_def rpc_call_def sample_receipt_def)
  from b batch_receipts_exact [OF _ _ cl res b, of 0] show ?thesis
    by (simp add: sample_receipt_def)
qed

text \<open>C40: A broadcast is reported as successful exactly when some endpoint accepted the transaction
  or some endpoint was skipped because it is marked unhealthy: the entry of a skipped endpoint in
  the list of errors stays nil and counts as a success.\<close>

theorem SendTransaction_success_iff:
  assumes "w_endpoints w cid \<noteq> []"
  shows "fst (SendTransaction cid tx w) = None \<longleftrightarrow>
    (\<exists>ep \<in> set (w_endpoints w cid). \<not> ep_healthy ep
       \<or> rpc_SendTransaction (w_rpc w) (ep_url ep) (w_tick w) tx = None)"
proof -
  let ?errs = "send_errs tx w (w_endpoints w cid)"
  have ne: "?errs \<noteq> []" using assms by (simp add: send_errs_def)
  then have "fst (SendTransaction cid tx w) = None \<longleftrightarrow> None \<in> set ?errs"
    by (cases ?errs) (auto simp: SendTransaction_def Let_def, metis not_None_eq)
  then show ?thesis by (simp add: send_errs_None)
qed

theorem SendTransaction_success_iff_witness:
  "fst (SendTransaction 1 sample_signed (sample_world one_up empty_db)) = None"
  using SendTransaction_success_iff [of "sample_world one_up empty_db" 1 sample_signed]
  by (simp add: sample_world_def one_up_def sample_nodes_def)

text \<open>With every endpoint marked unhealthy a broadcast reaches nobody and still reports
  success.\<close>

theorem SendTransaction_all_down_reports_success:
  assumes "w_endpoints w cid \<noteq> []" and "\<not> Healthy cid w"
  shows "fst (SendTransaction cid tx w) = None \<and> w_sent (snd (SendTransaction cid tx w)) = w_sent w"
proof -
  have none: "filter ep_healthy (w_endpoints w cid) = []"
    using assms(2) by (auto simp: Healthy_def filter_empty_conv)
  have "None \<in> set (send_errs tx w (w_endpoints w cid))"
    using assms by (auto simp: send_errs_None Healthy_def neq_Nil_conv)
  with none show ?thesis by (simp add: SendTransaction_def Let_def)
qed

theorem SendTransaction_all_down_witness:
  "fst (SendTransaction 1 sample_signed (sample_world all_down empty_db)) = None
     \<and> w_sent (snd (SendTransaction 1 sample_signed (sample_world all_down empty_db))) = []"
  using SendTransaction_all_down_reports_success [of "sample_world all_down empty_db" 1 sample_signed]
  by (simp add: sample_world_def all_down_def Healthy_def)

end
