(* ===== verification/Gas.thy ===== *)
theory Gas
  imports EthClient
begin

text \<open>
  internal/infrastructure/ethereum/gas.go: gas limits with a safety multiplier in double
  arithmetic, EIP-1559 and legacy fees within the configured bounds, and the fee bump of a
  replacement transaction.
\<close>

section \<open>Double arithmetic\<close>

text \<open>
  A double is its rational value. \<open>f64_round\<close> rounds to the nearest value with a 53-bit
  significand, ties to even; exponents are unbounded, which is exact for the magnitudes of gas
  limits and multipliers.
\<close>

fun ilog2 :: "nat \<Rightarrow> nat" where
  "ilog2 n = (if n < 2 then 0 else Suc (ilog2 (n div 2)))"

declare ilog2.simps [simp del]

definition f64_exp :: "rat \<Rightarrow> int" where
  "f64_exp x = (if 1 \<le> x then int (ilog2 (nat \<lfloor>x\<rfloor>))
     else - int (Suc (ilog2 (nat \<lceil>1 / x\<rceil> - 1))))"

definition round_even :: "rat \<Rightarrow> int" where
  "round_even q = (let f = \<lfloor>q\<rfloor>; r = q - of_int f in
     if r < 1 / 2 then f else if 1 / 2 < r then f + 1 else if even f then f else f + 1)"

definition two_powi :: "int \<Rightarrow> rat" where
  "two_powi k = (if 0 \<le> k then 2 ^ nat k else 1 / 2 ^ nat (- k))"

definition f64_round_pos :: "rat \<Rightarrow> rat" where
  "f64_round_pos x = (let ulp = two_powi (f64_exp x - 52) in of_int (round_even (x / ulp)) * ulp)"

definition f64_round :: "rat \<Rightarrow> rat" where
  "f64_round x = (if x = 0 then 0 else if 0 < x then f64_round_pos x else - f64_round_pos (- x))"

text \<open>\<open>uint64(f)\<close>: truncation towards zero where the result fits.\<close>

definition f64_to_u64 :: "'key eth_lib \<Rightarrow> rat \<Rightarrow> u64" where
  "f64_to_u64 L f = (if -1 < f \<and> f < 2 ^ 64
     then word_of_int (if 0 \<le> f then \<lfloor>f\<rfloor> else 0) else Float_out_of_range L f)"

text \<open>\<open>uint64(float64(gasLimit) * chain.GasLimitMultiplier)\<close>\<close>

definition scale_gas :: "'key eth_lib \<Rightarrow> u64 \<Rightarrow> rat \<Rightarrow> u64" where
  "scale_gas L gasLimit multiplier =
     f64_to_u64 L (f64_round (f64_round (of_nat (unat gasLimit)) * multiplier))"

section \<open>Fees\<close>

definition priorityMultipliers :: "priority \<Rightarrow> (int \<times> int) option" where
  "priorityMultipliers p = (case p of
       PriorityLow \<Rightarrow> Some (80, 150)
     | PriorityNormal \<Rightarrow> Some (100, 200)
     | PriorityHigh \<Rightarrow> Some (150, 250)
     | PriorityUrgent \<Rightarrow> Some (250, 300)
     | PriorityOther _ \<Rightarrow> None)"

text \<open>Bounds that are nil do not bound; the lower bound is looked at first.\<close>

definition clamp :: "int option \<Rightarrow> int option \<Rightarrow> int option \<Rightarrow> int option" where
  "clamp v lo hi = (case v of
       None \<Rightarrow> None
     | Some x \<Rightarrow>
         if (case lo of None \<Rightarrow> False | Some m \<Rightarrow> x < m) then lo
         else if (case hi of None \<Rightarrow> False | Some m \<Rightarrow> m < x) then hi
         else Some x)"

text \<open>The arithmetic of \<open>estimateEIP1559\<close> once the node has answered.\<close>

definition eip1559_fees :: "chain_config \<Rightarrow> priority \<Rightarrow> int \<Rightarrow> int \<Rightarrow> int option \<times> int option" where
  "eip1559_fees chain priority baseFee suggestedTip =
    (let (tipMultiplier, feeMultiplier) = (case priorityMultipliers priority of
            Some m \<Rightarrow> m | None \<Rightarrow> the (priorityMultipliers PriorityNormal));
         priorityFee0 = suggestedTip * tipMultiplier div 100;
         maxFee0 = baseFee * feeMultiplier div 100 + priorityFee0;
         priorityFee = clamp (Some priorityFee0) (ch_MinPriorityFee chain) (ch_MaxPriorityFee chain);
         maxFee = clamp (Some maxFee0) (ch_MinMaxFee chain) (ch_MaxMaxFee chain)
     in (if the maxFee < the priorityFee then priorityFee else maxFee, priorityFee))"

definition estimateEIP1559 ::
    "eth_client \<Rightarrow> chain_config \<Rightarrow> priority \<Rightarrow> u64 \<Rightarrow> world \<Rightarrow> (go_error + gas_params) \<times> world" where
  "estimateEIP1559 c chain priority gasLimit w =
    (case ec_LatestBaseFee c w of
       (Inl e, w1) \<Rightarrow> (Inl e, w1)
     | (Inr baseFee, w1) \<Rightarrow>
         (case ec_SuggestGasTipCap c w1 of
            (tip, w2) \<Rightarrow>
              (let suggestedTip = (case tip of Inl _ \<Rightarrow> 1000000000 | Inr t \<Rightarrow> t);
                   (maxFee, priorityFee) = eip1559_fees chain priority baseFee suggestedTip
               in (Inr \<lparr>gp_GasLimit = gasLimit, gp_MaxFeePerGas = maxFee,
                     gp_MaxPriorityFeePerGas = priorityFee, gp_GasPrice = None, gp_TxType = 2\<rparr>,
                   w2))))"

definition estimateLegacy ::
    "eth_client \<Rightarrow> chain_config \<Rightarrow> u64 \<Rightarrow> world \<Rightarrow> (go_error + gas_params) \<times> world" where
  "estimateLegacy c chain gasLimit w =
    (case ec_SuggestGasPrice c w of
       (Inl e, w1) \<Rightarrow> (Inl (Err (''gas price suggestion failed: '' @ err_text e)), w1)
     | (Inr gasPrice, w1) \<Rightarrow>
         (Inr \<lparr>gp_GasLimit = gasLimit, gp_MaxFeePerGas = None, gp_MaxPriorityFeePerGas = None,
            gp_GasPrice = clamp (Some gasPrice) (ch_MinMaxFee chain) (ch_MaxMaxFee chain),
            gp_TxType = 0\<rparr>, w1))"

definition Estimate ::
    "'key eth_lib \<Rightarrow> eth_client \<Rightarrow> chain_config \<Rightarrow> address \<Rightarrow> address \<Rightarrow> bytes option \<Rightarrow> int option
      \<Rightarrow> priority \<Rightarrow> world \<Rightarrow> (go_error + gas_params) \<times> world" where
  "Estimate L c chain src dst data value priority w =
    (case ec_EstimateGas c src dst data value w of
       (Inl e, w1) \<Rightarrow> (Inl (Err (''gas estimation failed: '' @ err_text e)), w1)
     | (Inr gasLimit0, w1) \<Rightarrow>
         (let gasLimit = scale_gas L gasLimit0 (ch_GasLimitMultiplier chain) in
          if ch_SupportsEIP1559 chain then
            (case estimateEIP1559 c chain priority gasLimit w1 of
               (Inr params, w2) \<Rightarrow> (Inr params, w2)
             | (Inl _, w2) \<Rightarrow> estimateLegacy c chain gasLimit w2)
          else estimateLegacy c chain gasLimit w1))"

section \<open>The bump of a replacement\<close>

definition bumpBigInt :: "int option \<Rightarrow> int \<Rightarrow> int option" where
  "bumpBigInt v pct = (case v of None \<Rightarrow> None | Some x \<Rightarrow> Some (x + x * pct div 100))"

definition bumpPct :: "int \<Rightarrow> int" where
  "bumpPct bumpNumber = (let p = 15 * bumpNumber in if p > 100 then 100 else p)"

definition BumpGas :: "gas_params \<Rightarrow> int \<Rightarrow> gas_params" where
  "BumpGas current bumpNumber =
    (let pct = bumpPct bumpNumber in
     if gp_TxType current = 2
     then current\<lparr>gp_MaxFeePerGas := bumpBigInt (gp_MaxFeePerGas current) pct,
       gp_MaxPriorityFeePerGas := bumpBigInt (gp_MaxPriorityFeePerGas current) pct\<rparr>
     else current\<lparr>gp_GasPrice := bumpBigInt (gp_GasPrice current) pct\<rparr>)"

section \<open>Facts about doubles\<close>

lemma ilog2_bounds: "0 < n \<Longrightarrow> 2 ^ ilog2 n \<le> n \<and> n < 2 ^ Suc (ilog2 n)"
proof (induction n rule: ilog2.induct)
  case (1 n)
  show ?case
  proof (cases "n < 2")
    case True
    with 1 show ?thesis by (simp add: ilog2.simps [of n])
  next
    case False
    with 1 have "2 ^ ilog2 (n div 2) \<le> n div 2" "n div 2 < 2 ^ Suc (ilog2 (n div 2))" by auto
    then have "2 * 2 ^ ilog2 (n div 2) \<le> n" "n < 2 * 2 ^ Suc (ilog2 (n div 2))"
      by linarith+
    with False show ?thesis by (simp add: ilog2.simps [of n])
  qed
qed

lemma round_even_ge:
  assumes "of_int k \<le> q"
  shows "k \<le> round_even q"
proof -
  have "k \<le> \<lfloor>q\<rfloor>" using assms by (simp add: le_floor_iff)
  moreover have "\<lfloor>q\<rfloor> \<le> round_even q" by (simp add: round_even_def Let_def)
  ultimately show ?thesis by simp
qed

lemma round_even_le: "of_int (round_even q) \<le> q + 1"
  by (auto simp: round_even_def Let_def) linarith+

lemma two_powi_pos [simp]: "0 < two_powi k"
  by (simp add: two_powi_def)

lemma f64_exp_bounds:
  assumes "1 \<le> x"
  shows "2 ^ nat (f64_exp x) \<le> x" and "0 \<le> f64_exp x"
proof -
  have "0 < nat \<lfloor>x\<rfloor>" using assms by simp
  from ilog2_bounds [OF this] have "2 ^ ilog2 (nat \<lfloor>x\<rfloor>) \<le> nat \<lfloor>x\<rfloor>" by simp
  then have "int (2 ^ ilog2 (nat \<lfloor>x\<rfloor>)) \<le> int (nat \<lfloor>x\<rfloor>)"
    by (simp only: of_nat_le_iff)
  then have "(2 :: int) ^ ilog2 (nat \<lfloor>x\<rfloor>) \<le> \<lfloor>x\<rfloor>"
    using assms by simp
  then have "of_int ((2 :: int) ^ ilog2 (nat \<lfloor>x\<rfloor>)) \<le> x" by (simp only: le_floor_iff)
  then show "2 ^ nat (f64_exp x) \<le> x" using assms by (simp add: f64_exp_def)
  show "0 \<le> f64_exp x" using assms by (simp add: f64_exp_def)
qed

text \<open>Rounding never goes below an integer that is exactly representable.\<close>

lemma f64_round_ge_int:
  assumes "of_nat n \<le> x" and "n < 2 ^ 53"
  shows "of_nat n \<le> f64_round x"
proof (cases "n = 0")
  case True
  have "0 \<le> f64_round_pos x" if "0 < x"
  proof -
    let ?ulp = "two_powi (f64_exp x - 52)"
    have "0 \<le> x / ?ulp" using that by (simp add: less_imp_le)
    then have "0 \<le> round_even (x / ?ulp)" using round_even_ge [of 0 "x / ?ulp"] by simp
    then show ?thesis
      by (simp add: f64_round_pos_def Let_def mult_nonneg_nonneg less_imp_le)
  qed
  with True assms show ?thesis by (simp add: f64_round_def)
next
  case False
  then have "(1 :: rat) \<le> of_nat n" by simp
  with assms(1) have x1: "1 \<le> x" by linarith
  define e where "e = f64_exp x"
  define ulp where "ulp = two_powi (e - 52)"
  have e0: "0 \<le> e" and ex: "2 ^ nat e \<le> x" using f64_exp_bounds [OF x1] by (auto simp: e_def)
  have "of_nat n \<le> of_int (round_even (x / ulp)) * ulp"
  proof (cases "e \<le> 52")
    case True
    then have ulp: "ulp * 2 ^ nat (52 - e) = 1"
      by (auto simp: ulp_def two_powi_def)
    have "of_int (int n * 2 ^ nat (52 - e)) \<le> x / ulp"
    proof -
      have "of_nat n * 2 ^ nat (52 - e) * ulp \<le> x"
        using assms(1) ulp by (simp add: mult.assoc mult.commute [of "2 ^ _"])
      then show ?thesis by (simp add: ulp_def pos_le_divide_eq)
    qed
    from round_even_ge [OF this]
    have "(of_int (int n * 2 ^ nat (52 - e)) :: rat) \<le> of_int (round_even (x / ulp))"
      by (simp only: of_int_le_iff)
    then have "of_int (int n * 2 ^ nat (52 - e)) * ulp \<le> of_int (round_even (x / ulp)) * ulp"
      by (rule mult_right_mono) (simp add: ulp_def less_imp_le)
    then show ?thesis using ulp by (simp add: mult.assoc mult.commute [of "2 ^ _"])
  next
    case False
    then have ulp: "ulp = 2 ^ nat (e - 52)" by (simp add: ulp_def two_powi_def)
    have "nat e = 52 + nat (e - 52)" using False by simp
    then have "(2 :: rat) ^ 52 * ulp \<le> x" using ex ulp by (metis power_add)
    then have "of_int (2 ^ 52) \<le> x / ulp" using ulp by (simp add: pos_le_divide_eq)
    from round_even_ge [OF this]
    have "(of_int (2 ^ 52) :: rat) \<le> of_int (round_even (x / ulp))" by (simp only: of_int_le_iff)
    moreover have "2 \<le> ulp"
    proof -
      have "(2 :: rat) ^ 1 \<le> 2 ^ nat (e - 52)" using False by (intro power_increasing) auto
      then show ?thesis using ulp by simp
    qed
    ultimately have "2 ^ 52 * 2 \<le> of_int (round_even (x / ulp)) * ulp"
      by (intro mult_mono) auto
    moreover have "(of_nat n :: rat) \<le> of_nat (2 ^ 53)" using assms(2)
      by (simp only: of_nat_le_iff)
    ultimately show ?thesis by simp
  qed
  then show ?thesis using x1 by (simp add: f64_round_def f64_round_pos_def Let_def e_def ulp_def)
qed

text \<open>Nor does it more than double a value.\<close>

lemma f64_round_le_double:
  assumes "1 \<le> x"
  shows "f64_round x \<le> 2 * x"
proof -
  define e where "e = f64_exp x"
  define ulp where "ulp = two_powi (e - 52)"
  have ulp0: "0 < ulp" by (simp add: ulp_def)
  have e0: "0 \<le> e" and ex: "2 ^ nat e \<le> x" using f64_exp_bounds [OF assms] by (auto simp: e_def)
  have "ulp \<le> 2 ^ nat e"
  proof (cases "52 \<le> e")
    case True
    then have "ulp = 2 ^ nat (e - 52)" by (simp add: ulp_def two_powi_def)
    also have "(2 :: rat) ^ nat (e - 52) \<le> 2 ^ nat e" by (intro power_increasing) auto
    finally show ?thesis .
  next
    case False
    then have "ulp \<le> 1" by (simp add: ulp_def two_powi_def)
    also have "(1 :: rat) \<le> 2 ^ nat e" by simp
    finally show ?thesis .
  qed
  with ex have ulp: "ulp \<le> x" by simp
  have "of_int (round_even (x / ulp)) * ulp \<le> (x / ulp + 1) * ulp"
    using round_even_le [of "x / ulp"] ulp0 by (intro mult_right_mono) auto
  also have "\<dots> = x + ulp" using ulp0 by (simp add: distrib_right)
  finally have "f64_round x \<le> x + ulp"
    using assms by (simp add: f64_round_def f64_round_pos_def Let_def e_def ulp_def)
  with ulp show ?thesis by simp
qed

section \<open>Facts about fees\<close>

definition in_bounds :: "int option \<Rightarrow> int option \<Rightarrow> int \<Rightarrow> bool" where
  "in_bounds lo hi x \<longleftrightarrow> (\<forall>m. lo = Some m \<longrightarrow> m \<le> x) \<and> (\<forall>m. hi = Some m \<longrightarrow> x \<le> m)"

definition ordered_bounds :: "int option \<Rightarrow> int option \<Rightarrow> bool" where
  "ordered_bounds lo hi \<longleftrightarrow> (\<forall>m n. lo = Some m \<longrightarrow> hi = Some n \<longrightarrow> m \<le> n)"

lemma clamp_Some: "\<exists>y. clamp (Some x) lo hi = Some y"
  by (auto simp: clamp_def split: option.splits)

lemma clamp_in_bounds:
  "ordered_bounds lo hi \<Longrightarrow> clamp (Some x) lo hi = Some y \<Longrightarrow> in_bounds lo hi y"
  by (auto simp: clamp_def in_bounds_def ordered_bounds_def split: option.splits if_splits)

lemma clamp_id: "in_bounds lo hi x \<Longrightarrow> clamp (Some x) lo hi = Some x"
  by (auto simp: clamp_def in_bounds_def split: option.splits)

definition sane_fee_config :: "chain_config \<Rightarrow> bool" where
  "sane_fee_config chain \<longleftrightarrow> ordered_bounds (ch_MinMaxFee chain) (ch_MaxMaxFee chain)
     \<and> ordered_bounds (ch_MinPriorityFee chain) (ch_MaxPriorityFee chain)
     \<and> (\<forall>m. ch_MaxMaxFee chain = Some m \<longrightarrow>
          (\<exists>p. ch_MaxPriorityFee chain = Some p \<and> p \<le> m))"

text \<open>
  A pair of a maximal fee and a priority fee keeps the bounds: where they are ordered, the priority fee
  keeps its own, the maximal fee its lower one, and its upper one unless the priority fee exceeds that,
  which a sane configuration excludes.
\<close>

definition fees_bounded :: "chain_config \<Rightarrow> int \<Rightarrow> int \<Rightarrow> bool" where
  "fees_bounded chain m p \<longleftrightarrow> p \<le> m
     \<and> (ordered_bounds (ch_MinPriorityFee chain) (ch_MaxPriorityFee chain) \<longrightarrow>
          in_bounds (ch_MinPriorityFee chain) (ch_MaxPriorityFee chain) p)
     \<and> (ordered_bounds (ch_MinMaxFee chain) (ch_MaxMaxFee chain) \<longrightarrow>
          in_bounds (ch_MinMaxFee chain) None m
          \<and> (in_bounds None (ch_MaxMaxFee chain) m \<or> m = p \<and> \<not> in_bounds None (ch_MaxMaxFee chain) p))
     \<and> (sane_fee_config chain \<longrightarrow> in_bounds (ch_MinMaxFee chain) (ch_MaxMaxFee chain) m)"

lemma clamped_fees_bounded:
  assumes "ordered_bounds (ch_MinPriorityFee chain) (ch_MaxPriorityFee chain) \<Longrightarrow>
      in_bounds (ch_MinPriorityFee chain) (ch_MaxPriorityFee chain) p"
    and "ordered_bounds (ch_MinMaxFee chain) (ch_MaxMaxFee chain) \<Longrightarrow>
      in_bounds (ch_MinMaxFee chain) (ch_MaxMaxFee chain) m"
  shows "fees_bounded chain (if m < p then p else m) p"
proof (cases "m < p")
  case True
  have "in_bounds (ch_MinMaxFee chain) (ch_MaxMaxFee chain) p" if "sane_fee_config chain"
    using that assms True by (force simp: sane_fee_config_def in_bounds_def)
  moreover have "in_bounds (ch_MinMaxFee chain) None p" if "ordered_bounds (ch_MinMaxFee chain) (ch_MaxMaxFee chain)"
    using assms(2) [OF that] True by (force simp: in_bounds_def)
  ultimately show ?thesis using True assms(1) by (auto simp: fees_bounded_def)
next
  case False
  then show ?thesis using assms by (auto simp: fees_bounded_def in_bounds_def sane_fee_config_def)
qed

lemma eip1559_fees_bounds:
  assumes "eip1559_fees chain priority baseFee tip = (mf, pf)"
  shows "\<exists>m p. mf = Some m \<and> pf = Some p \<and> fees_bounded chain m p"
proof -
  obtain a b where ab: "(case priorityMultipliers priority of
      Some m \<Rightarrow> m | None \<Rightarrow> the (priorityMultipliers PriorityNormal)) = (a, b)"
    by (cases "case priorityMultipliers priority of
      Some m \<Rightarrow> m | None \<Rightarrow> the (priorityMultipliers PriorityNormal)")
  let ?p0 = "tip * a div 100"
  obtain p where p: "clamp (Some ?p0) (ch_MinPriorityFee chain) (ch_MaxPriorityFee chain) = Some p"
    using clamp_Some by blast
  obtain m where
    m: "clamp (Some (baseFee * b div 100 + ?p0)) (ch_MinMaxFee chain) (ch_MaxMaxFee chain) = Some m"
    using clamp_Some by blast
  have "mf = Some (if m < p then p else m)" "pf = Some p"
    using assms ab p m by (auto simp: eip1559_fees_def Let_def)
  then show ?thesis
    using clamped_fees_bounded [OF clamp_in_bounds [OF _ p] clamp_in_bounds [OF _ m]] by blast
qed

text \<open>An uncapped priority fee lifts the maximal fee above its configured maximum.\<close>

lemma priority_fee_lifts_maximum:
  assumes "ch_MinPriorityFee chain = None" and "ch_MaxPriorityFee chain = None"
    and "ch_MinMaxFee chain = None" and "ch_MaxMaxFee chain = Some m" and "m < tip" and "0 \<le> baseFee"
  shows "eip1559_fees chain PriorityNormal baseFee tip = (Some tip, Some tip)"
  using assms by (simp add: eip1559_fees_def priorityMultipliers_def clamp_def Let_def)

text \<open>The gas engine reads the chain and changes neither database nor mempool.\<close>

context rpc_client
begin

lemma quiet_estimateEIP1559: "estimateEIP1559 c chain p gl w = (r, v) \<Longrightarrow> quiet w v"
  by (auto simp: estimateEIP1559_def Let_def split: sum.splits prod.splits
      dest!: quiet_LatestBaseFee quiet_SuggestGasTipCap intro: quiet_trans)

lemma quiet_estimateLegacy: "estimateLegacy c chain gl w = (r, v) \<Longrightarrow> quiet w v"
  by (auto simp: estimateLegacy_def split: sum.splits prod.splits dest!: quiet_SuggestGasPrice)

lemma quiet_Estimate: "Estimate L c chain a b data val p w = (r, v) \<Longrightarrow> quiet w v"
  by (auto simp: Estimate_def Let_def split: sum.splits prod.splits if_splits
      dest!: quiet_EstimateGas quiet_estimateEIP1559 quiet_estimateLegacy intro: quiet_trans)

end

lemma bumpPct_range: "1 \<le> n \<Longrightarrow> 15 \<le> bumpPct n \<and> bumpPct n \<le> 100"
  by (auto simp: bumpPct_def Let_def)

lemma bump_at_least:
  fixes x :: int
  assumes "15 \<le> pct" and "20 \<le> x"
  shows "11 * x \<le> 10 * (x + x * pct div 100)"
proof -
  have "x * 15 \<le> x * pct" using assms by (intro mult_left_mono) auto
  then have "x * 15 div 100 \<le> x * pct div 100" by (rule zdiv_mono1) simp
  moreover have "x \<le> 10 * (x * 15 div 100)" using assms(2) by arith
  ultimately show ?thesis by simp
qed

lemma bump_at_most:
  fixes x :: int
  assumes "pct \<le> 100" and "0 \<le> x"
  shows "x + x * pct div 100 \<le> 2 * x"
proof -
  have "x * pct \<le> x * 100" using assms by (intro mult_left_mono) auto
  then have "x * pct div 100 \<le> x * 100 div 100" by (rule zdiv_mono1) simp
  then show ?thesis by simp
qed

lemma bump_step:
  fixes x :: int
  assumes "1000 \<le> x" and "999 + 10 * p = k"
  shows "k * x \<le> 1000 * (x + x * p div 100)"
proof -
  define e q r where "e = x * p" and "q = e div 100" and "r = e mod 100"
  have "100 * q + r = e" unfolding q_def r_def by (rule mult_div_mod_eq)
  moreover have "r < 100" unfolding r_def by simp
  ultimately have "999 * x + 10 * e \<le> 1000 * x + 1000 * q" using assms(1) by linarith
  moreover have "k * x = 999 * x + 10 * e"
    unfolding assms(2) [symmetric] e_def by (simp add: algebra_simps)
  ultimately have "k * x \<le> 1000 * (x + q)" by (simp only: distrib_left)
  then show ?thesis by (simp only: q_def e_def)
qed

lemma BumpGas_legacy:
  "gp_TxType gp = 0 \<Longrightarrow> gp_GasPrice gp = Some x \<Longrightarrow>
    BumpGas gp n = gp\<lparr>gp_GasPrice := Some (x + x * bumpPct n div 100)\<rparr>"
  by (simp add: BumpGas_def bumpBigInt_def Let_def)

section \<open>Properties\<close>

text \<open>With a multiplier of at least one the gas limit is never below the node's estimate, although
  the product is computed in doubles and truncated (estimates below \<open>2^53\<close>, products below \<open>2^61\<close>).\<close>

lemma scale_gas_never_below_estimate:
  assumes "unat g < 2 ^ 53" and "1 \<le> m" and "of_nat (unat g) * m < 2 ^ 61"
  shows "g \<le> scale_gas L g m"
proof (cases "unat g = 0")
  case True
  then have "g = 0" by (simp add: unat_eq_0)
  then show ?thesis by simp
next
  case False
  then have g1: "(1 :: rat) \<le> of_nat (unat g)" by linarith
  define x where "x = f64_round (of_nat (unat g))"
  have x: "of_nat (unat g) \<le> x" "x \<le> 2 * of_nat (unat g)"
    using f64_round_ge_int [of "unat g" "of_nat (unat g)"] assms(1) f64_round_le_double [OF g1]
    by (auto simp: x_def)
  have xm: "of_nat (unat g) \<le> x * m"
    using x(1) assms(2) g1 mult_mono [of "of_nat (unat g)" x 1 m] by simp
  then have xm1: "1 \<le> x * m" using g1 by linarith
  have "x * m \<le> 2 * of_nat (unat g) * m"
    using x(2) assms(2) by (intro mult_right_mono) auto
  with assms(3) have up: "x * m < 2 ^ 62" by simp
  define y where "y = f64_round (x * m)"
  have y: "of_nat (unat g) \<le> y" "y < 2 ^ 64"
    using f64_round_ge_int [OF xm assms(1)] f64_round_le_double [OF xm1] up by (auto simp: y_def)
  have "(of_int (int (unat g)) :: rat) \<le> y" using y(1) by (simp only: of_int_of_nat_eq)
  then have "int (unat g) \<le> \<lfloor>y\<rfloor>" by (simp only: le_floor_iff)
  then have fl: "uint g \<le> \<lfloor>y\<rfloor>" by (simp only: uint_nat)
  have "\<lfloor>y\<rfloor> < 2 ^ 64" using y(2) by (simp add: floor_less_iff)
  moreover have "0 \<le> \<lfloor>y\<rfloor>" using fl uint_ge_0 order_trans by blast
  ultimately have "\<lfloor>y\<rfloor> mod 2 ^ 64 = \<lfloor>y\<rfloor>" by (intro mod_pos_pos_trivial)
  then have "uint (word_of_int \<lfloor>y\<rfloor> :: u64) = \<lfloor>y\<rfloor>"
    by (simp only: uint_word_of_int) simp
  moreover have "scale_gas L g m = word_of_int \<lfloor>y\<rfloor>"
    using y g1 by (simp add: scale_gas_def f64_to_u64_def y_def x_def)
  ultimately show ?thesis using fl by (simp only: word_le_def)
qed

lemma scale_gas_never_below_estimate_witness:
  "(21000 :: u64) \<le> scale_gas sample_lib 21000 (6 / 5)"
  by (rule scale_gas_never_below_estimate) simp_all

text \<open>C37: Whatever the node suggests and whatever the priority, the fees of an estimate respect the
  configured bounds where these are ordered: an EIP-1559 estimate has a priority fee within its
  bounds and a maximal fee not below it, at least the configured minimum, and at most the configured
  maximum unless the priority fee already exceeds that; the maximal fee is then the priority fee.
  (With a sane configuration, whose priority fee is capped at the maximal fee, that does not happen.)
  A legacy estimate has a price within the maximal-fee bounds. No other form is produced, and neither
  database nor mempool is touched.\<close>

theorem Estimate_fees_in_bounds:
  assumes "Estimate L (Client cid) chain src dst data val priority w = (Inr gp, v)"
  shows "(gp_TxType gp = 2 \<and> ch_SupportsEIP1559 chain \<and> gp_GasPrice gp = None
      \<and> (\<exists>m p. gp_MaxFeePerGas gp = Some m \<and> gp_MaxPriorityFeePerGas gp = Some p \<and> fees_bounded chain m p)
    \<or> gp_TxType gp = 0 \<and> gp_MaxFeePerGas gp = None \<and> gp_MaxPriorityFeePerGas gp = None
      \<and> (\<exists>p. gp_GasPrice gp = Some p \<and> (ordered_bounds (ch_MinMaxFee chain) (ch_MaxMaxFee chain) \<longrightarrow>
          in_bounds (ch_MinMaxFee chain) (ch_MaxMaxFee chain) p)))
    \<and> w_db v = w_db w \<and> w_sent v = w_sent w"
proof -
  have q: "quiet w v" using assms by (rule pool.quiet_Estimate)
  have leg: "gp_TxType gp = 0 \<and> gp_MaxFeePerGas gp = None \<and> gp_MaxPriorityFeePerGas gp = None
      \<and> (\<exists>p. gp_GasPrice gp = Some p \<and> (ordered_bounds (ch_MinMaxFee chain) (ch_MaxMaxFee chain) \<longrightarrow>
          in_bounds (ch_MinMaxFee chain) (ch_MaxMaxFee chain) p))"
    if "estimateLegacy (Client cid) chain gl u = (Inr gp, u')" for gl u u'
    using that clamp_Some clamp_in_bounds
    by (fastforce simp: estimateLegacy_def split: sum.splits prod.splits)
  have dyn: "gp_TxType gp = 2 \<and> gp_GasPrice gp = None
      \<and> (\<exists>m p. gp_MaxFeePerGas gp = Some m \<and> gp_MaxPriorityFeePerGas gp = Some p \<and> fees_bounded chain m p)"
    if "estimateEIP1559 (Client cid) chain priority gl u = (Inr gp, u')" for gl u u'
    using that eip1559_fees_bounds [of chain priority]
    by (fastforce simp: estimateEIP1559_def Let_def split: sum.splits prod.splits)
  show ?thesis
    using assms q leg dyn
    by (auto simp: Estimate_def Let_def quiet_def rpc_frame_def
        split: sum.splits prod.splits if_splits)
qed

theorem Estimate_fees_in_bounds_witness:
  "\<exists>gp v. Estimate sample_lib (Client 1) sample_chain 1 2 None (Some 1) PriorityNormal
       (sample_world one_up empty_db) = (Inr gp, v) \<and> gp_TxType gp = 2 \<and> w_sent v = []
     \<and> (\<exists>m. gp_MaxFeePerGas gp = Some m \<and> 10 \<le> m \<and> m \<le> 100000)"
proof -
  let ?w = "sample_world one_up empty_db"
  have "ch_SupportsEIP1559 sample_chain" by (simp add: sample_chain_def)
  then have "gp_TxType (case fst (Estimate sample_lib (Client 1) sample_chain 1 2 None (Some 1)
      PriorityNormal ?w) of Inl _ \<Rightarrow> zero_gas_params | Inr gp \<Rightarrow> gp) = 2"
    by (simp add: Estimate_def estimateEIP1559_def Client_def EstimateGas_def LatestBaseFee_def
        SuggestGasTipCap_def rpc_call_def getClient_def sample_world_def one_up_def
        sample_nodes_def Let_def case_prod_unfold)
  then obtain gp v where e: "Estimate sample_lib (Client 1) sample_chain 1 2 None (Some 1)
      PriorityNormal ?w = (Inr gp, v)" and t: "gp_TxType gp = 2"
    by (cases "Estimate sample_lib (Client 1) sample_chain 1 2 None (Some 1) PriorityNormal ?w")
      (auto simp: zero_gas_params_def split: sum.splits)
  have "sane_fee_config sample_chain"
    by (simp add: sane_fee_config_def ordered_bounds_def sample_chain_def)
  moreover have "ch_MinMaxFee sample_chain = Some 10" "ch_MaxMaxFee sample_chain = Some 100000"
    by (simp_all add: sample_chain_def)
  ultimately show ?thesis
    using Estimate_fees_in_bounds [OF e] e t by (auto simp: fees_bounded_def in_bounds_def sample_world_def)
qed

text \<open>A gas estimate fails only when the node refuses to estimate the call, or when the legacy
  price is needed and not available: a failing EIP-1559 estimate falls back to legacy pricing
  instead of failing the transaction.\<close>

theorem Estimate_falls_back:
  assumes "ec_EstimateGas c src dst data val w = (Inr g, w1)"
    and "ch_SupportsEIP1559 chain" and "ec_LatestBaseFee c w1 = (Inl e, w2)"
    and "ec_SuggestGasPrice c w2 = (Inr price, w3)"
  shows "Estimate L c chain src dst data val priority w =
    (Inr \<lparr>gp_GasLimit = scale_gas L g (ch_GasLimitMultiplier chain), gp_MaxFeePerGas = None,
       gp_MaxPriorityFeePerGas = None,
       gp_GasPrice = clamp (Some price) (ch_MinMaxFee chain) (ch_MaxMaxFee chain),
       gp_TxType = 0\<rparr>, w3)"
  using assms by (simp add: Estimate_def estimateEIP1559_def estimateLegacy_def Let_def)

theorem Estimate_falls_back_witness:
  "fst (Estimate sample_lib (Client 1) sample_chain 1 2 None (Some 1) PriorityNormal
     ((sample_world one_up empty_db)
       \<lparr>w_rpc := sample_nodes\<lparr>rpc_LatestBaseFee := (\<lambda>_ _. Inr None)\<rparr>\<rparr>)) =
   Inr \<lparr>gp_GasLimit = scale_gas sample_lib 21000 (6 / 5), gp_MaxFeePerGas = None,
     gp_MaxPriorityFeePerGas = None, gp_GasPrice = Some 1000, gp_TxType = 0\<rparr>"
proof -
  let ?w = "(sample_world one_up empty_db)
    \<lparr>w_rpc := sample_nodes\<lparr>rpc_LatestBaseFee := (\<lambda>_ _. Inr None)\<rparr>\<rparr>"
  note defs = Client_def EstimateGas_def LatestBaseFee_def SuggestGasPrice_def rpc_call_def
    getClient_def sample_world_def one_up_def sample_nodes_def
  have 1: "ec_EstimateGas (Client 1) 1 2 None (Some 1) ?w = (Inr 21000, tick ?w)"
    by (simp add: defs)
  have 2: "ec_LatestBaseFee (Client 1) (tick ?w)
      = (Inl (Err (''chain '' @ u64_dec 1 @ '' does not support EIP-1559'')), tick (tick ?w))"
    by (simp add: defs)
  have 3: "ec_SuggestGasPrice (Client 1) (tick (tick ?w)) = (Inr 1000, tick (tick (tick ?w)))"
    by (simp add: defs)
  have "ch_SupportsEIP1559 sample_chain" by (simp add: sample_chain_def)
  from Estimate_falls_back [OF 1 this 2 3, of sample_lib PriorityNormal] show ?thesis
    by (simp add: sample_chain_def clamp_def)
qed

text \<open>The n-th bump of a fee: 15 percent more for each bump, at most double, rounded down to whole wei.\<close>

definition bumped :: "int \<Rightarrow> int \<Rightarrow> int \<Rightarrow> bool" where
  "bumped n x y \<longleftrightarrow> y = x * (100 + min 100 (15 * n)) div 100"

lemma bumped_fee: "bumped n x (x + x * bumpPct n div 100)"
proof -
  have "bumpPct n = min 100 (15 * n)" by (simp add: bumpPct_def Let_def)
  moreover have "x * (100 + k) div 100 = x + x * k div 100" for k :: int
    by (simp add: distrib_left)
  ultimately show ?thesis by (simp only: bumped_def)
qed

text \<open>C38: The n-th bump multiplies every fee of the transaction's form that is set by one and 15 n
  hundredths, at most by two, and rounds down to whole wei: no fee falls or more than doubles, and
  every fee of 20 wei or more rises by at least the tenth that nodes ask of a replacement. The gas
  limit, the form of the transaction, the other fees and those that are not set stay.\<close>

theorem BumpGas_replaces:
  assumes "1 \<le> n"
  shows "gp_GasLimit (BumpGas gp n) = gp_GasLimit gp \<and> gp_TxType (BumpGas gp n) = gp_TxType gp
    \<and> (gp_TxType gp = 2 \<longrightarrow>
        gp_GasPrice (BumpGas gp n) = gp_GasPrice gp
        \<and> rel_option (\<lambda>x y. bumped n x y \<and> (0 \<le> x \<longrightarrow> x \<le> y \<and> y \<le> 2 * x) \<and> (20 \<le> x \<longrightarrow> 11 * x \<le> 10 * y))
            (gp_MaxFeePerGas gp) (gp_MaxFeePerGas (BumpGas gp n))
        \<and> rel_option (\<lambda>x y. bumped n x y \<and> (0 \<le> x \<longrightarrow> x \<le> y \<and> y \<le> 2 * x) \<and> (20 \<le> x \<longrightarrow> 11 * x \<le> 10 * y))
            (gp_MaxPriorityFeePerGas gp) (gp_MaxPriorityFeePerGas (BumpGas gp n)))
    \<and> (gp_TxType gp \<noteq> 2 \<longrightarrow>
        gp_MaxFeePerGas (BumpGas gp n) = gp_MaxFeePerGas gp
        \<and> gp_MaxPriorityFeePerGas (BumpGas gp n) = gp_MaxPriorityFeePerGas gp
        \<and> rel_option (\<lambda>x y. bumped n x y \<and> (0 \<le> x \<longrightarrow> x \<le> y \<and> y \<le> 2 * x) \<and> (20 \<le> x \<longrightarrow> 11 * x \<le> 10 * y))
            (gp_GasPrice gp) (gp_GasPrice (BumpGas gp n)))"
proof -
  have up: "x \<le> x + x * bumpPct n div 100" if "0 \<le> x" for x
    using that bumpPct_range [OF assms] by (simp add: pos_imp_zdiv_nonneg_iff)
  have b: "rel_option (\<lambda>x y. bumped n x y \<and> (0 \<le> x \<longrightarrow> x \<le> y \<and> y \<le> 2 * x) \<and> (20 \<le> x \<longrightarrow> 11 * x \<le> 10 * y))
      v (bumpBigInt v (bumpPct n))" for v
    using bumpPct_range [OF assms] bump_at_least bump_at_most up bumped_fee
    by (cases v) (simp_all add: bumpBigInt_def)
  show ?thesis by (simp add: BumpGas_def Let_def b)
qed

definition sample_legacy_gas :: gas_params where
  "sample_legacy_gas = zero_gas_params\<lparr>gp_GasPrice := Some 1000\<rparr>"

theorem BumpGas_replaces_witness:
  "gp_GasLimit (BumpGas sample_legacy_gas 2) = 0
     \<and> gp_GasPrice (BumpGas sample_legacy_gas 2) = Some 1300"
  using BumpGas_replaces [of 2 sample_legacy_gas]
  by (auto simp: sample_legacy_gas_def zero_gas_params_def bumped_def option_rel_Some1)

text \<open>A fee below 7 wei is not raised by the first bump at all, although the bump is documented
  as an increase of at least 15 percent: the replacement has the same price.\<close>

theorem BumpGas_small_fee_unchanged:
  assumes "gp_GasPrice gp = Some x" and "0 \<le> x" and "x < 7" and "gp_TxType gp = 0"
  shows "BumpGas gp 1 = gp"
proof -
  have "x * 15 div 100 = 0" using assms(2,3) by auto
  then show ?thesis using assms by (simp add: BumpGas_def bumpBigInt_def bumpPct_def)
qed

theorem BumpGas_small_fee_unchanged_witness:
  "BumpGas (zero_gas_params\<lparr>gp_GasPrice := Some 6\<rparr>) 1 = zero_gas_params\<lparr>gp_GasPrice := Some 6\<rparr>"
  by (rule BumpGas_small_fee_unchanged [where x = 6]) (simp_all add: zero_gas_params_def)

text \<open>Each bump starts from the fees of the previous attempt, so the percentages multiply: after
  the five bumps the price is more than six times the original, not capped at double.\<close>

theorem five_bumps_exceed_sixfold:
  assumes "gp_TxType gp = 0" and "gp_GasPrice gp = Some x" and "1000 \<le> x"
  shows "\<exists>y. gp_GasPrice (foldl BumpGas gp [1, 2, 3, 4, 5]) = Some y \<and> 6 * x \<le> y"
proof -
  define x1 where "x1 = x + x * bumpPct 1 div 100"
  define x2 where "x2 = x1 + x1 * bumpPct 2 div 100"
  define x3 where "x3 = x2 + x2 * bumpPct 3 div 100"
  define x4 where "x4 = x3 + x3 * bumpPct 4 div 100"
  define x5 where "x5 = x4 + x4 * bumpPct 5 div 100"
  have "gp_GasPrice (foldl BumpGas gp [1, 2, 3, 4, 5]) = Some x5"
    by (simp add: assms(1,2) BumpGas_legacy x1_def [symmetric] x2_def [symmetric]
        x3_def [symmetric] x4_def [symmetric] x5_def [symmetric])
  moreover have "6 * x \<le> x5"
  proof -
    have 1: "1149 * x \<le> 1000 * x1" unfolding x1_def using assms(3) by (rule bump_step) (simp add: bumpPct_def)
    then have g1: "1000 \<le> x1" using assms(3) by linarith
    then have 2: "1299 * x1 \<le> 1000 * x2" unfolding x2_def by (rule bump_step) (simp add: bumpPct_def)
    then have g2: "1000 \<le> x2" using g1 by linarith
    then have 3: "1449 * x2 \<le> 1000 * x3" unfolding x3_def by (rule bump_step) (simp add: bumpPct_def)
    then have g3: "1000 \<le> x3" using g2 by linarith
    then have 4: "1599 * x3 \<le> 1000 * x4" unfolding x4_def by (rule bump_step) (simp add: bumpPct_def)
    then have g4: "1000 \<le> x4" using g3 by linarith
    then have 5: "1749 * x4 \<le> 1000 * x5" unfolding x5_def by (rule bump_step) (simp add: bumpPct_def)
    from 1 2 3 4 5 assms(3) show ?thesis by linarith
  qed
  ultimately show ?thesis by blast
qed

theorem five_bumps_exceed_sixfold_witness:
  "\<exists>y. gp_GasPrice (foldl BumpGas sample_legacy_gas [1, 2, 3, 4, 5]) = Some y \<and> 6 * 1000 \<le> y"
  by (rule five_bumps_exceed_sixfold) (simp_all add: sample_legacy_gas_def zero_gas_params_def)

end
