(* ===== verification/Signer.thy ===== *)
theory Signer
  imports Fixtures
begin

text \<open>
  internal/infrastructure/ethereum/signer.go: the signer that holds the keys in memory, the
  interface \<open>domain.Signer\<close> as a record, its contract as a locale, and the construction of the
  transaction to sign, which the pipeline and the stuck detector share.
\<close>

section \<open>The interface domain.Signer\<close>

record signer =
  sg_Sign :: "address \<Rightarrow> eth_tx \<Rightarrow> int \<Rightarrow> go_error + signed_tx"
  sg_HasAddress :: "address \<Rightarrow> bool"
  sg_Addresses :: "world \<Rightarrow> address list"

section \<open>The local signer\<close>

text \<open>The Go map from addresses to private keys, as an association list without duplicate keys.\<close>

type_synonym 'key key_map = "(address \<times> 'key) list"

definition Sign ::
    "'key eth_lib \<Rightarrow> 'key key_map \<Rightarrow> address \<Rightarrow> eth_tx \<Rightarrow> int \<Rightarrow> go_error + signed_tx" where
  "Sign L keys sender tx chainID =
    (case map_of keys sender of
       None \<Rightarrow> Inl (Err (''no key for address '' @ Address_Hex L sender))
     | Some key \<Rightarrow>
         (case SignTx L tx chainID key of
            Inl e \<Rightarrow> Inl (Err (''signing failed: '' @ err_text e))
          | Inr sig \<Rightarrow> Inr \<lparr>st_inner = tx, st_sig = sig\<rparr>))"

definition HasAddress :: "'key key_map \<Rightarrow> address \<Rightarrow> bool" where
  "HasAddress keys addr = (map_of keys addr \<noteq> None)"

text \<open>\<open>Addresses\<close> ranges over the map, so its order is the environment's.\<close>

definition Addresses :: "'key key_map \<Rightarrow> world \<Rightarrow> address list" where
  "Addresses keys w = range_order (remdups (map fst keys)) w"

definition LocalSigner :: "'key eth_lib \<Rightarrow> 'key key_map \<Rightarrow> signer" where
  "LocalSigner L keys = \<lparr>sg_Sign = Sign L keys, sg_HasAddress = HasAddress keys,
     sg_Addresses = Addresses keys\<rparr>"

section \<open>The contract\<close>

text \<open>
  A signer signs the transaction it was given and no other, only for an address it has, and lists
  exactly the addresses it has, each once.
\<close>

locale tx_signer =
  fixes sg :: signer
  assumes sign_inner: "sg_Sign sg a tx c = Inr s \<Longrightarrow> st_inner s = tx"
    and sign_own: "sg_Sign sg a tx c = Inr s \<Longrightarrow> sg_HasAddress sg a"
    and addresses_own: "set (sg_Addresses sg w) = {a. sg_HasAddress sg a}"
    and addresses_distinct: "distinct (sg_Addresses sg w)"

interpretation local: tx_signer "LocalSigner L keys"
proof
  show "set (sg_Addresses (LocalSigner L keys) w) = {a. sg_HasAddress (LocalSigner L keys) a}" for w
    by (simp add: LocalSigner_def HasAddress_def Addresses_def del: not_None_eq)
      (simp add: map_of_eq_None_iff)
qed (auto simp: LocalSigner_def Sign_def HasAddress_def Addresses_def split: option.splits sum.splits)

section \<open>The transaction to sign\<close>

text \<open>
  Both \<open>buildAndSign\<close> and \<open>bumpGas\<close> choose the form of the transaction by the type of the gas
  parameters.
\<close>

definition build_tx ::
    "u64 \<Rightarrow> u64 \<Rightarrow> gas_params \<Rightarrow> address \<Rightarrow> int option \<Rightarrow> bytes option \<Rightarrow> eth_tx" where
  "build_tx chainID nonce gas toAddr value data =
    (if gp_TxType gas = 2 then
       DynamicFeeTx \<lparr>df_ChainID = int (unat chainID), df_Nonce = nonce,
         df_GasTipCap = gp_MaxPriorityFeePerGas gas, df_GasFeeCap = gp_MaxFeePerGas gas,
         df_Gas = gp_GasLimit gas, df_To = toAddr, df_Value = value, df_Data = data\<rparr>
     else
       LegacyTx \<lparr>lg_Nonce = nonce, lg_GasPrice = gp_GasPrice gas, lg_Gas = gp_GasLimit gas,
         lg_To = toAddr, lg_Value = value, lg_Data = data\<rparr>)"

fun eth_tx_to :: "eth_tx \<Rightarrow> address" where
  "eth_tx_to (DynamicFeeTx t) = df_To t"
| "eth_tx_to (LegacyTx t) = lg_To t"

fun eth_tx_value :: "eth_tx \<Rightarrow> int option" where
  "eth_tx_value (DynamicFeeTx t) = df_Value t"
| "eth_tx_value (LegacyTx t) = lg_Value t"

fun eth_tx_data :: "eth_tx \<Rightarrow> bytes option" where
  "eth_tx_data (DynamicFeeTx t) = df_Data t"
| "eth_tx_data (LegacyTx t) = lg_Data t"

lemma build_tx_fields [simp]:
  "eth_tx_nonce (build_tx c n g a v d) = n" "eth_tx_to (build_tx c n g a v d) = a"
  "eth_tx_value (build_tx c n g a v d) = v" "eth_tx_data (build_tx c n g a v d) = d"
  by (simp_all add: build_tx_def)

end
