(* ===== verification/Pipeline.thy ===== *)
theory Pipeline
  imports RepoFacts Gas Signer
begin

text \<open>
  internal/pipeline/pipeline.go: the pipeline of one (sender, chain) pair, which claims a queued
  transaction, assigns its nonce, estimates gas, signs, stores the attempt, broadcasts and marks
  the transaction as submitted, with every early return of the code.
\<close>

section \<open>The pipeline\<close>

text \<open>The repository is the database of the world, the notification channel its \<open>w_notify\<close>.\<close>

record pipeline =
  pl_sender :: address
  pl_chain :: chain_config
  pl_client :: eth_client
  pl_signer :: signer

definition NewPipeline ::
    "address \<Rightarrow> chain_config \<Rightarrow> eth_client \<Rightarrow> signer \<Rightarrow> pipeline" where
  "NewPipeline sender chain client sg =
     \<lparr>pl_sender = sender, pl_chain = chain, pl_client = client, pl_signer = sg\<rparr>"

definition pl_chainID :: "pipeline \<Rightarrow> u64" where
  "pl_chainID p = ch_ChainID (pl_chain p)"

definition senderHex :: "'key eth_lib \<Rightarrow> pipeline \<Rightarrow> string" where
  "senderHex L p = ToLower (Address_Hex L (pl_sender p))"

definition pipelineID :: "'key eth_lib \<Rightarrow> pipeline \<Rightarrow> string" where
  "pipelineID L p = senderHex L p @ ''-'' @ u64_dec (pl_chainID p)"

text \<open>A send on a channel of capacity one that is dropped when the channel is full.\<close>

definition Notify :: "'key eth_lib \<Rightarrow> pipeline \<Rightarrow> world \<Rightarrow> world" where
  "Notify L p w = w\<lparr>w_notify := (w_notify w)(pipelineID L p := True)\<rparr>"

section \<open>Steps of processTx\<close>

definition logTransition ::
    "string \<Rightarrow> string \<Rightarrow> string \<Rightarrow> string \<Rightarrow> string \<Rightarrow> world \<Rightarrow> world" where
  "logTransition txID src dst actor reason w = snd (LogStateTransition
     \<lparr>sl_TransactionID = txID, sl_FromStatus = src, sl_ToStatus = dst, sl_Actor = actor,
      sl_Reason = reason\<rparr> w)"

definition failTx ::
    "transaction \<Rightarrow> error_code \<Rightarrow> string \<Rightarrow> string \<Rightarrow> world \<Rightarrow> world" where
  "failTx tx code reason actor w =
     (let w1 = snd (MarkFailed (tx_ID tx) code reason w) in
      logTransition (tx_ID tx) (status_text (tx_Status tx)) (status_text TxStatusFailed)
        actor reason w1)"

definition buildAndSign ::
    "'key eth_lib \<Rightarrow> pipeline \<Rightarrow> transaction \<Rightarrow> u64 \<Rightarrow> gas_params
      \<Rightarrow> go_error + signed_tx \<times> bytes" where
  "buildAndSign L p tx nonce gas =
    (let toAddr = HexToAddress L (tx_ToAddress tx);
         ethTx = build_tx (pl_chainID p) nonce gas toAddr (tx_Value tx) (tx_Data tx)
     in case sg_Sign (pl_signer p) (pl_sender p) ethTx (int (unat (pl_chainID p))) of
          Inl e \<Rightarrow> Inl e
        | Inr stx \<Rightarrow>
            (case MarshalBinary L stx of
               Inl e \<Rightarrow> Inl (Err (''marshal signed tx: '' @ err_text e))
             | Inr rawTx \<Rightarrow> Inr (stx, rawTx)))"

definition maxBroadcastRetries :: nat where
  "maxBroadcastRetries = 5"

text \<open>The broadcast loop: the number of tries left and the error of the last one.\<close>

fun broadcast_loop ::
    "nat \<Rightarrow> eth_client \<Rightarrow> signed_tx \<Rightarrow> go_error option \<Rightarrow> world \<Rightarrow> go_error option \<times> world" where
  "broadcast_loop 0 c stx err w = (err, w)"
| "broadcast_loop (Suc n) c stx err w =
    (case ec_SendTransaction c stx w of
       (None, w1) \<Rightarrow> (None, w1)
     | (Some e, w1) \<Rightarrow> broadcast_loop n c stx (Some e) (sleepCtx w1))"

text \<open>The attempt of step 4; the bump of the stuck detector builds its attempt the same way.\<close>

definition new_attempt ::
    "string \<Rightarrow> string \<Rightarrow> int \<Rightarrow> string \<Rightarrow> gas_params \<Rightarrow> bytes \<Rightarrow> instant \<Rightarrow> tx_attempt" where
  "new_attempt aid txID number txHash gas rawTx now = \<lparr>at_ID = aid, at_TransactionID = txID,
     at_AttemptNumber = number, at_TxHash = txHash, at_GasLimit = gp_GasLimit gas,
     at_MaxFeePerGas = gp_MaxFeePerGas gas,
     at_MaxPriorityFeePerGas = gp_MaxPriorityFeePerGas gas, at_GasPrice = gp_GasPrice gas,
     at_TxType = gp_TxType gas, at_RawTx = rawTx, at_Status = AttemptBroadcast,
     at_ErrorReason = [], at_CreatedAt = now, at_ConfirmedAt = None\<rparr>"

text \<open>Steps 5 and 6: broadcast with retries, then mark as submitted.\<close>

definition broadcast_and_mark ::
    "pipeline \<Rightarrow> transaction \<Rightarrow> u64 \<Rightarrow> string \<Rightarrow> signed_tx \<Rightarrow> string \<Rightarrow> world \<Rightarrow> world" where
  "broadcast_and_mark p tx nonce txHash stx actor w =
    (case broadcast_loop maxBroadcastRetries (pl_client p) stx None w of
       (Some e, w1) \<Rightarrow> failTx tx ErrCodeBroadcastFailed (err_text e) actor w1
     | (None, w1) \<Rightarrow>
         (case MarkSubmitted (tx_ID tx) txHash w1 of
            (Some e, w2) \<Rightarrow> w2
          | (None, w2) \<Rightarrow>
              logTransition (tx_ID tx) (status_text TxStatusPending)
                (status_text TxStatusSubmitted) actor
                (''broadcast with hash '' @ txHash @ '', nonce '' @ u64_dec nonce) w2))"

text \<open>Steps 3 to 6, once the gas parameters are known.\<close>

definition sign_and_send ::
    "'key eth_lib \<Rightarrow> pipeline \<Rightarrow> transaction \<Rightarrow> u64 \<Rightarrow> gas_params \<Rightarrow> string \<Rightarrow> world \<Rightarrow> world" where
  "sign_and_send L p tx nonce gasParams actor w =
    (case buildAndSign L p tx nonce gasParams of
       Inl e \<Rightarrow> failTx tx ErrCodeSigningFailed (err_text e) actor w
     | Inr (signedTx, rawTx) \<Rightarrow>
         (let txHash = Hash_Hex L (Tx_Hash L signedTx);
              (aid, w1) = ulid_make w;
              attempt = new_attempt aid (tx_ID tx) 1 txHash gasParams rawTx (time_now w1)
          in case CreateAttempt attempt w1 of
               (Some e, w2) \<Rightarrow> w2
             | (None, w2) \<Rightarrow> broadcast_and_mark p tx nonce txHash signedTx actor w2))"

definition processTx ::
    "'key eth_lib \<Rightarrow> pipeline \<Rightarrow> transaction \<Rightarrow> string \<Rightarrow> world \<Rightarrow> world" where
  "processTx L p tx actor w =
    (let w1 = logTransition (tx_ID tx) (status_text TxStatusQueued) (status_text TxStatusPending)
                actor ''claimed by pipeline'' w
     in case AssignNonceAndMarkPending (tx_ID tx) (senderHex L p) (pl_chainID p) w1 of
          (Inl e, w2) \<Rightarrow>
            failTx tx ErrCodeInternalError (''nonce assignment: '' @ err_text e) actor w2
        | (Inr nonce, w2) \<Rightarrow>
            (case Estimate L (pl_client p) (pl_chain p) (pl_sender p)
                    (HexToAddress L (tx_ToAddress tx)) (tx_Data tx) (tx_Value tx) (tx_Priority tx)
                    w2 of
               (Inl e, w3) \<Rightarrow> failTx tx ErrCodeEstimationReverted (err_text e) actor w3
             | (Inr gasParams, w3) \<Rightarrow> sign_and_send L p tx nonce gasParams actor w3))"

section \<open>The loop\<close>

text \<open>
  One iteration of \<open>Run\<close>: None when the context is done. An idle iteration waits for a
  notification, which it consumes, or for the poll interval; it also ends when the context is done.
\<close>

definition wait_for_work :: "'key eth_lib \<Rightarrow> pipeline \<Rightarrow> world \<Rightarrow> world option" where
  "wait_for_work L p w =
    (if ctx_done w then None
     else Some (tick (w\<lparr>w_notify := (w_notify w)(pipelineID L p := False)\<rparr>)))"

definition run_iteration :: "'key eth_lib \<Rightarrow> pipeline \<Rightarrow> world \<Rightarrow> world option" where
  "run_iteration L p w =
    (if ctx_done w then None
     else
       (case ClaimNextQueued (senderHex L p) (pl_chainID p) (pipelineID L p) w of
          (Inl e, w1) \<Rightarrow> Some (sleepCtx w1)
        | (Inr None, w1) \<Rightarrow> wait_for_work L p w1
        | (Inr (Some tx), w1) \<Rightarrow> Some (processTx L p tx (pipelineID L p) w1)))"

fun Run_pipeline :: "nat \<Rightarrow> 'key eth_lib \<Rightarrow> pipeline \<Rightarrow> world \<Rightarrow> world outcome" where
  "Run_pipeline 0 L p w = NoFuel"
| "Run_pipeline (Suc n) L p w =
    (case run_iteration L p w of None \<Rightarrow> Ret w | Some w1 \<Rightarrow> Run_pipeline n L p w1)"

end
