(* ===== verification/Receipt.thy ===== *)
theory Receipt
  imports Pipeline
begin

text \<open>
  internal/pipeline/receipt.go: the poller that fetches the receipts of submitted transactions page
  by page, verifies token transfers, waits for confirmations and handles reorganisations. A nil
  dereference is \<open>Panic\<close>; the loops over pages run with fuel.
\<close>

section \<open>The poller\<close>

record receipt_poller =
  rp_chainID :: u64
  rp_confirmationBlocks :: int
  rp_receiptChunkSize :: int
  rp_client :: eth_client
  rp_interval :: duration

definition defaultReceiptChunkSize :: int where
  "defaultReceiptChunkSize = 50"

definition NewReceiptPoller :: "u64 \<Rightarrow> int \<Rightarrow> int \<Rightarrow> eth_client \<Rightarrow> duration \<Rightarrow> receipt_poller" where
  "NewReceiptPoller chainID confirmationBlocks receiptChunkSize client interval =
     \<lparr>rp_chainID = chainID, rp_confirmationBlocks = confirmationBlocks,
      rp_receiptChunkSize =
        (if receiptChunkSize \<le> 0 then defaultReceiptChunkSize else receiptChunkSize),
      rp_client = client, rp_interval = interval\<rparr>"

definition poller_actor :: "receipt_poller \<Rightarrow> string" where
  "poller_actor rp = ''receipt-poller:'' @ u64_dec (rp_chainID rp)"

section \<open>Receipts\<close>

text \<open>\<open>big.Int.Uint64\<close> takes the low 64 bits of the absolute value; a nil pointer panics.\<close>

definition Uint64 :: "int option \<Rightarrow> u64 outcome" where
  "Uint64 b = (case b of None \<Rightarrow> Panic | Some i \<Rightarrow> Ret (word_of_int \<bar>i\<bar>))"

definition make_receipt :: "'key eth_lib \<Rightarrow> string \<Rightarrow> eth_receipt \<Rightarrow> tx_receipt outcome" where
  "make_receipt L txHash receipt =
    and_then (Uint64 (er_BlockNumber receipt)) (\<lambda>block. Ret
      \<lparr>rc_TxHash = txHash, rc_BlockNumber = block, rc_BlockHash = Hash_Hex L (er_BlockHash receipt),
       rc_GasUsed = er_GasUsed receipt, rc_EffectiveGasPrice = er_EffectiveGasPrice receipt,
       rc_Status = ucast (er_Status receipt), rc_ReceiptJSON = Receipt_JSON L receipt\<rparr>)"

text \<open>The loop over the event logs of \<open>verifyERC20Transfer\<close>.\<close>

fun verify_logs :: "'key eth_lib \<Rightarrow> address \<Rightarrow> hash \<Rightarrow> hash \<Rightarrow> event_log list \<Rightarrow> bool" where
  "verify_logs L contract src dst [] = False"
| "verify_logs L contract src dst (lg # lgs) =
    (if \<not> EqualFold (Address_Hex L (ev_Address lg)) (Address_Hex L contract)
     then verify_logs L contract src dst lgs
     else if length (ev_Topics lg) < 3 then verify_logs L contract src dst lgs
     else if ev_Topics lg ! 0 \<noteq> TransferEventSig L then verify_logs L contract src dst lgs
     else if ev_Topics lg ! 1 \<noteq> src then verify_logs L contract src dst lgs
     else if ev_Topics lg ! 2 \<noteq> dst then verify_logs L contract src dst lgs
     else True)"

definition verifyERC20Transfer :: "'key eth_lib \<Rightarrow> eth_receipt \<Rightarrow> transaction \<Rightarrow> bool" where
  "verifyERC20Transfer L receipt tx =
     verify_logs L (HexToAddress L (tx_TokenContract tx))
       (AddressToHash L (HexToAddress L (tx_Sender tx)))
       (AddressToHash L (HexToAddress L (tx_TransferRecipient tx))) (er_Logs receipt)"

section \<open>Attempts of a confirmed transaction\<close>

fun mark_attempts :: "string \<Rightarrow> tx_attempt list \<Rightarrow> world \<Rightarrow> world" where
  "mark_attempts txHash [] w = w"
| "mark_attempts txHash (a # as) w =
    mark_attempts txHash as
      (if at_TxHash a = txHash then snd (MarkAttemptStatus (at_ID a) AttemptConfirmed w)
       else if at_Status a = AttemptBroadcast
       then snd (MarkAttemptStatus (at_ID a) AttemptReplaced w)
       else w)"

definition markAttemptConfirmed :: "string \<Rightarrow> string \<Rightarrow> world \<Rightarrow> world" where
  "markAttemptConfirmed txID txHash w =
    (case GetAttemptsByTransactionID txID w of
       (Inl e, w1) \<Rightarrow> w1
     | (Inr attempts, w1) \<Rightarrow> mark_attempts txHash attempts w1)"

section \<open>Pages\<close>

text \<open>
  The loop \<open>pollSubmitted\<close> and \<open>pollIncluded\<close> share: fetch the page after the cursor, handle it, move
  the cursor to the last transaction, stop on an error, on an empty page and after a short one.
  The handler of a page returns whether the loop goes on.
\<close>

fun page_loop ::
    "nat \<Rightarrow> (string \<Rightarrow> world \<Rightarrow> (go_error + transaction list) \<times> world)
      \<Rightarrow> (transaction list \<Rightarrow> world \<Rightarrow> (bool \<times> world) outcome) \<Rightarrow> int \<Rightarrow> string \<Rightarrow> world \<Rightarrow> world outcome"
    where
  "page_loop 0 page handle chunk cursor w = NoFuel"
| "page_loop (Suc n) page handle chunk cursor w =
    (case page cursor w of
       (Inl e, w1) \<Rightarrow> Ret w1
     | (Inr txs, w1) \<Rightarrow>
         if txs = [] then Ret w1
         else and_then (handle txs w1) (\<lambda>(continue, w2).
           if \<not> continue then Ret w2
           else if int (length txs) < chunk then Ret w2
           else page_loop n page handle chunk (tx_ID (last txs)) w2))"

section \<open>Submitted transactions\<close>

text \<open>The four endings of the body of the loop over the receipts.\<close>

definition submitted_receipt ::
    "'key eth_lib \<Rightarrow> receipt_poller \<Rightarrow> transaction \<Rightarrow> eth_receipt \<Rightarrow> world \<Rightarrow> world outcome" where
  "submitted_receipt L rp tx receipt w =
    and_then (make_receipt L (tx_FinalTxHash tx) receipt) (\<lambda>rc. Ret
     (let block = u64_dec (rc_BlockNumber rc);
          note = (\<lambda>dst reason. logTransition (tx_ID tx) (status_text TxStatusSubmitted)
                    (status_text dst) (poller_actor rp) reason)
      in if er_Status receipt = 1 then
        if tx_TokenContract tx \<noteq> [] \<and> \<not> verifyERC20Transfer L receipt tx then
          (case MarkReverted (tx_ID tx) rc w of
             (Some e, w1) \<Rightarrow> w1
           | (None, w1) \<Rightarrow> note TxStatusReverted
               (''ERC20 Transfer event not found in receipt logs (block '' @ block @ '')'') w1)
        else if rp_confirmationBlocks rp > 0 then
          (case MarkIncluded (tx_ID tx) rc w of
             (Some e, w1) \<Rightarrow> w1
           | (None, w1) \<Rightarrow> note TxStatusIncluded
               (''included in block '' @ block @ '', waiting for ''
                @ int_dec (rp_confirmationBlocks rp) @ '' confirmations'') w1)
        else
          (case MarkConfirmed (tx_ID tx) rc w of
             (Some e, w1) \<Rightarrow> w1
           | (None, w1) \<Rightarrow> markAttemptConfirmed (tx_ID tx) (tx_FinalTxHash tx)
               (note TxStatusConfirmed (''confirmed in block '' @ block) w1))
      else
        (case MarkReverted (tx_ID tx) rc w of
           (Some e, w1) \<Rightarrow> w1
         | (None, w1) \<Rightarrow> note TxStatusReverted (''reverted in block '' @ block) w1)))"

text \<open>The Go map from hashes to transactions: a later entry replaces an earlier one.\<close>

definition hash_map :: "(hash \<times> transaction) list \<Rightarrow> hash \<rightharpoonup> transaction" where
  "hash_map entries = map_of (rev entries)"

text \<open>Looking up a hash that is not in the map yields a nil transaction, whose use panics.\<close>

fun handle_receipts ::
    "'key eth_lib \<Rightarrow> receipt_poller \<Rightarrow> (hash \<rightharpoonup> transaction) \<Rightarrow> (hash \<times> eth_receipt) list \<Rightarrow> world
      \<Rightarrow> world outcome" where
  "handle_receipts L rp hashToTx [] w = Ret w"
| "handle_receipts L rp hashToTx ((h, receipt) # rest) w =
    (case hashToTx h of
       None \<Rightarrow> Panic
     | Some tx \<Rightarrow> and_then (submitted_receipt L rp tx receipt w)
         (handle_receipts L rp hashToTx rest))"

definition submitted_page ::
    "'key eth_lib \<Rightarrow> receipt_poller \<Rightarrow> transaction list \<Rightarrow> world \<Rightarrow> (bool \<times> world) outcome" where
  "submitted_page L rp txs w =
    (let entries = map (\<lambda>tx. (HexToHash L (tx_FinalTxHash tx), tx))
           (filter (\<lambda>tx. tx_FinalTxHash tx \<noteq> []) txs);
         hashes = map fst entries
     in if hashes = [] then Ret (True, w)
        else (case ec_BatchTransactionReceipts (rp_client rp) hashes w of
                (Inl e, w1) \<Rightarrow> Ret (False, w1)
              | (Inr receipts, w1) \<Rightarrow>
                  and_then (handle_receipts L rp (hash_map entries) (range_order receipts w1) w1)
                    (\<lambda>w2. Ret (True, w2))))"

definition pollSubmitted :: "nat \<Rightarrow> 'key eth_lib \<Rightarrow> receipt_poller \<Rightarrow> world \<Rightarrow> world outcome" where
  "pollSubmitted fuel L rp w =
     page_loop fuel (GetSubmittedTransactions (rp_chainID rp) (rp_receiptChunkSize rp))
       (submitted_page L rp) (rp_receiptChunkSize rp) [] w"

section \<open>Included transactions\<close>

definition rebroadcastAfterReorg ::
    "'key eth_lib \<Rightarrow> receipt_poller \<Rightarrow> transaction \<Rightarrow> world \<Rightarrow> world" where
  "rebroadcastAfterReorg L rp tx w =
    (case GetAttemptsByTransactionID (tx_ID tx) w of
       (Inl e, w1) \<Rightarrow> w1
     | (Inr attempts, w1) \<Rightarrow>
         if attempts = [] then w1
         else if at_RawTx (last attempts) = [] then w1
         else (case UnmarshalBinary L (at_RawTx (last attempts)) of
                 Inl e \<Rightarrow> w1
               | Inr ethTx \<Rightarrow> snd (ec_SendTransaction (rp_client rp) ethTx w1)))"

text \<open>Unsigned subtraction: the depth wraps around when the block lies ahead of the chain's head.\<close>

definition depth_of :: "u64 \<Rightarrow> u64 \<Rightarrow> u64" where
  "depth_of currentBlock block = currentBlock - block"

definition is_ready :: "receipt_poller \<Rightarrow> u64 \<Rightarrow> transaction \<Rightarrow> bool" where
  "is_ready rp currentBlock tx = (case tx_BlockNumber tx of
       None \<Rightarrow> False
     | Some b \<Rightarrow> \<not> depth_of currentBlock b < word_of_int (rp_confirmationBlocks rp))"

definition included_tx ::
    "'key eth_lib \<Rightarrow> receipt_poller \<Rightarrow> u64 \<Rightarrow> (hash \<times> eth_receipt) list \<Rightarrow> transaction \<Rightarrow> world
      \<Rightarrow> world outcome" where
  "included_tx L rp currentBlock receipts tx w =
    (let note = (\<lambda>dst reason. logTransition (tx_ID tx) (status_text TxStatusIncluded)
                   (status_text dst) (poller_actor rp) reason)
     in case map_of receipts (HexToHash L (tx_FinalTxHash tx)) of
       None \<Rightarrow>
         (case RevertToSubmitted (tx_ID tx) w of
            (Some e, w1) \<Rightarrow> Ret w1
          | (None, w1) \<Rightarrow>
              Ret (rebroadcastAfterReorg L rp tx (note TxStatusSubmitted ''reorg detected'' w1)))
     | Some receipt \<Rightarrow>
         (case tx_BlockNumber tx of None \<Rightarrow> Panic | Some b \<Rightarrow>
          and_then (make_receipt L (tx_FinalTxHash tx) receipt) (\<lambda>rc. Ret
           (if Hash_Hex L (er_BlockHash receipt) = tx_BlockHash tx then
              (case MarkConfirmed (tx_ID tx) rc w of
                 (Some e, w1) \<Rightarrow> w1
               | (None, w1) \<Rightarrow> markAttemptConfirmed (tx_ID tx) (tx_FinalTxHash tx)
                   (note TxStatusConfirmed (''confirmed after '' @ u64_dec (depth_of currentBlock b)
                      @ '' blocks (block '' @ u64_dec (rc_BlockNumber rc) @ '')'') w1))
            else
              (case MarkIncluded (tx_ID tx) rc w of
                 (Some e, w1) \<Rightarrow> w1
               | (None, w1) \<Rightarrow> note TxStatusIncluded (''reorged from block '' @ u64_dec b
                   @ '' to block '' @ u64_dec (rc_BlockNumber rc)
                   @ '', restarting confirmation count'') w1)))))"

fun included_txs ::
    "'key eth_lib \<Rightarrow> receipt_poller \<Rightarrow> u64 \<Rightarrow> (hash \<times> eth_receipt) list \<Rightarrow> transaction list \<Rightarrow> world
      \<Rightarrow> world outcome" where
  "included_txs L rp currentBlock receipts [] w = Ret w"
| "included_txs L rp currentBlock receipts (tx # txs) w =
    and_then (included_tx L rp currentBlock receipts tx w)
      (included_txs L rp currentBlock receipts txs)"

definition included_page ::
    "'key eth_lib \<Rightarrow> receipt_poller \<Rightarrow> u64 \<Rightarrow> transaction list \<Rightarrow> world \<Rightarrow> (bool \<times> world) outcome" where
  "included_page L rp currentBlock txs w =
    (let readyTxs = filter (is_ready rp currentBlock) txs;
         hashes = map (\<lambda>tx. HexToHash L (tx_FinalTxHash tx)) readyTxs
     in if hashes = [] then Ret (True, w)
        else (case ec_BatchTransactionReceipts (rp_client rp) hashes w of
                (Inl e, w1) \<Rightarrow> Ret (False, w1)
              | (Inr receipts, w1) \<Rightarrow>
                  and_then (included_txs L rp currentBlock receipts readyTxs w1)
                    (\<lambda>w2. Ret (True, w2))))"

definition pollIncluded :: "nat \<Rightarrow> 'key eth_lib \<Rightarrow> receipt_poller \<Rightarrow> world \<Rightarrow> world outcome" where
  "pollIncluded fuel L rp w =
    (if rp_confirmationBlocks rp = 0 then Ret w
     else (case ec_BlockNumber (rp_client rp) w of
             (Inl e, w1) \<Rightarrow> Ret w1
           | (Inr currentBlock, w1) \<Rightarrow>
               page_loop fuel (GetIncludedTransactions (rp_chainID rp) (rp_receiptChunkSize rp))
                 (included_page L rp currentBlock) (rp_receiptChunkSize rp) [] w1))"

definition poll :: "nat \<Rightarrow> 'key eth_lib \<Rightarrow> receipt_poller \<Rightarrow> world \<Rightarrow> world outcome" where
  "poll fuel L rp w = and_then (pollSubmitted fuel L rp w) (pollIncluded fuel L rp)"

section \<open>The loop of a background worker\<close>

text \<open>
  \<open>Run\<close> of the poller and of the stuck detector: wait for the ticker or the end of the context, then
  do the work or return. \<open>time.NewTicker\<close> panics on an interval that is not positive.
\<close>

fun ticker_loop :: "nat \<Rightarrow> (world \<Rightarrow> world outcome) \<Rightarrow> world \<Rightarrow> world outcome" where
  "ticker_loop 0 body w = NoFuel"
| "ticker_loop (Suc n) body w =
    (if ctx_done w then Ret w else and_then (body (tick w)) (ticker_loop n body))"

definition run_ticker ::
    "duration \<Rightarrow> nat \<Rightarrow> (world \<Rightarrow> world outcome) \<Rightarrow> world \<Rightarrow> world outcome" where
  "run_ticker interval n body w = (if interval \<le> 0 then Panic else ticker_loop n body w)"

definition Run_poller :: "nat \<Rightarrow> nat \<Rightarrow> 'key eth_lib \<Rightarrow> receipt_poller \<Rightarrow> world \<Rightarrow> world outcome" where
  "Run_poller rounds fuel L rp = run_ticker (rp_interval rp) rounds (poll fuel L rp)"

end
