(* ===== verification/Stuck.thy ===== *)
theory Stuck
  imports Receipt
begin

text \<open>
  internal/pipeline/stuck.go: the detector that replaces transactions that stay submitted for too
  long by transactions with the same nonce and a higher fee, at most five times, and then gives up.
\<close>

section \<open>The detector\<close>

definition maxGasBumps :: nat where
  "maxGasBumps = 5"

record stuck_detector =
  sd_chain :: chain_config
  sd_client :: eth_client
  sd_signer :: signer
  sd_interval :: duration
  sd_stuckThreshold :: duration

definition sd_chainID :: "stuck_detector \<Rightarrow> u64" where
  "sd_chainID sd = ch_ChainID (sd_chain sd)"

text \<open>A threshold of zero means three minutes.\<close>

definition NewStuckDetector :: "chain_config \<Rightarrow> eth_client \<Rightarrow> signer \<Rightarrow> duration \<Rightarrow> stuck_detector" where
  "NewStuckDetector chain client sg interval =
     \<lparr>sd_chain = chain, sd_client = client, sd_signer = sg, sd_interval = interval,
      sd_stuckThreshold = (if ch_StuckThreshold chain = 0 then 180000000 else ch_StuckThreshold chain)\<rparr>"

section \<open>Bumping\<close>

definition attempt_gas :: "tx_attempt \<Rightarrow> gas_params" where
  "attempt_gas a = \<lparr>gp_GasLimit = at_GasLimit a, gp_MaxFeePerGas = at_MaxFeePerGas a,
     gp_MaxPriorityFeePerGas = at_MaxPriorityFeePerGas a, gp_GasPrice = at_GasPrice a,
     gp_TxType = at_TxType a\<rparr>"

text \<open>The replacement: the same nonce and payload, signed for the stored sender.\<close>

definition sign_bump ::
    "'key eth_lib \<Rightarrow> stuck_detector \<Rightarrow> transaction \<Rightarrow> u64 \<Rightarrow> gas_params \<Rightarrow> go_error + signed_tx \<times> bytes"
    where
  "sign_bump L sd tx nonce bumpedGas =
    (let ethTx = build_tx (sd_chainID sd) nonce bumpedGas (HexToAddress L (tx_ToAddress tx))
           (tx_Value tx) (tx_Data tx)
     in case sg_Sign (sd_signer sd) (HexToAddress L (tx_Sender tx)) ethTx
               (int (unat (sd_chainID sd))) of
          Inl e \<Rightarrow> Inl e
        | Inr stx \<Rightarrow>
            (case MarshalBinary L stx of Inl e \<Rightarrow> Inl e | Inr rawTx \<Rightarrow> Inr (stx, rawTx)))"

definition send_bump ::
    "'key eth_lib \<Rightarrow> stuck_detector \<Rightarrow> transaction \<Rightarrow> nat \<Rightarrow> gas_params \<Rightarrow> signed_tx \<Rightarrow> bytes \<Rightarrow> world
      \<Rightarrow> world" where
  "send_bump L sd tx bumpNumber bumpedGas stx rawTx w =
    (let txHash = Hash_Hex L (Tx_Hash L stx);
         (aid, w1) = ulid_make w;
         attempt = new_attempt aid (tx_ID tx) (int bumpNumber + 1) txHash bumpedGas rawTx (time_now w1)
     in case CreateAttempt attempt w1 of
          (Some e, w2) \<Rightarrow> w2
        | (None, w2) \<Rightarrow>
            (case ec_SendTransaction (sd_client sd) stx w2 of
               (Some e, w3) \<Rightarrow> w3
             | (None, w3) \<Rightarrow>
                 (let w4 = snd (MarkSubmitted (tx_ID tx) txHash w3) in
                  logTransition (tx_ID tx) (status_text TxStatusSubmitted)
                    (status_text TxStatusSubmitted) ''stuck-detector''
                    (''gas bump #'' @ nat_dec bumpNumber @ '', new hash '' @ txHash) w4)))"

text \<open>The last element of an empty slice is an index out of range.\<close>

definition bumpGas ::
    "'key eth_lib \<Rightarrow> stuck_detector \<Rightarrow> transaction \<Rightarrow> tx_attempt list \<Rightarrow> world \<Rightarrow> world outcome" where
  "bumpGas L sd tx attempts w =
    (case tx_Nonce tx of
       None \<Rightarrow> Ret w
     | Some nonce \<Rightarrow>
         if attempts = [] then Panic
         else
           let lastAttempt = last attempts; bumpNumber = length attempts in
           if time_now w - at_CreatedAt lastAttempt < ch_GasBumpInterval (sd_chain sd) then Ret w
           else
             let bumpedGas = BumpGas (attempt_gas lastAttempt) (int bumpNumber) in
             (case sign_bump L sd tx nonce bumpedGas of
                Inl e \<Rightarrow> Ret w
              | Inr (stx, rawTx) \<Rightarrow> Ret (send_bump L sd tx bumpNumber bumpedGas stx rawTx w)))"

section \<open>The check\<close>

definition check_tx ::
    "'key eth_lib \<Rightarrow> stuck_detector \<Rightarrow> transaction \<Rightarrow> world \<Rightarrow> world outcome" where
  "check_tx L sd tx w =
    (case GetAttemptsByTransactionID (tx_ID tx) w of
       (Inl e, w1) \<Rightarrow> Ret w1
     | (Inr attempts, w1) \<Rightarrow>
         if length attempts > maxGasBumps then
           (let w2 = snd (MarkFailed (tx_ID tx) ErrCodeMaxRetriesExceeded ''max gas bumps exceeded'' w1)
            in Ret (logTransition (tx_ID tx) (status_text TxStatusSubmitted)
                 (status_text TxStatusFailed) ''stuck-detector'' ''max gas bumps exceeded'' w2))
         else bumpGas L sd tx attempts w1)"

fun check_txs ::
    "'key eth_lib \<Rightarrow> stuck_detector \<Rightarrow> transaction list \<Rightarrow> world \<Rightarrow> world outcome" where
  "check_txs L sd [] w = Ret w"
| "check_txs L sd (tx # txs) w = and_then (check_tx L sd tx w) (check_txs L sd txs)"

definition check :: "'key eth_lib \<Rightarrow> stuck_detector \<Rightarrow> world \<Rightarrow> world outcome" where
  "check L sd w =
    (let cutoff = time_now w - sd_stuckThreshold sd in
     case GetStuckTransactions (sd_chainID sd) cutoff w of
       (Inl e, w1) \<Rightarrow> Ret w1
     | (Inr txs, w1) \<Rightarrow> check_txs L sd txs w1)"

definition Run_detector :: "nat \<Rightarrow> 'key eth_lib \<Rightarrow> stuck_detector \<Rightarrow> world \<Rightarrow> world outcome" where
  "Run_detector rounds L sd = run_ticker (sd_interval sd) rounds (check L sd)"

end
