(* ===== verification/Protocol.thy ===== *)
theory Protocol
  imports RepoFacts EthClient Signer
begin

text \<open>
  The protocol the goroutines follow on the database, as a step relation at the granularity of SQL
  statements: which statement may run in which state, and what a transaction goes through. The
  component theories show that their handlers only make such steps; this theory shows what follows
  for every interleaving: unique nonces, recorded hashes, numbered attempts.
\<close>

section \<open>States of a transaction\<close>

definition pending_of :: "string \<Rightarrow> string \<Rightarrow> db \<Rightarrow> bool" where
  "pending_of x i d \<longleftrightarrow> (\<exists>r \<in> set (d_transactions d). r_id r = i \<and> r_status r = TxStatusPending
     \<and> r_claimed_by r = Some x)"

definition unassigned :: "string \<Rightarrow> string \<Rightarrow> int \<Rightarrow> db \<Rightarrow> bool" where
  "unassigned i s chain d \<longleftrightarrow> (\<exists>r \<in> set (d_transactions d). r_id r = i \<and> r_nonce r = None
     \<and> r_sender r = s \<and> r_chain_id r = chain)"

definition has_nonce :: "string \<Rightarrow> db \<Rightarrow> bool" where
  "has_nonce i d \<longleftrightarrow> (\<exists>r \<in> set (d_transactions d). r_id r = i \<and> r_nonce r \<noteq> None)"

definition was_submitted :: "string \<Rightarrow> db \<Rightarrow> bool" where
  "was_submitted i d \<longleftrightarrow> (\<exists>r \<in> set (d_transactions d). r_id r = i \<and> r_submitted_at r \<noteq> None)"

definition recorded :: "string \<Rightarrow> string \<Rightarrow> db \<Rightarrow> bool" where
  "recorded i h d \<longleftrightarrow> (\<exists>a \<in> set (d_attempts d). a_transaction_id a = i \<and> a_tx_hash a = h)"

definition has_attempt :: "string \<Rightarrow> int \<Rightarrow> db \<Rightarrow> bool" where
  "has_attempt i n d \<longleftrightarrow> (\<exists>a \<in> set (d_attempts d). a_transaction_id a = i \<and> a_attempt_number a = n)"

section \<open>Steps\<close>

text \<open>
  What the goroutine \<open>x\<close> may do in one statement. Only the API creates transactions. A pipeline works on the rows it has claimed; the
  receipt poller and the stuck detector work on rows that have been submitted at some time.
\<close>

inductive sys_step :: "string \<Rightarrow> db \<Rightarrow> db \<Rightarrow> bool" for x where
  step_idle: "sys_step x d d"
| step_log: "sys_step x d (d\<lparr>d_log := l\<rparr>)"
| step_create: "x = ''api'' \<Longrightarrow> insert_tx tx d = Inr d' \<Longrightarrow> tx_Status tx = TxStatusQueued \<Longrightarrow>
    sys_step x d d'"
| step_claim: "r \<in> set (d_transactions d) \<Longrightarrow> r_status r = TxStatusQueued \<Longrightarrow>
    sys_step x d (upd_tx (r_id r) (claim_row x t) d)"
| step_assign: "pending_of x i d \<Longrightarrow> unassigned i s (int (unat c)) d \<Longrightarrow>
    increment_stmt s c t d = Inr (n, d1) \<Longrightarrow> set_nonce_stmt i n t' d1 = Inr ((), d') \<Longrightarrow>
    sys_step x d d'"
| step_fail_pending: "pending_of x i d \<Longrightarrow> sys_step x d (upd_tx i (failed_row code reason t) d)"
| step_first_attempt: "pending_of x i d \<Longrightarrow> insert_attempt a d = Inr d' \<Longrightarrow>
    at_TransactionID a = i \<Longrightarrow> at_AttemptNumber a = 1 \<Longrightarrow> sys_step x d d'"
| step_submit: "pending_of x i d \<Longrightarrow> has_nonce i d \<Longrightarrow> recorded i h d \<Longrightarrow>
    sys_step x d (upd_tx i (submitted_row h t) d)"
| step_receipt: "was_submitted i d \<Longrightarrow> receipt_columns rc = Inr f \<Longrightarrow> recorded i (rc_TxHash rc) d \<Longrightarrow>
    g \<in> {confirmed_row t, included_row t, reverted_row t} \<Longrightarrow> sys_step x d (upd_tx i (g \<circ> f) d)"
| step_resubmit: "was_submitted i d \<Longrightarrow> sys_step x d (upd_tx i (resubmitted_row t) d)"
| step_fail_submitted: "was_submitted i d \<Longrightarrow> sys_step x d (upd_tx i (failed_row code reason t) d)"
| step_bump: "was_submitted i d \<Longrightarrow> insert_attempt a d = Inr d' \<Longrightarrow> at_TransactionID a = i \<Longrightarrow>
    has_attempt i (at_AttemptNumber a - 1) d \<Longrightarrow> at_AttemptNumber a \<le> 6 \<Longrightarrow> sys_step x d d'"
| step_replace: "was_submitted i d \<Longrightarrow> recorded i h d \<Longrightarrow>
    sys_step x d (upd_tx i (submitted_row h t) d)"
| step_attempt_status: "sys_step x d
    (d\<lparr>d_attempts := upd_by a_id ai (\<lambda>a. a\<lparr>a_status := st\<rparr>) (d_attempts d)\<rparr>)"

section \<open>Invariants\<close>

text \<open>A transaction that is or was submitted has a nonce and a final hash that an attempt records.\<close>

definition submitted_statuses :: "tx_status set" where
  "submitted_statuses = {TxStatusSubmitted, TxStatusIncluded, TxStatusConfirmed, TxStatusReverted}"

definition row_ok :: "db \<Rightarrow> tx_row \<Rightarrow> bool" where
  "row_ok d r \<longleftrightarrow> (r_status r \<in> submitted_statuses \<longrightarrow> r_submitted_at r \<noteq> None)
     \<and> (r_submitted_at r \<noteq> None \<longrightarrow> r_status r \<notin> {TxStatusQueued, TxStatusPending}
          \<and> r_nonce r \<noteq> None \<and> (\<exists>h. r_final_tx_hash r = Some h \<and> recorded (r_id r) h d))
     \<and> (r_status r = TxStatusQueued \<longrightarrow> r_nonce r = None)"

definition lifecycle_ok :: "db \<Rightarrow> bool" where
  "lifecycle_ok d \<longleftrightarrow> (\<forall>r \<in> set (d_transactions d). row_ok d r)"

text \<open>A nonce below the cursor belongs to at most one transaction of the sender on the chain.\<close>

definition nonce_below :: "cursor_row list \<Rightarrow> tx_row \<Rightarrow> bool" where
  "nonce_below cs r \<longleftrightarrow> (\<forall>n. r_nonce r = Some n \<longrightarrow> 0 \<le> n \<and>
     (\<exists>c \<in> set cs. c_key c = (r_sender r, r_chain_id r) \<and> n < c_next_nonce c))"

definition same_nonce :: "tx_row \<Rightarrow> tx_row \<Rightarrow> bool" where
  "same_nonce r r' \<longleftrightarrow> r_nonce r \<noteq> None \<and> r_nonce r = r_nonce r' \<and> r_sender r = r_sender r'
     \<and> r_chain_id r = r_chain_id r'"

definition nonces_ok :: "db \<Rightarrow> bool" where
  "nonces_ok d \<longleftrightarrow> (\<forall>r \<in> set (d_transactions d). nonce_below (d_cursors d) r)
     \<and> (\<forall>r \<in> set (d_transactions d). \<forall>r' \<in> set (d_transactions d).
          same_nonce r r' \<longrightarrow> r_id r = r_id r')"

text \<open>The attempts of a transaction are numbered from 1 without gaps, up to six.\<close>

definition numbering_ok :: "db \<Rightarrow> bool" where
  "numbering_ok d \<longleftrightarrow> (\<forall>a \<in> set (d_attempts d). 1 \<le> a_attempt_number a \<and> a_attempt_number a \<le> 6
     \<and> (a_attempt_number a \<noteq> 1 \<longrightarrow> has_attempt (a_transaction_id a) (a_attempt_number a - 1) d))"

definition sys_ok :: "db \<Rightarrow> bool" where
  "sys_ok d \<longleftrightarrow> db_ok d \<and> lifecycle_ok d \<and> nonces_ok d \<and> numbering_ok d"

section \<open>Every step keeps the invariants\<close>

lemma row_unique:
  "db_ok d \<Longrightarrow> r \<in> set (d_transactions d) \<Longrightarrow> r' \<in> set (d_transactions d) \<Longrightarrow> r_id r = r_id r' \<Longrightarrow> r = r'"
  unfolding db_ok_def txs_ok_def by (metis distinct_map inj_on_def)

text \<open>What the state predicates say of the row itself.\<close>

lemma was_submittedD:
  "sys_ok d \<Longrightarrow> was_submitted i d \<Longrightarrow> r \<in> set (d_transactions d) \<Longrightarrow> r_id r = i \<Longrightarrow>
     r_submitted_at r \<noteq> None"
  unfolding was_submitted_def sys_ok_def using row_unique by metis

lemma pending_ofD:
  "sys_ok d \<Longrightarrow> pending_of x i d \<Longrightarrow> r \<in> set (d_transactions d) \<Longrightarrow> r_id r = i \<Longrightarrow>
     r_status r = TxStatusPending \<and> r_claimed_by r = Some x"
  unfolding pending_of_def sys_ok_def using row_unique by metis

lemma has_nonceD:
  "sys_ok d \<Longrightarrow> has_nonce i d \<Longrightarrow> r \<in> set (d_transactions d) \<Longrightarrow> r_id r = i \<Longrightarrow> r_nonce r \<noteq> None"
  unfolding has_nonce_def sys_ok_def using row_unique by metis

lemma unassignedD:
  "sys_ok d \<Longrightarrow> unassigned i s c d \<Longrightarrow> r \<in> set (d_transactions d) \<Longrightarrow> r_id r = i \<Longrightarrow> r_nonce r = None"
  unfolding unassigned_def sys_ok_def using row_unique by metis

lemma recorded_upd_tx [simp]: "recorded i h (upd_tx j f d) = recorded i h d"
  by (simp add: recorded_def)

lemma row_ok_upd_tx [simp]: "row_ok (upd_tx j f d) r = row_ok d r"
  by (simp add: row_ok_def)

lemma has_attempt_upd_tx [simp]: "has_attempt i n (upd_tx j f d) = has_attempt i n d"
  by (simp add: has_attempt_def)

lemma numbering_ok_upd_tx [simp]: "numbering_ok (upd_tx j f d) = numbering_ok d"
  by (simp add: numbering_ok_def)

lemma lifecycle_ok_upd_tx:
  assumes "lifecycle_ok d"
    and "\<And>r. r \<in> set (d_transactions d) \<Longrightarrow> r_id r = i \<Longrightarrow> row_ok d r \<Longrightarrow> row_ok d (f r)"
  shows "lifecycle_ok (upd_tx i f d)"
  using assms by (auto simp: lifecycle_ok_def ball_upd_by)

definition keeps_nonce :: "(tx_row \<Rightarrow> tx_row) \<Rightarrow> bool" where
  "keeps_nonce f \<longleftrightarrow> (\<forall>r. r_id (f r) = r_id r \<and> r_sender (f r) = r_sender r
     \<and> r_chain_id (f r) = r_chain_id r \<and> r_nonce (f r) = r_nonce r)"

lemma nonces_ok_upd_tx:
  assumes "nonces_ok d" and "keeps_nonce f"
  shows "nonces_ok (upd_tx i f d)"
proof -
  define g where "g r = (if r_id r = i then f r else r)" for r
  have "r_id (g r) = r_id r" "nonce_below cs (g r) = nonce_below cs r"
    "same_nonce (g r) (g r') = same_nonce r r'" for r r' cs
    using assms(2) by (simp_all add: g_def keeps_nonce_def nonce_below_def same_nonce_def)
  moreover have "d_transactions (upd_tx i f d) = map g (d_transactions d)"
    by (simp add: upd_by_def g_def)
  ultimately show ?thesis using assms(1) by (simp add: nonces_ok_def)
qed

lemma nonces_ok_other_tables [simp]:
  "nonces_ok (d\<lparr>d_attempts := as\<rparr>) = nonces_ok d" "nonces_ok (d\<lparr>d_log := l\<rparr>) = nonces_ok d"
  by (simp_all only: nonces_ok_def) simp_all

lemma nonces_okI:
  "(\<And>r. r \<in> set (d_transactions d) \<Longrightarrow> nonce_below (d_cursors d) r) \<Longrightarrow>
   (\<And>r r'. r \<in> set (d_transactions d) \<Longrightarrow> r' \<in> set (d_transactions d) \<Longrightarrow> same_nonce r r' \<Longrightarrow>
      r_id r = r_id r') \<Longrightarrow> nonces_ok d"
  by (simp add: nonces_ok_def)

lemma nonces_ok_below: "nonces_ok d \<Longrightarrow> r \<in> set (d_transactions d) \<Longrightarrow> nonce_below (d_cursors d) r"
  by (simp add: nonces_ok_def)

lemma nonces_ok_unique:
  "nonces_ok d \<Longrightarrow> same_nonce r r' \<Longrightarrow> r \<in> set (d_transactions d) \<Longrightarrow> r' \<in> set (d_transactions d) \<Longrightarrow>
     r_id r = r_id r'"
  by (simp add: nonces_ok_def)

lemma no_nonce [simp]:
  "r_nonce r = None \<Longrightarrow> nonce_below cs r" "r_nonce r = None \<Longrightarrow> \<not> same_nonce r r'"
  "r_nonce r' = None \<Longrightarrow> \<not> same_nonce r r'"
  by (auto simp: nonce_below_def same_nonce_def)

text \<open>A submitted row stays good when its nonce stays and its final hash is recorded.\<close>

lemma submitted_row_ok:
  assumes "row_ok d r" and "r_submitted_at r \<noteq> None" and "r_nonce r' = r_nonce r"
    and "r_submitted_at r' \<noteq> None" and "r_status r' \<notin> {TxStatusQueued, TxStatusPending}"
    and "r_final_tx_hash r' = Some h" and "recorded (r_id r') h d"
  shows "row_ok d r'"
  using assms unfolding row_ok_def by auto

lemma receipt_columnsE:
  assumes "receipt_columns rc = Inr f"
  obtains bn gu price where "bigint (rc_BlockNumber rc) = Inr bn"
    "f = (\<lambda>r. r\<lparr>r_final_tx_hash := Some (rc_TxHash rc), r_block_number := Some bn,
          r_block_hash := Some (rc_BlockHash rc), r_gas_used := Some gu,
          r_effective_gas_price := Some price,
          r_receipt_status := Some (int (unat (rc_Status rc))),
          r_receipt_data := Some (rc_ReceiptJSON rc)\<rparr>)"
  using assms by (auto simp: receipt_columns_def split: sum.splits)

lemma keeps_nonce_rows [simp]:
  "keeps_nonce (claim_row x t)" "keeps_nonce (failed_row code reason t)"
  "keeps_nonce (submitted_row h t)" "keeps_nonce (resubmitted_row t)"
  "keeps_nonce (confirmed_row t)" "keeps_nonce (included_row t)" "keeps_nonce (reverted_row t)"
  by (simp_all add: keeps_nonce_def claim_row_def failed_row_def submitted_row_def
      resubmitted_row_def confirmed_row_def included_row_def reverted_row_def)

lemma keeps_nonce_receipt: "receipt_columns rc = Inr f \<Longrightarrow> keeps_nonce f"
  by (elim receipt_columnsE) (simp add: keeps_nonce_def)

lemma keeps_nonce_comp: "keeps_nonce f \<Longrightarrow> keeps_nonce g \<Longrightarrow> keeps_nonce (g \<circ> f)"
  by (simp add: keeps_nonce_def)

lemmas row_update_defs = claim_row_def failed_row_def submitted_row_def resubmitted_row_def
  confirmed_row_def included_row_def reverted_row_def nonce_row_def

lemma sys_ok_upd_tx:
  assumes "sys_ok d" and "keeps_keys f" and "keeps_nonce f"
    and "\<And>r. r \<in> set (d_transactions d) \<Longrightarrow> r_id r = i \<Longrightarrow> row_ok d r \<Longrightarrow> row_ok d (f r)"
  shows "sys_ok (upd_tx i f d)"
  using assms db_ok_upd_tx lifecycle_ok_upd_tx nonces_ok_upd_tx by (simp add: sys_ok_def)

text \<open>A new attempt.\<close>

lemma attempt_row_of_fields:
  "attempt_row_of a = Inr row \<Longrightarrow> a_transaction_id row = at_TransactionID a
    \<and> a_attempt_number row = at_AttemptNumber a \<and> a_tx_hash row = at_TxHash a
    \<and> a_id row = at_ID a \<and> a_raw_tx row = at_RawTx a"
  by (auto simp: attempt_row_of_def split: sum.splits)

lemma sys_ok_insert_attempt:
  assumes "sys_ok d" and "insert_attempt a d = Inr d'"
    and "at_AttemptNumber a = 1
      \<or> has_attempt (at_TransactionID a) (at_AttemptNumber a - 1) d \<and> at_AttemptNumber a \<le> 6"
  shows "sys_ok d'"
proof -
  from assms(2) obtain row where d': "d' = d\<lparr>d_attempts := d_attempts d @ [row]\<rparr>"
    and row: "attempt_row_of a = Inr row" by (elim insert_attemptE)
  note f = attempt_row_of_fields [OF row]
  have "db_ok d'" using assms(1) db_ok_insert_attempt [OF _ assms(2)] by (simp add: sys_ok_def)
  moreover have "lifecycle_ok d'"
  proof -
    have "recorded i h d'" if "recorded i h d" for i h
      using that by (auto simp: d' recorded_def)
    then have "row_ok d' r" if "row_ok d r" for r
      using that by (auto simp: row_ok_def)
    then show ?thesis using assms(1) by (simp add: d' sys_ok_def lifecycle_ok_def)
  qed
  moreover have "nonces_ok d'" using assms(1) by (simp add: d' sys_ok_def)
  moreover have "numbering_ok d'"
    using assms(1,3) f by (fastforce simp: d' sys_ok_def numbering_ok_def has_attempt_def)
  ultimately show ?thesis by (simp add: sys_ok_def)
qed

lemma sys_ok_attempt_status:
  assumes "sys_ok d"
  shows "sys_ok (d\<lparr>d_attempts := upd_by a_id ai (\<lambda>a. a\<lparr>a_status := st\<rparr>) (d_attempts d)\<rparr>)" (is "sys_ok ?d")
proof -
  have rec: "recorded i h ?d = recorded i h d" for i h
    by (auto simp: recorded_def bex_upd_by)
  have att: "has_attempt i n ?d = has_attempt i n d" for i n
    by (auto simp: has_attempt_def bex_upd_by)
  have "lifecycle_ok ?d = lifecycle_ok d" by (simp add: lifecycle_ok_def row_ok_def rec)
  moreover have "nonces_ok ?d = nonces_ok d" by simp
  moreover have "numbering_ok d \<Longrightarrow> numbering_ok ?d"
    by (simp add: numbering_ok_def att ball_upd_by)
  ultimately show ?thesis
    using assms db_ok_mark_attempt [of d ai st] unfolding sys_ok_def by blast
qed

text \<open>A new transaction.\<close>

lemma sys_ok_insert_tx:
  assumes "sys_ok d" and "insert_tx tx d = Inr d'" and "tx_Status tx = TxStatusQueued"
  shows "sys_ok d'"
proof -
  from assms(2) obtain row where d': "d' = d\<lparr>d_transactions := d_transactions d @ [row]\<rparr>"
    and row: "r_status row = tx_Status tx" "r_nonce row = None" "r_submitted_at row = None"
    by (auto simp: insert_tx_def split: sum.splits if_splits)
  have "db_ok d'" using assms(1) db_ok_insert_tx [OF _ assms(2)] by (simp add: sys_ok_def)
  moreover have "lifecycle_ok d'"
  proof -
    have "row_ok d' r = row_ok d r" for r by (simp add: row_ok_def recorded_def d')
    moreover have "row_ok d row"
      using row assms(3) by (simp add: row_ok_def submitted_statuses_def)
    ultimately show ?thesis using assms(1) by (simp add: d' sys_ok_def lifecycle_ok_def)
  qed
  moreover have "nonces_ok d'"
    using assms(1) row(2) unfolding sys_ok_def
    by (intro nonces_okI) (auto simp: d' intro: nonces_ok_below nonces_ok_unique)
  moreover have "numbering_ok d'"
    using assms(1) by (simp add: d' sys_ok_def numbering_ok_def has_attempt_def)
  ultimately show ?thesis by (simp add: sys_ok_def)
qed

text \<open>A new nonce: the cursor moves past it, so no other transaction has it or will get it.\<close>

lemma sys_ok_assign:
  assumes "sys_ok d" and "pending_of x i d" and "unassigned i s (int (unat c)) d"
    and "increment_stmt s c t d = Inr (n, d1)" and "set_nonce_stmt i n t' d1 = Inr ((), d')"
  shows "sys_ok d'"
proof -
  obtain chain cur where chain: "bigint c = Inr chain"
    and cur: "row_by c_key (s, chain) (d_cursors d) = Some cur"
    and lt: "c_next_nonce cur + 1 < 2 ^ 63" and n: "n = word_of_int (c_next_nonce cur)"
    and d1: "d1 = upd_cursor (s, chain)
      (\<lambda>c. c\<lparr>c_next_nonce := c_next_nonce c + 1, c_updated_at := t\<rparr>) d"
    using assms(4) by (auto simp: increment_stmt_def split: sum.splits option.splits if_splits)
  have ch: "chain = int (unat c)" using bigint_range [OF chain] by simp
  have cin: "cur \<in> set (d_cursors d)" "c_key cur = (s, chain)"
    using row_by_Some_in [OF cur] by auto
  obtain m where m: "bigint n = Inr m" and d': "d' = upd_tx i (nonce_row m t') d1"
    using assms(5) by (auto simp: set_nonce_stmt_def split: sum.splits)
  have "0 \<le> c_next_nonce cur" using cin assms(1) by (auto simp: sys_ok_def db_ok_def cursors_ok_def)
  then have "c_next_nonce cur mod 2 ^ 64 = c_next_nonce cur"
    using lt by (intro mod_pos_pos_trivial) auto
  then have mc: "m = c_next_nonce cur" using bigint_range [OF m] n by (simp add: uint_word_of_int)
  obtain ri where ri: "ri \<in> set (d_transactions d)" "r_id ri = i" "r_nonce ri = None"
    "r_sender ri = s" "r_chain_id ri = chain" "r_status ri = TxStatusPending"
    using assms(1,2,3) ch by (fastforce simp: pending_of_def unassigned_def sys_ok_def dest: row_unique)
  have only: "r = ri" if "r \<in> set (d_transactions d)" "r_id r = i" for r
    using row_unique [of d r ri] that ri assms(1) by (simp add: sys_ok_def)
  have uniq: "c' = cur" if "c' \<in> set (d_cursors d)" "c_key c' = (s, chain)" for c'
    using cur that row_by_in_distinct [of c_key "d_cursors d" c'] assms(1)
    by (simp add: sys_ok_def db_ok_def cursors_ok_def)
  have db: "db_ok d'"
    using assms(1) db_ok_increment [OF _ assms(4)] db_ok_set_nonce [OF _ assms(5)]
    by (simp add: sys_ok_def)
  have "lifecycle_ok d'"
  proof -
    have "row_ok d' r = row_ok d r" for r
      by (simp add: row_ok_def recorded_def d' d1)
    moreover have "row_ok d (nonce_row m t' ri)"
      using assms(1) ri by (auto simp: sys_ok_def lifecycle_ok_def row_ok_def nonce_row_def
          submitted_statuses_def recorded_def)
    ultimately show ?thesis
      using assms(1) only by (auto simp: d' d1 sys_ok_def lifecycle_ok_def ball_upd_by)
  qed
  moreover have "nonces_ok d'"
  proof -
    have below: "\<exists>c' \<in> set (d_cursors d'). c_key c' = k \<and> n < c_next_nonce c'"
      if "c' \<in> set (d_cursors d)" "c_key c' = k" "n < c_next_nonce c'" for c' k n
      using that by (auto simp: d' d1 bex_upd_by c_key_def)
    have new: "\<exists>c' \<in> set (d_cursors d'). c_key c' = (s, chain) \<and> c_next_nonce cur < c_next_nonce c'"
      using cin by (auto simp: d' d1 bex_upd_by c_key_def mc)
    have old: "n < m" if "r \<in> set (d_transactions d)" "r_nonce r = Some n" "r_sender r = s"
      "r_chain_id r = chain" for r n
    proof -
      have "nonce_below (d_cursors d) r" using that(1) assms(1) nonces_ok_below by (simp add: sys_ok_def)
      with that obtain c' where "c' \<in> set (d_cursors d)" "c_key c' = (s, chain)" "n < c_next_nonce c'"
        by (auto simp: nonce_below_def)
      with uniq mc show ?thesis by auto
    qed
    have rows: "set (d_transactions d') = {r \<in> set (d_transactions d). r_id r \<noteq> i}
        \<union> {nonce_row m t' ri}"
    proof -
      have "{r \<in> set (d_transactions d). r_id r = i} = {ri}" using ri only by blast
      then show ?thesis by (simp add: d' d1 set_upd_by)
    qed
    have new_row: "r_sender (nonce_row m t' ri) = s" "r_chain_id (nonce_row m t' ri) = chain"
      "r_nonce (nonce_row m t' ri) = Some m" "r_id (nonce_row m t' ri) = i"
      using ri by (simp_all add: nonce_row_def)
    have "nonce_below (d_cursors d') r" if "r \<in> set (d_transactions d)" for r
      using nonces_ok_below [OF _ that] assms(1) below unfolding sys_ok_def nonce_below_def by blast
    moreover have "nonce_below (d_cursors d') (nonce_row m t' ri)"
      using new \<open>0 \<le> c_next_nonce cur\<close> new_row by (simp add: nonce_below_def mc)
    moreover have "\<not> same_nonce r (nonce_row m t' ri) \<and> \<not> same_nonce (nonce_row m t' ri) r"
      if "r \<in> set (d_transactions d)" for r
      using that old [of r m] by (auto simp: same_nonce_def new_row)
    moreover have "r_id r = r_id r'" if "r \<in> set (d_transactions d)" "r' \<in> set (d_transactions d)"
      "same_nonce r r'" for r r'
      using assms(1) nonces_ok_unique [OF _ that(3,1,2)] by (simp add: sys_ok_def)
    ultimately show ?thesis unfolding nonces_ok_def rows by blast
  qed
  moreover have "numbering_ok d'"
    using assms(1) by (simp add: d' d1 sys_ok_def numbering_ok_def has_attempt_def)
  ultimately show ?thesis using db by (simp add: sys_ok_def)
qed

lemma sys_step_ok: "sys_step x d d' \<Longrightarrow> sys_ok d \<Longrightarrow> sys_ok d'"
proof (induction rule: sys_step.induct)
  case (step_log d l)
  then show ?case
    by (simp add: sys_ok_def lifecycle_ok_def row_ok_def recorded_def
        numbering_ok_def has_attempt_def)
next
  case (step_claim r d t)
  have "r' = r" if "r' \<in> set (d_transactions d)" "r_id r' = r_id r" for r'
    using row_unique [OF _ that(1) step_claim.hyps(1) that(2)] step_claim.prems
    by (simp add: sys_ok_def)
  with step_claim show ?case
    by (intro sys_ok_upd_tx) (auto simp: row_ok_def claim_row_def submitted_statuses_def)
next
  case (step_fail_pending i d code reason t)
  show ?case
    using pending_ofD [OF step_fail_pending(2,1)]
    by (intro sys_ok_upd_tx step_fail_pending.prems keeps_keys_rows keeps_nonce_rows)
      (auto simp: row_ok_def failed_row_def submitted_statuses_def)
next
  case (step_submit i d h t)
  show ?case
    using pending_ofD [OF step_submit.prems step_submit.hyps(1)] step_submit.hyps(3)
      has_nonceD [OF step_submit.prems step_submit.hyps(2)]
    by (intro sys_ok_upd_tx step_submit.prems keeps_keys_rows keeps_nonce_rows)
      (auto simp: row_ok_def submitted_row_def submitted_statuses_def)
next
  case (step_receipt i d rc f g t)
  from step_receipt.hyps(2) obtain bn gu price where f: "f = (\<lambda>r. r\<lparr>
      r_final_tx_hash := Some (rc_TxHash rc), r_block_number := Some bn,
      r_block_hash := Some (rc_BlockHash rc), r_gas_used := Some gu,
      r_effective_gas_price := Some price, r_receipt_status := Some (int (unat (rc_Status rc))),
      r_receipt_data := Some (rc_ReceiptJSON rc)\<rparr>)" by (elim receipt_columnsE)
  have row: "row_ok d ((g \<circ> f) r)"
    if r: "r \<in> set (d_transactions d)" "r_id r = i" "row_ok d r" for r
  proof -
    note was_submittedD [OF step_receipt.prems step_receipt.hyps(1) r(1,2)]
    moreover have "r_nonce (f r) = r_nonce r" "r_submitted_at (f r) = r_submitted_at r"
      "r_final_tx_hash (f r) = Some (rc_TxHash rc)" "r_id (f r) = i"
      using r(2) by (simp_all add: f)
    then have "r_id (g (f r)) = i" "r_nonce (g (f r)) = r_nonce r"
      "r_submitted_at (g (f r)) = r_submitted_at r" "r_final_tx_hash (g (f r)) = Some (rc_TxHash rc)"
      "r_status (g (f r)) \<notin> {TxStatusQueued, TxStatusPending}"
      using step_receipt.hyps(4)
      by (auto simp: confirmed_row_def included_row_def reverted_row_def)
    ultimately show ?thesis
      using submitted_row_ok [of d r "g (f r)" "rc_TxHash rc"] r(3) step_receipt.hyps(3) by simp
  qed
  have "keeps_keys g" "keeps_nonce g" using step_receipt.hyps(4) by auto
  then have "keeps_keys (g \<circ> f)" "keeps_nonce (g \<circ> f)"
    using keeps_keys_comp keeps_nonce_comp receipt_columns_keeps keeps_nonce_receipt
      step_receipt.hyps(2) by metis+
  with step_receipt.prems show ?case using row by (rule sys_ok_upd_tx)
next
  case (step_resubmit i d t)
  show ?case
    using was_submittedD [OF step_resubmit(2,1)]
    by (intro sys_ok_upd_tx step_resubmit.prems keeps_keys_rows keeps_nonce_rows)
      (auto simp: row_ok_def resubmitted_row_def submitted_statuses_def)
next
  case (step_fail_submitted i d code reason t)
  show ?case
    by (intro sys_ok_upd_tx step_fail_submitted.prems keeps_keys_rows keeps_nonce_rows)
      (auto simp: row_ok_def failed_row_def submitted_statuses_def)
next
  case (step_replace i d h t)
  show ?case
    using was_submittedD [OF step_replace.prems step_replace.hyps(1)] step_replace.hyps(2)
    by (intro sys_ok_upd_tx step_replace.prems keeps_keys_rows keeps_nonce_rows)
      (auto simp: row_ok_def submitted_row_def submitted_statuses_def)
qed (auto intro: sys_ok_insert_tx sys_ok_assign sys_ok_insert_attempt sys_ok_attempt_status)

section \<open>What a step leaves to the others\<close>

text \<open>
  A step of \<open>y\<close> keeps every row with its sender, chain and payload, never takes back a nonce or forgets
  that a row was submitted, and does not touch a pending row that another goroutine has claimed.
\<close>

definition same_payload :: "tx_row \<Rightarrow> tx_row \<Rightarrow> bool" where
  "same_payload r r' \<longleftrightarrow> r_id r' = r_id r \<and> r_sender r' = r_sender r \<and> r_chain_id r' = r_chain_id r
     \<and> r_to_address r' = r_to_address r \<and> r_value r' = r_value r \<and> r_data r' = r_data r"

definition row_kept :: "string \<Rightarrow> tx_row \<Rightarrow> tx_row \<Rightarrow> bool" where
  "row_kept y r r' \<longleftrightarrow> same_payload r r' \<and> (r_nonce r \<noteq> None \<longrightarrow> r_nonce r' = r_nonce r)
     \<and> (r_submitted_at r \<noteq> None \<longrightarrow> r_submitted_at r' \<noteq> None)
     \<and> (r_status r = TxStatusPending \<longrightarrow> r_claimed_by r \<noteq> Some y \<longrightarrow> r' = r)"

lemma row_kept_refl [simp]: "row_kept y r r"
  by (simp add: row_kept_def same_payload_def)

lemma same_payload_rows [simp]:
  "same_payload r (claim_row x t r)" "same_payload r (failed_row code reason t r)"
  "same_payload r (submitted_row h t r)" "same_payload r (resubmitted_row t r)"
  "same_payload r (nonce_row n t r)" "same_payload r (confirmed_row t r') = same_payload r r'"
  "same_payload r (included_row t r') = same_payload r r'"
  "same_payload r (reverted_row t r') = same_payload r r'"
  by (simp_all add: same_payload_def row_update_defs)

lemma row_kept_own:
  "r_status r \<noteq> TxStatusPending \<or> r_claimed_by r = Some y \<Longrightarrow> same_payload r r' \<Longrightarrow>
    (r_nonce r \<noteq> None \<Longrightarrow> r_nonce r' = r_nonce r) \<Longrightarrow>
    (r_submitted_at r \<noteq> None \<Longrightarrow> r_submitted_at r' \<noteq> None) \<Longrightarrow> row_kept y r r'"
  by (auto simp: row_kept_def)

lemma row_kept_upd_tx:
  assumes "r \<in> set (d_transactions d)" and "r_id r = i \<Longrightarrow> row_kept y r (f r)"
  shows "\<exists>r' \<in> set (d_transactions (upd_tx i f d)). row_kept y r r'"
proof (cases "r_id r = i")
  case True
  with assms show ?thesis by (intro bexI [of _ "f r"]) (auto simp: set_upd_by)
next
  case False
  with assms show ?thesis by (intro bexI [of _ r]) (auto simp: set_upd_by)
qed

lemma assign_effect:
  "increment_stmt s c t d = Inr (n, d1) \<Longrightarrow> set_nonce_stmt i n t' d1 = Inr ((), d') \<Longrightarrow>
    \<exists>k f m. d' = upd_tx i (nonce_row m t') (upd_cursor k f d)"
  by (auto simp: increment_stmt_def set_nonce_stmt_def split: sum.splits option.splits if_splits)

lemma sys_step_rows:
  assumes "sys_step y d d'" and "sys_ok d" and "r \<in> set (d_transactions d)"
  shows "\<exists>r' \<in> set (d_transactions d'). row_kept y r r'"
  using assms
proof (induction rule: sys_step.induct)
  case (step_create tx d d')
  then show ?case by (auto elim!: insert_txE intro!: bexI [of _ r])
next
  case (step_claim q d t)
  have "r_status r = TxStatusQueued" if "r_id r = r_id q"
    using row_unique [OF _ step_claim.prems(2) step_claim.hyps(1) that] step_claim.prems(1)
      step_claim.hyps(2) by (simp add: sys_ok_def)
  then show ?case
    by (intro row_kept_upd_tx step_claim.prems) (auto intro!: row_kept_own, auto simp: claim_row_def)
next
  case (step_assign i d s c t n d1 t' d')
  then have d': "\<exists>k f m. d' = upd_tx i (nonce_row m t') (upd_cursor k f d)"
    by (intro assign_effect)
  have "row_kept y r (nonce_row m t' r)" if "r_id r = i" for m
    using pending_ofD [OF step_assign.prems(1) step_assign.hyps(1) step_assign.prems(2) that]
      unassignedD [OF step_assign.prems(1) step_assign.hyps(2) step_assign.prems(2) that]
    by (intro row_kept_own) (simp_all, simp_all add: nonce_row_def)
  with d' show ?case using step_assign.prems(2) by (auto intro!: row_kept_upd_tx)
next
  case (step_fail_pending i d code reason t)
  show ?case
    using pending_ofD [OF step_fail_pending.prems(1) step_fail_pending.hyps(1) step_fail_pending.prems(2)]
    by (intro row_kept_upd_tx step_fail_pending.prems) (auto intro!: row_kept_own, auto simp: failed_row_def)
next
  case (step_submit i d h t)
  show ?case
    using pending_ofD [OF step_submit.prems(1) step_submit.hyps(1) step_submit.prems(2)]
    by (intro row_kept_upd_tx step_submit.prems) (auto intro!: row_kept_own, auto simp: submitted_row_def)
next
  case (step_receipt i d rc f g t)
  note sub = was_submittedD [OF step_receipt.prems(1) step_receipt.hyps(1) step_receipt.prems(2)]
  have st: "r_id r = i \<Longrightarrow> r_status r \<noteq> TxStatusPending"
    using sub step_receipt.prems by (auto simp: sys_ok_def lifecycle_ok_def row_ok_def)
  have f: "same_payload r (f r)" "r_nonce (f r) = r_nonce r" "r_submitted_at (f r) = r_submitted_at r"
    using step_receipt.hyps(2) by (elim receipt_columnsE; simp add: same_payload_def)+
  have "row_kept y r (g (f r))" if "r_id r = i"
    using st [OF that] step_receipt.hyps(4) f
    by (intro row_kept_own) (auto, auto simp: confirmed_row_def included_row_def reverted_row_def)
  then show ?case by (intro row_kept_upd_tx step_receipt.prems) simp
next
  case (step_resubmit i d t)
  have "r_id r = i \<Longrightarrow> r_status r \<noteq> TxStatusPending"
    using was_submittedD [OF step_resubmit.prems(1) step_resubmit.hyps(1) step_resubmit.prems(2)]
      step_resubmit.prems by (auto simp: sys_ok_def lifecycle_ok_def row_ok_def)
  then show ?case
    by (intro row_kept_upd_tx step_resubmit.prems) (auto intro!: row_kept_own, auto simp: resubmitted_row_def)
next
  case (step_fail_submitted i d code reason t)
  have "r_id r = i \<Longrightarrow> r_status r \<noteq> TxStatusPending"
    using was_submittedD [OF step_fail_submitted.prems(1) step_fail_submitted.hyps(1)
        step_fail_submitted.prems(2)]
      step_fail_submitted.prems by (auto simp: sys_ok_def lifecycle_ok_def row_ok_def)
  then show ?case
    by (intro row_kept_upd_tx step_fail_submitted.prems) (auto intro!: row_kept_own, auto simp: failed_row_def)
next
  case (step_replace i d h t)
  have "r_id r = i \<Longrightarrow> r_status r \<noteq> TxStatusPending"
    using was_submittedD [OF step_replace.prems(1) step_replace.hyps(1) step_replace.prems(2)]
      step_replace.prems by (auto simp: sys_ok_def lifecycle_ok_def row_ok_def)
  then show ?case
    by (intro row_kept_upd_tx step_replace.prems) (auto intro!: row_kept_own, auto simp: submitted_row_def)
qed (auto elim!: insert_attemptE intro!: bexI [of _ r])

text \<open>Attempts are never removed; only their status changes.\<close>

definition attempt_kept :: "attempt_row \<Rightarrow> attempt_row \<Rightarrow> bool" where
  "attempt_kept a a' \<longleftrightarrow> (\<exists>st. a' = a\<lparr>a_status := st\<rparr>)"

lemma attempt_kept_refl [simp]: "attempt_kept a a"
  unfolding attempt_kept_def by (intro exI [of _ "a_status a"]) simp

lemma attempt_kept_status [simp]: "attempt_kept a (a\<lparr>a_status := st\<rparr>)"
  by (auto simp: attempt_kept_def)

lemma attempt_kept_fields:
  "attempt_kept a a' \<Longrightarrow> a_transaction_id a' = a_transaction_id a \<and> a_tx_hash a' = a_tx_hash a
    \<and> a_attempt_number a' = a_attempt_number a \<and> a_raw_tx a' = a_raw_tx a \<and> a_id a' = a_id a"
  by (auto simp: attempt_kept_def)

lemma sys_step_attempts:
  assumes "sys_step y d d'" and "a \<in> set (d_attempts d)"
  shows "\<exists>a' \<in> set (d_attempts d'). attempt_kept a a'"
  using assms
proof (induction rule: sys_step.induct)
  case (step_attempt_status d ai st)
  then show ?case by (auto simp: bex_upd_by intro!: bexI [of _ a])
next
  case (step_assign i d s c t n d1 t' d')
  then show ?case
    using assign_effect [OF step_assign.hyps(3,4)]
    by (auto intro!: bexI [of _ a])
qed (auto elim!: insert_txE insert_attemptE intro!: bexI [of _ a])

section \<open>The environment of a goroutine\<close>

definition other_step :: "string \<Rightarrow> db \<Rightarrow> db \<Rightarrow> bool" where
  "other_step x d d' \<longleftrightarrow> (\<exists>y. y \<noteq> x \<and> sys_step y d d')"

text \<open>Between two statements of \<open>x\<close> the other goroutines make any number of their steps.\<close>

definition rely :: "string \<Rightarrow> world \<Rightarrow> bool" where
  "rely x w \<longleftrightarrow> (\<forall>t d. sys_ok d \<longrightarrow> (other_step x)\<^sup>*\<^sup>* d (w_others w t d))"

text \<open>A state predicate is stable when neither the steps of others nor own steps that keep it end it.\<close>

definition stable_for :: "string \<Rightarrow> (db \<Rightarrow> bool) \<Rightarrow> bool" where
  "stable_for x P \<longleftrightarrow> (\<forall>d d'. sys_ok d \<longrightarrow> P d \<longrightarrow> other_step x d d' \<longrightarrow> P d')"

lemma others_keep:
  assumes "(other_step x)\<^sup>*\<^sup>* d d'" and "sys_ok d" and "stable_for x P" and "P d"
  shows "sys_ok d' \<and> P d'"
  using assms(1)
proof (induction rule: rtranclp_induct)
  case base
  show ?case using assms by simp
next
  case (step d1 d2)
  then show ?case
    using assms(3) sys_step_ok by (auto simp: stable_for_def other_step_def)
qed

lemma rely_db_now:
  assumes "rely x w" and "sys_ok (w_db w)" and "stable_for x P" and "P (w_db w)"
  shows "sys_ok (db_now w) \<and> P (db_now w)"
  using assms others_keep unfolding rely_def db_now_def by blast

definition my_row :: "string \<Rightarrow> tx_row \<Rightarrow> db \<Rightarrow> bool" where
  "my_row x r d \<longleftrightarrow> r \<in> set (d_transactions d) \<and> r_status r = TxStatusPending
     \<and> r_claimed_by r = Some x"

lemma stable_True [simp, intro]: "stable_for x (\<lambda>d. True)"
  by (simp add: stable_for_def)

lemma stable_conj [intro]: "stable_for x P \<Longrightarrow> stable_for x Q \<Longrightarrow> stable_for x (\<lambda>d. P d \<and> Q d)"
  unfolding stable_for_def by blast

lemma stable_my_row [simp, intro]: "stable_for x (my_row x r)"
proof -
  have "my_row x r d'" if a: "sys_ok d" "my_row x r d" "y \<noteq> x" "sys_step y d d'" for y d d'
  proof -
    obtain r' where "r' \<in> set (d_transactions d')" "row_kept y r r'"
      using sys_step_rows [OF a(4,1)] a(2) by (auto simp: my_row_def)
    moreover from this have "r' = r" using a(2,3) by (simp add: row_kept_def my_row_def)
    ultimately show ?thesis using a(2) by (simp add: my_row_def)
  qed
  then show ?thesis unfolding stable_for_def other_step_def by blast
qed

lemma some_row_step:
  assumes "sys_step y d d'" and "sys_ok d" and "\<exists>r \<in> set (d_transactions d). P r"
    and "\<And>r r'. row_kept y r r' \<Longrightarrow> P r \<Longrightarrow> P r'"
  shows "\<exists>r \<in> set (d_transactions d'). P r"
  using assms sys_step_rows by meson

lemma stable_some_row:
  "(\<And>y r r'. row_kept y r r' \<Longrightarrow> P r \<Longrightarrow> P r') \<Longrightarrow>
    stable_for x (\<lambda>d. \<exists>r \<in> set (d_transactions d). P r)"
  unfolding stable_for_def other_step_def using some_row_step by metis

lemma was_submitted_step:
  "sys_step y d d' \<Longrightarrow> sys_ok d \<Longrightarrow> was_submitted i d \<Longrightarrow> was_submitted i d'"
  unfolding was_submitted_def
  by (erule some_row_step) (simp_all add: row_kept_def same_payload_def)

lemma some_attempt_step:
  assumes "sys_step y d d'" and "\<exists>a \<in> set (d_attempts d). P a"
    and "\<And>a st. P a \<Longrightarrow> P (a\<lparr>a_status := st\<rparr>)"
  shows "\<exists>a \<in> set (d_attempts d'). P a"
proof -
  obtain a where a: "a \<in> set (d_attempts d)" "P a" using assms(2) by blast
  obtain a' where a': "a' \<in> set (d_attempts d')" "attempt_kept a a'"
    using sys_step_attempts [OF assms(1) a(1)] by blast
  from a'(2) obtain st where "a' = a\<lparr>a_status := st\<rparr>" unfolding attempt_kept_def by blast
  with a(2) assms(3) have "P a'" by simp
  with a'(1) show ?thesis by blast
qed

lemma recorded_step: "sys_step y d d' \<Longrightarrow> recorded i h d \<Longrightarrow> recorded i h d'"
  unfolding recorded_def by (erule some_attempt_step) simp_all

lemma has_attempt_step: "sys_step y d d' \<Longrightarrow> has_attempt i n d \<Longrightarrow> has_attempt i n d'"
  unfolding has_attempt_def by (erule some_attempt_step) simp_all

lemma stable_monotone [simp, intro]:
  "stable_for x (was_submitted i)" "stable_for x (recorded i h)" "stable_for x (has_attempt i n)"
  unfolding stable_for_def other_step_def
  using was_submitted_step recorded_step has_attempt_step by blast+

section \<open>Runs\<close>

text \<open>
  What a handler does to the world: \<open>runs G S w v\<close> when \<open>v\<close> is reached from \<open>w\<close> by statements that
  each make a step of \<open>G\<close> on the database the statement ran on, by broadcasts of transactions that
  \<open>S\<close> allows in the database of that moment, and by work that leaves database and network alone.
\<close>

definition still :: "world \<Rightarrow> world \<Rightarrow> bool" where
  "still w v \<longleftrightarrow> w_db v = w_db w \<and> w_sent v = w_sent w \<and> w_clock v = w_clock w
     \<and> w_ulid v = w_ulid w \<and> w_done v = w_done w \<and> w_dbres v = w_dbres w
     \<and> w_maporder v = w_maporder w \<and> w_others v = w_others w \<and> w_rpc v = w_rpc w
     \<and> w_steps v = w_steps w \<and> w_tick w \<le> w_tick v"

inductive runs ::
    "(db \<Rightarrow> db \<Rightarrow> bool) \<Rightarrow> (db \<Rightarrow> signed_tx \<Rightarrow> bool) \<Rightarrow> world \<Rightarrow> world \<Rightarrow> bool" for G S w where
  runs_start: "runs G S w w"
| runs_still: "runs G S w u \<Longrightarrow> still u v \<Longrightarrow> runs G S w v"
| runs_stmt: "runs G S w u \<Longrightarrow> same_env u v \<Longrightarrow> w_steps v = w_steps u @ [(d, w_db v)] \<Longrightarrow>
    d \<in> {w_db u, db_now u} \<Longrightarrow> G d (w_db v) \<Longrightarrow> runs G S w v"
| runs_send: "runs G S w u \<Longrightarrow> sends_only cid s u v \<Longrightarrow> S (w_db u) s \<Longrightarrow> runs G S w v"

lemma still_refl [simp]: "still w w"
  by (simp add: still_def)

lemma still_tick [simp, intro]: "still w v \<Longrightarrow> still w (tick v)"
  by (simp add: still_def)

lemma quiet_still: "quiet w v \<Longrightarrow> still w v"
  by (simp add: quiet_def rpc_frame_def still_def)

lemma runs_trans: "runs G S u v \<Longrightarrow> runs G S w u \<Longrightarrow> runs G S w v"
  by (induction rule: runs.induct) (auto intro: runs.intros)

lemma runs_mono:
  assumes "runs G S w v" and "\<And>d s. S d s \<Longrightarrow> S' d s"
  shows "runs G S' w v"
  using assms(1) by (induction rule: runs.induct) (auto intro: runs.intros assms(2))

lemma runs_one:
  "same_env w v \<Longrightarrow> w_steps v = w_steps w @ [(d, w_db v)] \<Longrightarrow> d \<in> {w_db w, db_now w} \<Longrightarrow>
    G d (w_db v) \<Longrightarrow> runs G S w v"
  using runs_stmt runs_start by metis

text \<open>The history of own steps of a run, what it sent, and what it leaves of the environment.\<close>

lemma runs_steps:
  "runs G S w v \<Longrightarrow> \<exists>ss. w_steps v = w_steps w @ ss \<and> (\<forall>(d, d') \<in> set ss. G d d')"
  by (induction rule: runs.induct) (auto simp: still_def sends_only_def rpc_frame_def)

lemma runs_env: "runs G S w v \<Longrightarrow> w_others v = w_others w \<and> w_dbres v = w_dbres w
    \<and> w_done v = w_done w \<and> w_clock v = w_clock w \<and> w_rpc v = w_rpc w"
  by (induction rule: runs.induct) (auto simp: still_def sends_only_def rpc_frame_def same_env_def)

lemma runs_rely: "runs G S w v \<Longrightarrow> rely x w \<Longrightarrow> rely x v"
  using runs_env by (simp add: rely_def)

text \<open>A fact that every step and the environment keep holds along a run.\<close>

definition kept_by_all :: "(db \<Rightarrow> bool) \<Rightarrow> bool" where
  "kept_by_all P \<longleftrightarrow> (\<forall>y d d'. sys_ok d \<longrightarrow> P d \<longrightarrow> sys_step y d d' \<longrightarrow> P d')"

lemma kept_stable: "kept_by_all P \<Longrightarrow> stable_for x P"
  unfolding kept_by_all_def stable_for_def other_step_def by blast

lemma kept_some_row:
  "(\<And>y r r'. row_kept y r r' \<Longrightarrow> P r \<Longrightarrow> P r') \<Longrightarrow>
    kept_by_all (\<lambda>d. \<exists>r \<in> set (d_transactions d). P r)"
  unfolding kept_by_all_def using some_row_step by metis

lemma kept_some_attempt:
  "(\<And>a st. P a \<Longrightarrow> P (a\<lparr>a_status := st\<rparr>)) \<Longrightarrow> kept_by_all (\<lambda>d. \<exists>a \<in> set (d_attempts d). P a)"
  unfolding kept_by_all_def using some_attempt_step by metis

lemma kept_conj [intro]: "kept_by_all P \<Longrightarrow> kept_by_all Q \<Longrightarrow> kept_by_all (\<lambda>d. P d \<and> Q d)"
  unfolding kept_by_all_def by blast

lemma kept_ex [intro]: "(\<And>a. kept_by_all (P a)) \<Longrightarrow> kept_by_all (\<lambda>d. \<exists>a. P a d)"
  unfolding kept_by_all_def by blast

lemma kept_monotone [simp, intro]:
  "kept_by_all (was_submitted i)" "kept_by_all (recorded i h)" "kept_by_all (has_attempt i n)"
  unfolding kept_by_all_def using was_submitted_step recorded_step has_attempt_step by blast+

lemma runs_keep:
  assumes "runs (sys_step x) S w v" and "rely x w" and "sys_ok (w_db w)" and "kept_by_all P"
    and "P (w_db w)"
  shows "sys_ok (w_db v) \<and> P (w_db v)"
  using assms(1)
proof (induction rule: runs.induct)
  case runs_start
  show ?case using assms by simp
next
  case (runs_still u v)
  then show ?case by (simp add: still_def)
next
  case (runs_send u cid s v)
  then show ?case by (simp add: sends_only_def rpc_frame_def)
next
  case (runs_stmt u v d)
  then have "sys_ok d \<and> P d"
    using rely_db_now [OF runs_rely [OF runs_stmt.hyps(1) assms(2)]] kept_stable [OF assms(4)] by auto
  with runs_stmt.hyps(5) assms(4) show ?case using sys_step_ok unfolding kept_by_all_def by blast
qed

text \<open>What a run sent was allowed at the time, so it still has every fact that is kept.\<close>

lemma runs_sent:
  assumes "runs (sys_step x) S w v" and "rely x w" and "sys_ok (w_db w)"
    and "\<And>s. kept_by_all (\<lambda>d. S d s)"
  shows "\<exists>new. w_sent v = w_sent w @ new \<and> (\<forall>(cid, url, s) \<in> set new. S (w_db v) s)"
  using assms(1)
proof (induction rule: runs.induct)
  case (runs_still u v)
  then show ?case by (simp add: still_def)
next
  case (runs_send u cid s v)
  obtain new where new: "w_sent u = w_sent w @ new" "\<forall>(cid, url, s) \<in> set new. S (w_db u) s"
    using runs_send.IH by blast
  obtain urls where urls: "w_sent v = w_sent u @ map (\<lambda>url. (cid, url, s)) urls" "w_db v = w_db u"
    using runs_send.hyps(2) unfolding sends_only_def rpc_frame_def by blast
  have "w_sent v = w_sent w @ new @ map (\<lambda>url. (cid, url, s)) urls" using new(1) urls(1) by simp
  moreover have "\<forall>(cid, url, s) \<in> set (new @ map (\<lambda>url. (cid, url, s)) urls). S (w_db v) s"
    using new(2) urls(2) runs_send.hyps(3) by auto
  ultimately show ?case by blast
next
  case (runs_stmt u v d)
  have one: "runs (sys_step x) S u v"
    using runs_stmt.hyps(2-5) by (rule runs_one)
  have "kept_by_all (\<lambda>d. True)" by (simp add: kept_by_all_def)
  then have u: "rely x u" "sys_ok (w_db u)"
    using runs_rely [OF runs_stmt.hyps(1) assms(2)]
      runs_keep [OF runs_stmt.hyps(1) assms(2,3), of "\<lambda>d. True"] by simp_all
  from runs_stmt.IH obtain new where new: "w_sent u = w_sent w @ new"
    "\<forall>(cid, url, s) \<in> set new. S (w_db u) s" by blast
  have keep: "S (w_db v) s" if "S (w_db u) s" for s
    using runs_keep [OF one u assms(4) that] by simp
  from new(2) have "\<forall>(cid, url, s) \<in> set new. S (w_db v) s" using keep by auto
  with new(1) runs_stmt.hyps(2) show ?case by (auto simp: same_env_def)
qed simp

text \<open>The identifiers of the transactions grow only when somebody creates one.\<close>

definition tx_ids :: "db \<Rightarrow> string set" where
  "tx_ids d = r_id ` set (d_transactions d)"

definition ids_within :: "string set \<Rightarrow> world \<Rightarrow> bool" where
  "ids_within U w \<longleftrightarrow> tx_ids (w_db w) \<subseteq> U \<and> (\<forall>t d. tx_ids d \<subseteq> U \<longrightarrow> tx_ids (w_others w t d) \<subseteq> U)"

lemma tx_ids_upd_tx: "keeps_keys f \<Longrightarrow> tx_ids (upd_tx i f d) = tx_ids d"
  using keys_upd_by [of r_id f i "d_transactions d"]
  by (simp add: tx_ids_def keeps_keys_def flip: set_map)

lemma sys_step_ids: "sys_step x d d' \<Longrightarrow> x \<noteq> ''api'' \<Longrightarrow> tx_ids d' = tx_ids d"
proof (induction rule: sys_step.induct)
  case (step_assign i d s c t n d1 t' d')
  obtain k f m where "d' = upd_tx i (nonce_row m t') (upd_cursor k f d)"
    using assign_effect [OF step_assign.hyps(3,4)] by blast
  then show ?case by (simp add: tx_ids_upd_tx) (simp add: tx_ids_def)
next
  case (step_receipt i d rc f g t)
  then have "keeps_keys (g \<circ> f)" using keeps_keys_comp receipt_columns_keeps keeps_keys_rows by auto
  then show ?case by (rule tx_ids_upd_tx)
qed (simp_all add: tx_ids_upd_tx, auto simp: tx_ids_def elim!: insert_attemptE)

lemma runs_ids:
  assumes "runs (sys_step x) S w v" and "x \<noteq> ''api''" and "ids_within U w"
  shows "ids_within U v"
  using assms(1)
proof (induction rule: runs.induct)
  case runs_start
  show ?case using assms by simp
next
  case (runs_stmt u v d)
  have U: "tx_ids (w_db u) \<subseteq> U" "\<And>t d. tx_ids d \<subseteq> U \<Longrightarrow> tx_ids (w_others u t d) \<subseteq> U"
    using runs_stmt.IH by (auto simp: ids_within_def)
  then have "tx_ids (db_now u) \<subseteq> U" by (simp add: db_now_def)
  with U(1) have "tx_ids (w_db v) \<subseteq> U"
    using sys_step_ids [OF runs_stmt.hyps(5) assms(2)] runs_stmt.hyps(4) by auto
  with U(2) runs_stmt.hyps(2) show ?case by (simp add: ids_within_def same_env_def)
qed (auto simp: ids_within_def still_def sends_only_def rpc_frame_def)

section \<open>Statements as steps\<close>

definition one_stmt :: "world \<Rightarrow> world \<Rightarrow> bool" where
  "one_stmt w v \<longleftrightarrow> same_env w v \<and> w_steps v = w_steps w @ [(db_now w, w_db v)]
     \<and> w_tick v = Suc (w_tick w)"

lemma one_stmt_run: "run_stmt st w = (r, v) \<Longrightarrow> one_stmt w v"
  using same_env_run_stmt [of st w r v] run_stmt_steps [of st w r v] by (simp add: one_stmt_def)

lemma one_stmt_exec: "exec st w = (r, v) \<Longrightarrow> one_stmt w v"
  using same_env_exec [of st w r v] exec_steps [of st w r v] by (simp add: one_stmt_def)

lemma one_stmt_query: "query q w = (r, v) \<Longrightarrow> one_stmt w v"
  using same_env_query [of q w r v] query_steps [of q w r v] by (simp add: one_stmt_def)

lemma one_stmt_calls:
  "CreateTransaction tx w = (e, v) \<Longrightarrow> one_stmt w v"
  "GetTransaction i w = (ot, v) \<Longrightarrow> one_stmt w v"
  "GetTransactionByIdempotencyKey k w = (oot, v) \<Longrightarrow> one_stmt w v"
  "ClaimNextQueued s c x w = (oot, v) \<Longrightarrow> one_stmt w v"
  "MarkSubmitted i h w = (e, v) \<Longrightarrow> one_stmt w v"
  "MarkConfirmed i rc w = (e, v) \<Longrightarrow> one_stmt w v"
  "MarkIncluded i rc w = (e, v) \<Longrightarrow> one_stmt w v"
  "MarkReverted i rc w = (e, v) \<Longrightarrow> one_stmt w v"
  "RevertToSubmitted i w = (e, v) \<Longrightarrow> one_stmt w v"
  "MarkFailed i code reason w = (e, v) \<Longrightarrow> one_stmt w v"
  "CreateAttempt a w = (e, v) \<Longrightarrow> one_stmt w v"
  "GetAttemptsByTransactionID i w = (ats, v) \<Longrightarrow> one_stmt w v"
  "MarkAttemptStatus ai st w = (e, v) \<Longrightarrow> one_stmt w v"
  "LogStateTransition l w = (e, v) \<Longrightarrow> one_stmt w v"
  "GetSubmittedTransactions c lm aft w = (ts, v) \<Longrightarrow> one_stmt w v"
  "GetIncludedTransactions c lm aft w = (ts, v) \<Longrightarrow> one_stmt w v"
  "GetStuckTransactions c tm w = (ts, v) \<Longrightarrow> one_stmt w v"
  "CountQueuedTransactions s c w = (cnt, v) \<Longrightarrow> one_stmt w v"
  by (auto simp: CreateTransaction_def GetTransaction_def GetTransactionByIdempotencyKey_def
      ClaimNextQueued_def MarkSubmitted_def MarkConfirmed_def MarkIncluded_def MarkReverted_def
      mark_receipt_def RevertToSubmitted_def MarkFailed_def CreateAttempt_def
      GetAttemptsByTransactionID_def MarkAttemptStatus_def LogStateTransition_def
      GetSubmittedTransactions_def GetIncludedTransactions_def get_page_def
      GetStuckTransactions_def CountQueuedTransactions_def Let_def dest!: no_rows_is_nil_eq
      dest: one_stmt_run one_stmt_exec one_stmt_query)

text \<open>The state of a goroutine between statements: its environment behaves, the database is good.\<close>

definition good :: "string \<Rightarrow> world \<Rightarrow> bool" where
  "good x w \<longleftrightarrow> rely x w \<and> sys_ok (w_db w)"

definition goes :: "string \<Rightarrow> (db \<Rightarrow> signed_tx \<Rightarrow> bool) \<Rightarrow> world \<Rightarrow> world \<Rightarrow> bool" where
  "goes x S w v \<longleftrightarrow> runs (sys_step x) S w v \<and> good x v"

text \<open>
  The rule for one statement: with a stable precondition, it makes a step of the protocol and
  establishes a postcondition.
\<close>

lemma stmt_step:
  assumes "good x w" and "one_stmt w v" and "stable_for x P" and "P (w_db w)"
    and "sys_ok (db_now w) \<Longrightarrow> P (db_now w) \<Longrightarrow> sys_step x (db_now w) (w_db v) \<and> Q (w_db v)"
  shows "goes x S w v \<and> Q (w_db v)"
proof -
  have now: "sys_ok (db_now w)" "P (db_now w)"
    using rely_db_now assms(1,3,4) by (auto simp: good_def)
  with assms(5) have st: "sys_step x (db_now w) (w_db v)" and Q: "Q (w_db v)" by auto
  have run: "runs (sys_step x) S w v"
    using assms(2) st by (intro runs_one [of _ _ "db_now w"]) (auto simp: one_stmt_def)
  then show ?thesis
    using assms(1) now st Q sys_step_ok runs_rely by (auto simp: good_def goes_def)
qed

lemma goes_start [simp]: "goes x S w w = good x w"
  by (auto simp: goes_def intro: runs_start)

lemma goes_trans: "goes x S w u \<Longrightarrow> goes x S u v \<Longrightarrow> goes x S w v"
  using runs_trans by (auto simp: goes_def)

lemma goes_good: "goes x S w v \<Longrightarrow> good x v"
  by (simp add: goes_def)

lemma still_step: "still w v \<Longrightarrow> good x w \<Longrightarrow> goes x S w v"
  using runs_still [OF runs_start] by (auto simp: goes_def good_def rely_def still_def)

lemma send_step: "sends_only cid s w v \<Longrightarrow> good x w \<Longrightarrow> S (w_db w) s \<Longrightarrow> goes x S w v"
  unfolding goes_def
  by (intro conjI runs_send [OF runs_start]) (auto simp: good_def rely_def sends_only_def rpc_frame_def)

lemma goes_keep: "goes x S w v \<Longrightarrow> good x w \<Longrightarrow> kept_by_all P \<Longrightarrow> P (w_db w) \<Longrightarrow> P (w_db v)"
  unfolding goes_def good_def using runs_keep by blast

lemma goes_sent:
  assumes "goes x S w v" and "good x w" and "\<And>s. kept_by_all (\<lambda>d. S d s)"
  shows "\<exists>new. w_sent v = w_sent w @ new \<and> (\<forall>(cid, url, s) \<in> set new. S (w_db v) s)"
proof (rule runs_sent)
  show "runs (sys_step x) S w v" "rely x w" "sys_ok (w_db w)"
    using assms(1,2) by (simp_all add: goes_def good_def)
qed (rule assms(3))

lemma stable_ex [intro]: "(\<And>a. stable_for x (P a)) \<Longrightarrow> stable_for x (\<lambda>d. \<exists>a. P a d)"
  unfolding stable_for_def by blast

text \<open>The row a pipeline works on.\<close>

definition owned :: "string \<Rightarrow> string \<Rightarrow> (tx_row \<Rightarrow> bool) \<Rightarrow> db \<Rightarrow> bool" where
  "owned x i R d \<longleftrightarrow> (\<exists>r. my_row x r d \<and> (r_id r = i \<and> R r))"

lemma stable_const [simp, intro]: "stable_for x (\<lambda>d. c)"
  by (simp add: stable_for_def)

lemma stable_owned [simp, intro]: "stable_for x (owned x i R)"
  unfolding owned_def [abs_def] by (intro stable_ex stable_conj stable_my_row stable_const)

lemma owned_mono: "owned x i R d \<Longrightarrow> (\<And>r. R r \<Longrightarrow> S r) \<Longrightarrow> owned x i S d"
  unfolding owned_def by blast

lemma owned_pending: "owned x i R d \<Longrightarrow> pending_of x i d"
  unfolding owned_def my_row_def pending_of_def by blast

lemma owned_attempts [simp]: "owned x i R (d\<lparr>d_attempts := as\<rparr>) = owned x i R d"
  by (simp add: owned_def my_row_def)

lemma owned_log [simp]: "owned x i R (d\<lparr>d_log := l\<rparr>) = owned x i R d"
  by (simp add: owned_def my_row_def)

lemma owned_has_nonce: "owned x i (\<lambda>r. r_nonce r \<noteq> None) d \<Longrightarrow> has_nonce i d"
  unfolding owned_def my_row_def has_nonce_def by blast

lemma owned_upd_tx:
  assumes "owned x i R d"
    and "\<And>r. r_id (f r) = r_id r \<and> r_status (f r) = r_status r \<and> r_claimed_by (f r) = r_claimed_by r"
    and "\<And>r. R r \<Longrightarrow> R' (f r)"
  shows "owned x i R' (upd_tx i f d)"
proof -
  obtain r where r: "r \<in> set (d_transactions d)" "r_status r = TxStatusPending"
    "r_claimed_by r = Some x" "r_id r = i" "R r" using assms(1) by (auto simp: owned_def my_row_def)
  then have "f r \<in> set (d_transactions (upd_tx i f d))" by (auto simp: set_upd_by)
  with r assms(2,3) show ?thesis unfolding owned_def my_row_def by metis
qed

lemma owned_unassigned:
  "owned x i (\<lambda>r. r_nonce r = None \<and> r_sender r = s \<and> r_chain_id r = c) d \<Longrightarrow> unassigned i s c d"
  unfolding owned_def my_row_def unassigned_def by blast

text \<open>The calls a pipeline makes on its row.\<close>

lemma log_step:
  assumes "LogStateTransition l w = (e, v)" and "good x w" and "stable_for x P" and "P (w_db w)"
    and "\<And>d l. P d \<Longrightarrow> P (d\<lparr>d_log := l\<rparr>)"
  shows "goes x S w v \<and> P (w_db v)"
  using assms(2) one_stmt_calls(14) [OF assms(1)] assms(3,4)
proof (rule stmt_step)
  assume "P (db_now w)"
  then show "sys_step x (db_now w) (w_db v) \<and> P (w_db v)"
    using Log_effect [OF assms(1)] assms(5) by (auto intro: sys_step.intros)
qed

lemma fail_step:
  assumes "MarkFailed i code reason w = (e, v)" and "good x w" and "owned x i R (w_db w)"
  shows "goes x S w v"
proof -
  have "goes x S w v \<and> True"
    using assms(2) one_stmt_calls(10) [OF assms(1)] stable_owned assms(3)
  proof (rule stmt_step)
    assume "owned x i R (db_now w)"
    then show "sys_step x (db_now w) (w_db v) \<and> True"
      using MarkFailed_effect [OF assms(1)] step_fail_pending [OF owned_pending] step_idle by metis
  qed
  then show ?thesis by simp
qed

section \<open>What may be broadcast\<close>

text \<open>The signed transaction is the one the row asks for, and its bytes are stored as an attempt.\<close>

definition describes :: "'key eth_lib \<Rightarrow> tx_row \<Rightarrow> signed_tx \<Rightarrow> bool" where
  "describes L r s \<longleftrightarrow> r_nonce r = Some (int (unat (eth_tx_nonce (st_inner s))))
     \<and> eth_tx_to (st_inner s) = HexToAddress L (r_to_address r)
     \<and> eth_tx_value (st_inner s) = Some (r_value r) \<and> eth_tx_data (st_inner s) = r_data r"

definition stored :: "'key eth_lib \<Rightarrow> string \<Rightarrow> signed_tx \<Rightarrow> db \<Rightarrow> bool" where
  "stored L i s d \<longleftrightarrow> (\<exists>a \<in> set (d_attempts d). a_transaction_id a = i
     \<and> a_tx_hash a = Hash_Hex L (Tx_Hash L s) \<and> MarshalBinary L s = Inr (a_raw_tx a))"

definition accounted :: "'key eth_lib \<Rightarrow> db \<Rightarrow> signed_tx \<Rightarrow> bool" where
  "accounted L d s \<longleftrightarrow> (\<exists>i. (\<exists>r \<in> set (d_transactions d). r_id r = i \<and> describes L r s)
     \<and> stored L i s d)"

lemma kept_stored [intro]: "kept_by_all (stored L i s)"
  unfolding stored_def [abs_def] by (rule kept_some_attempt) simp

lemma kept_accounted [intro]: "kept_by_all (\<lambda>d. accounted L d s)"
  unfolding accounted_def
  by (intro kept_ex kept_conj kept_some_row kept_stored)
    (auto simp: row_kept_def same_payload_def describes_def)

lemma stored_recorded: "stored L i s d \<Longrightarrow> recorded i (Hash_Hex L (Tx_Hash L s)) d"
  unfolding stored_def recorded_def by blast

section \<open>What follows for every interleaving\<close>

text \<open>
  The database of a fresh installation has no transactions; its cursors are set when the service
  starts. Every goroutine may take the next step.
\<close>

definition fresh :: "db \<Rightarrow> bool" where
  "fresh d \<longleftrightarrow> d_transactions d = [] \<and> d_attempts d = [] \<and> cursors_ok (d_cursors d)"

definition any_step :: "db \<Rightarrow> db \<Rightarrow> bool" where
  "any_step d d' \<longleftrightarrow> (\<exists>x. sys_step x d d')"

lemma fresh_sys_ok: "fresh d \<Longrightarrow> sys_ok d"
  by (simp add: fresh_def sys_ok_def db_ok_def txs_ok_def attempts_ok_def lifecycle_ok_def
      nonces_ok_def numbering_ok_def)

lemma reachable_sys_ok: "any_step\<^sup>*\<^sup>* d d' \<Longrightarrow> sys_ok d \<Longrightarrow> sys_ok d'"
  by (induction rule: rtranclp_induct) (auto simp: any_step_def intro: sys_step_ok)

lemma reachable_recorded: "any_step\<^sup>*\<^sup>* d d' \<Longrightarrow> recorded i h d \<Longrightarrow> recorded i h d'"
  by (induction rule: rtranclp_induct) (auto simp: any_step_def intro: recorded_step)

text \<open>The attempts of a transaction in the order of \<open>attempts_of\<close>.\<close>

lemma down_closed_set:
  fixes S :: "int set"
  assumes "finite S" and "\<And>n. n \<in> S \<Longrightarrow> 1 \<le> n" and "\<And>n. n \<in> S \<Longrightarrow> n \<noteq> 1 \<Longrightarrow> n - 1 \<in> S"
  shows "S = {1..int (card S)}"
proof (cases "S = {}")
  case False
  define m where "m = Max S"
  have m: "m \<in> S" "\<And>n. n \<in> S \<Longrightarrow> n \<le> m" using False assms(1) by (auto simp: m_def)
  have down: "m - int k \<in> S" if "int k < m" for k
    using that
  proof (induction k)
    case 0
    then show ?case using m(1) by simp
  next
    case (Suc k)
    then have "m - int k \<in> S" "m - int k \<noteq> 1" by auto
    then show ?case using assms(3) [of "m - int k"] by (simp add: algebra_simps)
  qed
  have "n \<in> S" if n: "1 \<le> n" "n \<le> m" for n
  proof -
    have "m - int (nat (m - n)) \<in> S" by (rule down) (use n in simp)
    then show ?thesis using n by (simp only: int_nat_eq) (simp split: if_splits)
  qed
  then have "{1..m} \<subseteq> S" by (meson atLeastAtMost_iff subsetI)
  moreover have "S \<subseteq> {1..m}" using m(2) assms(2) by (meson atLeastAtMost_iff subsetI)
  ultimately have "S = {1..m}" by (rule subset_antisym [rotated])
  moreover have "0 \<le> m" using m assms(2) by fastforce
  ultimately have "int (card S) = m" by simp
  show ?thesis unfolding \<open>int (card S) = m\<close> by (rule \<open>S = {1..m}\<close>)
qed simp

definition numbers_of :: "string \<Rightarrow> db \<Rightarrow> int list" where
  "numbers_of i d = map a_attempt_number (attempts_of i d)"

lemma set_attempts_of [simp]:
  "set (attempts_of i d) = {a \<in> set (d_attempts d). a_transaction_id a = i}"
  by (simp add: attempts_of_def)

lemma sorted_numbers_of [simp]: "sorted (numbers_of i d)"
  by (simp add: numbers_of_def attempts_of_def)

lemma distinct_numbers_of: "attempts_ok ids (d_attempts d) \<Longrightarrow> distinct (numbers_of i d)"
proof -
  assume "attempts_ok ids (d_attempts d)"
  then have "distinct (map a_key (d_attempts d))" by (simp add: attempts_ok_def)
  then have "inj_on a_key (set (d_attempts d))" "distinct (d_attempts d)"
    by (simp_all add: distinct_map)
  then have "inj_on a_attempt_number (set (attempts_of i d))" "distinct (attempts_of i d)"
    by (auto simp: inj_on_def a_key_def attempts_of_def)
  then show ?thesis by (simp add: numbers_of_def distinct_map)
qed

lemma numbers_of_ok:
  assumes "sys_ok d"
  shows "numbers_of i d = map int [1..<Suc (length (attempts_of i d))]
    \<and> length (attempts_of i d) \<le> 6"
proof -
  let ?S = "set (numbers_of i d)"
  have num: "\<And>a. a \<in> set (d_attempts d) \<Longrightarrow> 1 \<le> a_attempt_number a \<and> a_attempt_number a \<le> 6
     \<and> (a_attempt_number a \<noteq> 1 \<longrightarrow> has_attempt (a_transaction_id a) (a_attempt_number a - 1) d)"
    using assms by (auto simp: sys_ok_def numbering_ok_def)
  have dist: "distinct (numbers_of i d)"
    using assms distinct_numbers_of by (auto simp: sys_ok_def db_ok_def)
  then have card: "card ?S = length (attempts_of i d)"
    by (simp add: distinct_card) (simp add: numbers_of_def)
  have "?S = {1..int (card ?S)}"
  proof (rule down_closed_set)
    fix n
    assume "n \<in> ?S" "n \<noteq> 1"
    then obtain a where "a \<in> set (d_attempts d)" "a_transaction_id a = i" "a_attempt_number a = n"
      by (auto simp: numbers_of_def)
    with num [of a] \<open>n \<noteq> 1\<close> show "n - 1 \<in> ?S"
      by (auto simp: has_attempt_def numbers_of_def image_iff)
  qed (use num in \<open>auto simp: numbers_of_def\<close>)
  then have S: "?S = {1..int (length (attempts_of i d))}" by (simp add: card)
  have "length (attempts_of i d) \<le> 6"
  proof (rule ccontr)
    assume "\<not> length (attempts_of i d) \<le> 6"
    then have "7 \<in> ?S" by (simp add: S)
    then obtain a where "a \<in> set (d_attempts d)" "a_attempt_number a = 7"
      by (auto simp: numbers_of_def)
    with num [of a] show False by simp
  qed
  moreover have "set (map int [1..<Suc (length (attempts_of i d))]) = ?S"
    unfolding S by (simp only: set_map set_upt atLeastLessThanSuc_atLeastAtMost
        image_int_atLeastAtMost of_nat_1)
  then have "numbers_of i d = map int [1..<Suc (length (attempts_of i d))]"
    using dist by (intro sorted_distinct_set_unique) (auto simp: distinct_map sorted_map simp del: upt_Suc)
  ultimately show ?thesis by simp
qed

text \<open>A concrete history: a transaction is created, claimed, given its nonce, signed and submitted.\<close>

definition start_db :: db where
  "start_db = empty_db\<lparr>d_cursors := [\<lparr>c_sender = ''0x7'', c_chain_id = 1, c_next_nonce = 5,
     c_updated_at = 0\<rparr>]\<rparr>"

definition claimed_db :: db where
  "claimed_db = upd_tx ''t1'' (claim_row ''p'' 0) queued_db"

definition assigned_db :: db where
  "assigned_db = upd_tx ''t1'' (nonce_row 5 0) (upd_cursor (''0x7'', 1)
     (\<lambda>c. c\<lparr>c_next_nonce := c_next_nonce c + 1, c_updated_at := 0\<rparr>) claimed_db)"

definition sample_attempt :: "int \<Rightarrow> tx_attempt" where
  "sample_attempt n = \<lparr>at_ID = ''A'', at_TransactionID = ''t1'', at_AttemptNumber = n,
     at_TxHash = ''0x9'', at_GasLimit = 21000, at_MaxFeePerGas = None,
     at_MaxPriorityFeePerGas = None, at_GasPrice = Some 7, at_TxType = 0, at_RawTx = [1],
     at_Status = AttemptBroadcast, at_ErrorReason = [], at_CreatedAt = 0, at_ConfirmedAt = None\<rparr>"

definition sample_attempt_row :: "int \<Rightarrow> attempt_row" where
  "sample_attempt_row n = \<lparr>a_id = ''A'', a_transaction_id = ''t1'', a_attempt_number = n,
     a_tx_hash = ''0x9'', a_gas_limit = 21000, a_max_fee_per_gas = None,
     a_max_priority_fee_per_gas = None, a_gas_price = Some 7, a_tx_type = 0, a_raw_tx = [1],
     a_status = AttemptBroadcast, a_error_reason = None, a_created_at = 0, a_confirmed_at = None\<rparr>"

definition submitted_db :: db where
  "submitted_db = upd_tx ''t1'' (submitted_row ''0x9'' 0)
     (assigned_db\<lparr>d_attempts := [sample_attempt_row 1]\<rparr>)"

lemma fresh_start_db [simp]: "fresh start_db"
  by (simp add: fresh_def start_db_def empty_db_def cursors_ok_def)

lemma sample_claimed: "d_transactions claimed_db = [claim_row ''p'' 0 sample_row]"
  by (simp add: claimed_db_def claim_row_def)

lemma sample_assigned: "d_transactions assigned_db = [nonce_row 5 0 (claim_row ''p'' 0 sample_row)]"
  by (simp add: assigned_db_def sample_claimed) (simp add: claim_row_def)

lemma sample_attempt_row: "attempt_row_of (sample_attempt n) = Inr (sample_attempt_row n)"
  by (simp add: attempt_row_of_def sample_attempt_def sample_attempt_row_def bigint_def
      nullable_numeric78_def bigIntToString_def numeric78_def)

lemma any_stepI: "sys_step x d d' \<Longrightarrow> any_step\<^sup>*\<^sup>* d0 d \<Longrightarrow> any_step\<^sup>*\<^sup>* d0 d'"
  by (rule rtranclp.rtrancl_into_rtrancl) (auto simp: any_step_def)

lemma reach_queued: "any_step\<^sup>*\<^sup>* start_db queued_db"
proof (rule any_stepI)
  show "sys_step ''api'' start_db queued_db"
    by (rule step_create [where tx = sample_tx])
      (simp_all add: insert_tx_def sample_tx_def sample_row_def bigint_def numeric78_def
        start_db_def queued_db_def empty_db_def nullIfEmpty_def)
qed simp

lemma reach_claimed: "any_step\<^sup>*\<^sup>* start_db claimed_db"
  using any_stepI [OF step_claim [where r = sample_row and x = "''p''" and t = 0 and d = queued_db]
      reach_queued] by (simp add: claimed_db_def)

lemma claimed_pending: "pending_of ''p'' ''t1'' claimed_db" "unassigned ''t1'' ''0x7'' 1 claimed_db"
  by (simp_all add: pending_of_def unassigned_def sample_claimed) (simp_all add: claim_row_def)

lemma reach_assigned: "any_step\<^sup>*\<^sup>* start_db assigned_db"
proof (rule any_stepI [OF _ reach_claimed])
  show "sys_step ''p'' claimed_db assigned_db"
  proof (rule step_assign)
    show "pending_of ''p'' ''t1'' claimed_db" "unassigned ''t1'' ''0x7'' (int (unat (1 :: u64))) claimed_db"
      using claimed_pending by simp_all
    show "increment_stmt ''0x7'' 1 0 claimed_db = Inr (5, upd_cursor (''0x7'', 1)
        (\<lambda>c. c\<lparr>c_next_nonce := c_next_nonce c + 1, c_updated_at := 0\<rparr>) claimed_db)"
      by (simp add: increment_stmt_def bigint_def claimed_db_def c_key_def)
    show "set_nonce_stmt ''t1'' 5 0 (upd_cursor (''0x7'', 1)
        (\<lambda>c. c\<lparr>c_next_nonce := c_next_nonce c + 1, c_updated_at := 0\<rparr>) claimed_db)
      = Inr ((), assigned_db)"
      by (simp add: set_nonce_stmt_def bigint_def assigned_db_def)
  qed
qed

lemma assigned_pending: "pending_of ''p'' ''t1'' assigned_db"
  by (simp add: pending_of_def sample_assigned) (simp add: claim_row_def nonce_row_def)

lemma assigned_no_attempts: "d_attempts assigned_db = []"
  by (simp add: assigned_db_def claimed_db_def)

lemma reach_attempted: "any_step\<^sup>*\<^sup>* start_db (assigned_db\<lparr>d_attempts := [sample_attempt_row 1]\<rparr>)"
proof (rule any_stepI [OF _ reach_assigned])
  have "insert_attempt (sample_attempt 1) assigned_db
      = Inr (assigned_db\<lparr>d_attempts := [sample_attempt_row 1]\<rparr>)"
    by (simp add: insert_attempt_def sample_attempt_row assigned_no_attempts sample_assigned)
      (simp add: sample_attempt_row_def claim_row_def nonce_row_def)
  then show "sys_step ''p'' assigned_db (assigned_db\<lparr>d_attempts := [sample_attempt_row 1]\<rparr>)"
    by (rule step_first_attempt [OF assigned_pending]) (simp_all only: sample_attempt_def tx_attempt.simps)
qed

lemma reach_submitted: "any_step\<^sup>*\<^sup>* start_db submitted_db"
proof (rule any_stepI [OF _ reach_attempted])
  show "sys_step ''p'' (assigned_db\<lparr>d_attempts := [sample_attempt_row 1]\<rparr>) submitted_db"
    unfolding submitted_db_def
  proof (rule step_submit)
    show "pending_of ''p'' ''t1'' (assigned_db\<lparr>d_attempts := [sample_attempt_row 1]\<rparr>)"
      using assigned_pending by (simp add: pending_of_def)
  qed (simp_all add: has_nonce_def recorded_def sample_assigned sample_attempt_row_def,
       simp add: nonce_row_def claim_row_def)
qed

definition sample_final :: tx_row where
  "sample_final = submitted_row ''0x9'' 0 (nonce_row 5 0 (claim_row ''p'' 0 sample_row))"

lemma sample_submitted: "d_transactions submitted_db = [sample_final]"
  by (simp add: submitted_db_def sample_assigned sample_final_def)
    (simp add: claim_row_def nonce_row_def)

lemma sample_final_fields [simp]:
  "r_id sample_final = ''t1''" "r_status sample_final = TxStatusSubmitted"
  "r_nonce sample_final = Some 5" "r_sender sample_final = ''0x7''" "r_chain_id sample_final = 1"
  by (simp_all add: sample_final_def submitted_row_def nonce_row_def claim_row_def)

section \<open>Properties of the protocol\<close>

text \<open>C1: No nonce is used twice: from a fresh database, whatever the pipelines, the receipt pollers
  and the stuck detectors do, in any order and number, no two transactions of a sender on a chain
  ever hold the same nonce.\<close>

theorem nonces_never_shared:
  assumes "fresh d0" and "any_step\<^sup>*\<^sup>* d0 d"
    and "r \<in> set (d_transactions d)" and "r' \<in> set (d_transactions d)"
    and "r_sender r = r_sender r'" and "r_chain_id r = r_chain_id r'"
    and "r_nonce r = Some n" and "r_nonce r' = Some n"
  shows "r = r'"
proof -
  have "sys_ok d" using assms(1,2) fresh_sys_ok reachable_sys_ok by blast
  then have ok: "nonces_ok d" "db_ok d" by (simp_all add: sys_ok_def)
  have "r_id r = r_id r'"
    using assms by (intro nonces_ok_unique [OF ok(1)]) (simp_all add: same_nonce_def)
  with ok(2) assms(3,4) show ?thesis by (intro row_unique)
qed

theorem nonces_never_shared_witness:
  "{r \<in> set (d_transactions submitted_db). r_sender r = ''0x7'' \<and> r_chain_id r = 1
      \<and> r_nonce r = Some 5} = {sample_final}"
proof -
  have "r = sample_final" if "r \<in> set (d_transactions submitted_db)" "r_sender r = ''0x7''"
    "r_chain_id r = 1" "r_nonce r = Some 5" for r
    using that nonces_never_shared [OF fresh_start_db reach_submitted that(1), of sample_final 5]
    by (simp add: sample_submitted)
  then show ?thesis by (auto simp: sample_submitted)
qed

text \<open>C8: What was submitted is recorded: in every reachable database a transaction that is
  submitted, included, confirmed or reverted has a nonce and a final hash, and the hash belongs to
  one of its stored attempts, whose signed bytes can be sent again.\<close>

theorem submitted_is_recorded:
  assumes "fresh d0" and "any_step\<^sup>*\<^sup>* d0 d" and "r \<in> set (d_transactions d)"
    and "r_status r \<in> {TxStatusSubmitted, TxStatusIncluded, TxStatusConfirmed, TxStatusReverted}"
  shows "\<exists>n h a. r_nonce r = Some n \<and> r_final_tx_hash r = Some h \<and> a \<in> set (d_attempts d)
     \<and> a_transaction_id a = r_id r \<and> a_tx_hash a = h"
proof -
  have "sys_ok d" using assms(1,2) fresh_sys_ok reachable_sys_ok by blast
  then have "row_ok d r" using assms(3) by (simp add: sys_ok_def lifecycle_ok_def)
  with assms(4) show ?thesis by (auto simp: row_ok_def submitted_statuses_def recorded_def)
qed

theorem submitted_is_recorded_witness:
  "\<exists>a \<in> set (d_attempts submitted_db). a_transaction_id a = ''t1''
     \<and> r_final_tx_hash sample_final = Some (a_tx_hash a)"
  using submitted_is_recorded [OF fresh_start_db reach_submitted, of sample_final]
  by (auto simp: sample_submitted)

text \<open>C9: The attempts of a transaction are numbered one, two, three without gaps and there are never
  more than six, however the pipeline and the stuck detector interleave.\<close>

theorem attempts_numbered:
  assumes "fresh d0" and "any_step\<^sup>*\<^sup>* d0 d"
  shows "map a_attempt_number (attempts_of i d) = map int [1..<Suc (length (attempts_of i d))]
    \<and> length (attempts_of i d) \<le> 6"
proof -
  have "sys_ok d" using assms fresh_sys_ok reachable_sys_ok by blast
  then show ?thesis using numbers_of_ok unfolding numbers_of_def by blast
qed

theorem attempts_numbered_witness:
  "map a_attempt_number (attempts_of ''t1'' submitted_db) = [1]"
proof -
  have "length (attempts_of ''t1'' submitted_db) = 1"
    by (simp add: attempts_of_def submitted_db_def sample_attempt_row_def)
  with attempts_numbered [OF fresh_start_db reach_submitted, of "''t1''"] show ?thesis by simp
qed

end
