(* ===== verification/PipelineFacts.thy ===== *)
theory PipelineFacts
  imports Pipeline Protocol
begin

text \<open>
  What the pipeline guarantees: every handler of pipeline.go is a sequence of steps of the protocol
  (a refinement), it broadcasts nothing that is not stored as an attempt of a transaction with the
  same nonce, recipient, value and data, and it tries a broadcast at most five times.
\<close>

section \<open>The row a pipeline works on\<close>

definition working :: "'key eth_lib \<Rightarrow> pipeline \<Rightarrow> transaction \<Rightarrow> int option \<Rightarrow> db \<Rightarrow> bool" where
  "working L p tx n = owned (pipelineID L p) (tx_ID tx) (\<lambda>r. r_to_address r = tx_ToAddress tx
     \<and> Some (r_value r) = tx_Value tx \<and> r_data r = tx_Data tx \<and> r_sender r = senderHex L p
     \<and> r_chain_id r = int (unat (pl_chainID p)) \<and> r_nonce r = n)"

lemma stable_working [simp, intro]: "stable_for (pipelineID L p) (working L p tx n)"
  by (simp add: working_def)

lemma working_log [simp]: "working L p tx n (d\<lparr>d_log := l\<rparr>) = working L p tx n d"
  by (simp add: working_def)

lemma working_attempts [simp]: "working L p tx n (d\<lparr>d_attempts := as\<rparr>) = working L p tx n d"
  by (simp add: working_def)

lemma working_owned: "working L p tx n d \<Longrightarrow> owned (pipelineID L p) (tx_ID tx) (\<lambda>r. True) d"
  unfolding working_def by (erule owned_mono) simp

lemma working_describes:
  assumes "working L p tx (Some (int (unat n))) d" and "stored L (tx_ID tx) s d"
    and "st_inner s = build_tx c n gas (HexToAddress L (tx_ToAddress tx)) (tx_Value tx) (tx_Data tx)"
  shows "accounted L d s"
  using assms unfolding accounted_def working_def owned_def my_row_def
  by (intro exI [of _ "tx_ID tx"]) (auto simp: describes_def)

section \<open>The calls\<close>

lemma logTransition_goes:
  assumes "logTransition i src dst act reason w = v" and "good x w" and "stable_for x P" and "P (w_db w)"
    and "\<And>d l. P d \<Longrightarrow> P (d\<lparr>d_log := l\<rparr>)"
  shows "goes x S w v \<and> P (w_db v)"
proof (rule log_step [OF _ assms(2-5)])
  let ?l = "\<lparr>sl_TransactionID = i, sl_FromStatus = src, sl_ToStatus = dst, sl_Actor = act,
    sl_Reason = reason\<rparr>"
  show "LogStateTransition ?l w = (fst (LogStateTransition ?l w), v)"
    using assms(1) by (simp add: logTransition_def prod_eq_iff)
qed

lemma failTx_goes:
  assumes "failTx tx code reason act w = v" and "good x w" and "owned x (tx_ID tx) R (w_db w)"
  shows "goes x S w v"
proof -
  obtain e u where u: "MarkFailed (tx_ID tx) code reason w = (e, u)"
    by (cases "MarkFailed (tx_ID tx) code reason w")
  have 1: "goes x S w u" using fail_step [OF u assms(2,3)] .
  have "logTransition (tx_ID tx) (status_text (tx_Status tx)) (status_text TxStatusFailed) act reason u
      = v" using assms(1) u by (simp add: failTx_def)
  from logTransition_goes [OF this goes_good [OF 1], of "\<lambda>d. True"] have "goes x S u v" by simp
  with 1 show ?thesis by (rule goes_trans)
qed

text \<open>The nonce assignment: a read, and at the commit the step of the protocol.\<close>

lemma run_in_tx_still: "run_in_tx st d w = (r, v) \<Longrightarrow> v = tick w"
  by (auto simp: run_in_tx_def split: db_outcome.splits)

lemma commit_tx_worlds:
  "commit_tx d w = (r, v) \<Longrightarrow> v = tick w \<or> v = tick (w\<lparr>w_db := d, w_steps := w_steps w @ [(w_db w, d)]\<rparr>)"
  by (auto simp: commit_tx_def Let_def split: db_outcome.splits)

definition tx_world :: "world \<Rightarrow> world \<Rightarrow> bool" where
  "tx_world u v \<longleftrightarrow> w_tick u \<le> w_tick v \<and>
     (still u v \<or> same_env u v \<and> w_steps v = w_steps u @ [(w_db u, w_db v)])"

lemma tx_world_tick: "tx_world (tick u) v \<Longrightarrow> tx_world u v"
  by (auto simp: tx_world_def still_def same_env_def)

lemma tx_world_commit: "commit_tx d u = (r, v) \<Longrightarrow> tx_world u v"
  by (drule commit_tx_worlds) (auto simp: tx_world_def still_def same_env_def)

lemma tx_world_self [simp]: "tx_world u u" "tx_world u (tick u)" "tx_world u (tick (tick u))"
  by (simp_all add: tx_world_def)

lemma Assign_worlds:
  assumes "AssignNonceAndMarkPending i s c w = (m, v)"
  shows "tx_world (snd (begin_tx w)) v"
proof -
  obtain r u where b: "begin_tx w = (r, u)" by (cases "begin_tx w")
  have "tx_world u v"
  proof (cases r)
    case (Inl e)
    with assms b show ?thesis by (simp add: AssignNonceAndMarkPending_def)
  next
    case (Inr d0)
    obtain r2 u2 where 2: "run_in_tx (increment_stmt s c (time_now u)) d0 u = (r2, u2)"
      by (cases "run_in_tx (increment_stmt s c (time_now u)) d0 u")
    note u2 = run_in_tx_still [OF 2]
    show ?thesis
    proof (cases r2)
      case (Inl e)
      with assms b 2 Inr u2 show ?thesis by (auto simp: AssignNonceAndMarkPending_def)
    next
      case r2: (Inr nd)
      obtain n d1 where nd: "nd = (n, d1)" by (cases nd)
      obtain r3 u3 where 3: "run_in_tx (set_nonce_stmt i n (time_now u2)) d1 u2 = (r3, u3)"
        by (cases "run_in_tx (set_nonce_stmt i n (time_now u2)) d1 u2")
      note u3 = run_in_tx_still [OF 3]
      show ?thesis
      proof (cases r3)
        case (Inl e)
        with assms b 2 3 Inr r2 nd u2 u3 show ?thesis
          by (auto simp: AssignNonceAndMarkPending_def)
      next
        case r3: (Inr xd)
        obtain r4 where "commit_tx (snd xd) u3 = (r4, v)"
          using assms b 2 3 Inr r2 r3 nd
          by (cases xd) (auto simp: AssignNonceAndMarkPending_def split: prod.splits option.splits)
        from tx_world_commit [OF this] show ?thesis
          unfolding u2 u3 by (intro tx_world_tick [of u] tx_world_tick [of "tick u"])
      qed
    qed
  qed
  with b show ?thesis by simp
qed

lemma tx_world_goes:
  assumes "tx_world u v" and "good x u" and "sys_step x (w_db u) (w_db v)"
  shows "goes x S u v"
proof (cases "still u v")
  case True
  then show ?thesis using assms(2) by (rule still_step)
next
  case False
  with assms(1) have env: "same_env u v" and steps: "w_steps v = w_steps u @ [(w_db u, w_db v)]"
    by (auto simp: tx_world_def)
  have "runs (sys_step x) S u v" using env steps _ assms(3) by (rule runs_one) simp
  moreover have "good x v"
    using assms(2,3) env sys_step_ok by (auto simp: good_def rely_def same_env_def)
  ultimately show ?thesis by (simp add: goes_def)
qed

lemma working_assigned:
  assumes "working L p tx None d" and "increment_stmt s c t1 d = Inr (n, d1)"
    and "set_nonce_stmt (tx_ID tx) n t2 d1 = Inr ((), d')"
  shows "working L p tx (Some (int (unat n))) d'"
proof -
  have d1: "d_transactions d1 = d_transactions d"
    using assms(2) by (auto simp: increment_stmt_def split: sum.splits option.splits if_splits)
  obtain m where m: "bigint n = Inr m" "d' = upd_tx (tx_ID tx) (nonce_row m t2) d1"
    using assms(3) by (auto simp: set_nonce_stmt_def split: sum.splits)
  then have "m = int (unat n)" using bigint_range by blast
  moreover have "working L p tx None d1" using assms(1) by (simp add: working_def owned_def my_row_def d1)
  ultimately show ?thesis
    unfolding working_def m(2) by (elim owned_upd_tx) (auto simp: nonce_row_def)
qed

lemma assign_goes:
  assumes "AssignNonceAndMarkPending (tx_ID tx) (senderHex L p) (pl_chainID p) w = (m, v)"
    and "good (pipelineID L p) w" and "working L p tx None (w_db w)"
  shows "goes (pipelineID L p) S w v \<and> owned (pipelineID L p) (tx_ID tx) (\<lambda>r. True) (w_db v)
    \<and> (\<forall>n. m = Inr n \<longrightarrow> working L p tx (Some (int (unat n))) (w_db v))"
proof -
  let ?x = "pipelineID L p"
  obtain r u where b: "begin_tx w = (r, u)" by (cases "begin_tx w")
  then have one: "one_stmt w u" "w_db u = db_now w"
    using one_stmt_query [of "\<lambda>d. Inr d" w r u] begin_tx_effect [OF b] by (simp_all add: begin_tx_def)
  have 1: "goes ?x S w u \<and> working L p tx None (w_db u)"
    using assms(2) one(1) stable_working assms(3)
    by (rule stmt_step) (simp add: one(2) step_idle)
  then have u: "good ?x u" "working L p tx None (w_db u)" using goes_good by blast+
  have own: "pending_of ?x (tx_ID tx) (w_db u)"
    "unassigned (tx_ID tx) (senderHex L p) (int (unat (pl_chainID p))) (w_db u)"
    using u(2) owned_pending [OF working_owned] owned_unassigned owned_mono
    unfolding working_def by (blast, metis (no_types, lifting))
  have "sys_step ?x (w_db u) (w_db v) \<and> owned ?x (tx_ID tx) (\<lambda>r. True) (w_db v)
    \<and> (\<forall>n. m = Inr n \<longrightarrow> working L p tx (Some (int (unat n))) (w_db v))"
    using assms(1)
  proof (cases rule: Assign_cases)
    case (1 e)
    then show ?thesis using u(2) working_owned step_idle by (simp add: one(2))
  next
    case (2 n d1 t1 t2)
    have "working L p tx (Some (int (unat n))) (w_db v)"
      using working_assigned [OF _ 2(1,2)] u(2) by (simp add: one(2))
    moreover have "sys_step ?x (w_db u) (w_db v)"
      using step_assign [OF own _ 2(2)] 2(1) by (simp add: one(2))
    ultimately show ?thesis using 2(3) working_owned by auto
  qed
  moreover have "tx_world u v" using Assign_worlds [OF assms(1)] b by simp
  ultimately show ?thesis using 1 u(1) tx_world_goes goes_trans by blast
qed

text \<open>The first attempt.\<close>

lemma attempt_row_fields:
  "attempt_row_of a = Inr row \<Longrightarrow> a_transaction_id row = at_TransactionID a
    \<and> a_tx_hash row = at_TxHash a \<and> a_raw_tx row = at_RawTx a
    \<and> a_attempt_number row = at_AttemptNumber a"
  by (auto simp: attempt_row_of_def split: sum.splits)

lemma insert_attempt_stored:
  assumes "insert_attempt a d = Inr d'" and "at_TransactionID a = i"
    and "at_TxHash a = Hash_Hex L (Tx_Hash L s)" and "MarshalBinary L s = Inr (at_RawTx a)"
  shows "stored L i s d'"
proof -
  obtain row where "attempt_row_of a = Inr row" "d' = d\<lparr>d_attempts := d_attempts d @ [row]\<rparr>"
    using assms(1) by (auto simp: insert_attempt_def split: sum.splits if_splits)
  then show ?thesis using attempt_row_fields [of a row] assms(2-4) by (auto simp: stored_def)
qed

lemma insert_attempt_rows: "insert_attempt a d = Inr d' \<Longrightarrow> \<exists>as. d' = d\<lparr>d_attempts := as\<rparr>"
  by (auto simp: insert_attempt_def split: sum.splits if_splits)

lemma first_attempt_goes:
  assumes "CreateAttempt a w = (e, v)" and "good (pipelineID L p) w" and "working L p tx n (w_db w)"
    and "at_TransactionID a = tx_ID tx" and "at_AttemptNumber a = 1"
    and "at_TxHash a = Hash_Hex L (Tx_Hash L s)" and "MarshalBinary L s = Inr (at_RawTx a)"
  shows "goes (pipelineID L p) S w v \<and> working L p tx n (w_db v)
    \<and> (e = None \<longrightarrow> stored L (tx_ID tx) s (w_db v))"
  using assms(2) one_stmt_calls(11) [OF assms(1)] stable_working assms(3)
proof (rule stmt_step)
  assume now: "working L p tx n (db_now w)"
  have ok: "e = None \<Longrightarrow> insert_attempt a (db_now w) = Inr (w_db v)"
    using assms(1) by (auto simp: CreateAttempt_def dest: exec_ok)
  show "sys_step (pipelineID L p) (db_now w) (w_db v) \<and> working L p tx n (w_db v)
      \<and> (e = None \<longrightarrow> stored L (tx_ID tx) s (w_db v))"
  proof (cases "insert_attempt a (db_now w) = Inr (w_db v)")
    case True
    then show ?thesis
      using step_first_attempt [OF owned_pending [OF working_owned [OF now]] True assms(4,5)]
        insert_attempt_stored [OF True assms(4,6,7)] insert_attempt_rows [OF True] now by auto
  next
    case False
    then have "w_db v = db_now w" "e \<noteq> None" using CreateAttempt_effect [OF assms(1)] ok by auto
    then show ?thesis using now step_idle by auto
  qed
qed

lemma submit_goes:
  assumes "MarkSubmitted (tx_ID tx) h w = (e, v)" and "good (pipelineID L p) w"
    and "working L p tx (Some n) (w_db w)" and "recorded (tx_ID tx) h (w_db w)"
  shows "goes (pipelineID L p) S w v"
proof -
  let ?x = "pipelineID L p"
  have "goes ?x S w v \<and> True"
    using assms(2) one_stmt_calls(5) [OF assms(1)]
  proof (rule stmt_step)
    show "stable_for ?x (\<lambda>d. working L p tx (Some n) d \<and> recorded (tx_ID tx) h d)" by blast
    show "working L p tx (Some n) (w_db w) \<and> recorded (tx_ID tx) h (w_db w)" using assms by blast
    assume now: "working L p tx (Some n) (db_now w) \<and> recorded (tx_ID tx) h (db_now w)"
    have "has_nonce (tx_ID tx) (db_now w)"
      using now by (intro owned_has_nonce [of ?x]) (auto simp: working_def elim!: owned_mono)
    then show "sys_step ?x (db_now w) (w_db v) \<and> True"
      using MarkSubmitted_effect [OF assms(1)] now owned_pending [OF working_owned]
        step_submit step_idle by metis
  qed
  then show ?thesis by simp
qed

text \<open>The claim takes a row that nobody has and that has no nonce.\<close>

lemma claim_goes:
  assumes "ClaimNextQueued (senderHex L p) (pl_chainID p) (pipelineID L p) w = (res, v)"
    and "good (pipelineID L p) w"
  shows "goes (pipelineID L p) S w v
    \<and> (\<forall>tx. res = Inr (Some tx) \<longrightarrow> working L p tx None (w_db v))"
  using assms(2) one_stmt_calls(4) [OF assms(1)] stable_True TrueI
proof (rule stmt_step)
  let ?x = "pipelineID L p" and ?now = "time_now w"
  assume ok: "sys_ok (db_now w)"
  have step: "sys_step ?x (db_now w) (upd_tx (r_id r) (claim_row ?x ?now) (db_now w))"
    if "next_queued (senderHex L p) (int (unat (pl_chainID p))) (db_now w) = Some r" for r
    using next_queued_Some [OF that] by (intro step_claim) (auto simp: queued_for_def)
  have "sys_step ?x (db_now w) (w_db v)"
    using ClaimNextQueued_effect [OF assms(1)] step step_idle bigint_range by metis
  moreover have "working L p tx None (w_db v)" if tx: "res = Inr (Some tx)" for tx
  proof -
    obtain r where r: "r \<in> set (d_transactions (db_now w))"
      "queued_for (senderHex L p) (pl_chainID p) r"
      "tx = scanTransaction (claim_row ?x ?now r)"
      "w_db v = upd_tx (r_id r) (claim_row ?x ?now) (db_now w)"
      using claim_oldest [OF assms(1) [unfolded tx]] by auto
    have "r_nonce r = None"
      using ok r(1,2) by (auto simp: sys_ok_def lifecycle_ok_def row_ok_def queued_for_def)
    moreover have "claim_row ?x ?now r \<in> set (d_transactions (w_db v))"
      using r(1) by (auto simp: r(4) set_upd_by)
    ultimately show ?thesis
      using r(2) unfolding working_def owned_def my_row_def
      by (intro exI [of _ "claim_row ?x ?now r"])
        (auto simp: r(3) scanTransaction_def claim_row_def queued_for_def Let_def)
  qed
  ultimately show "sys_step ?x (db_now w) (w_db v)
      \<and> (\<forall>tx. res = Inr (Some tx) \<longrightarrow> working L p tx None (w_db v))" by blast
qed

section \<open>The handlers\<close>

text \<open>
  What the pipeline needs of the components it calls: a client that only sends what it is told to
  and a signer that signs what it is given.
\<close>

locale pipeline_env = c: rpc_client "pl_client p" + s: tx_signer "pl_signer p" for p :: pipeline
begin

lemma buildAndSign_signs:
  assumes "buildAndSign L p tx nonce gas = Inr (stx, raw)"
  shows "st_inner stx = build_tx (pl_chainID p) nonce gas (HexToAddress L (tx_ToAddress tx))
      (tx_Value tx) (tx_Data tx) \<and> MarshalBinary L stx = Inr raw"
  using assms by (auto simp: buildAndSign_def Let_def dest: s.sign_inner split: sum.splits)

lemma broadcast_goes:
  assumes "broadcast_loop n (pl_client p) stx err w = (e, v)" and "good x w"
    and "accounted L (w_db w) stx"
  shows "goes x (accounted L) w v \<and> w_db v = w_db w"
  using assms
proof (induction n arbitrary: err w)
  case 0
  then show ?case by simp
next
  case (Suc n)
  obtain r u where call: "ec_SendTransaction (pl_client p) stx w = (r, u)"
    by (cases "ec_SendTransaction (pl_client p) stx w")
  note sent = c.sends_SendTransaction [OF call]
  have u: "goes x (accounted L) w u" using send_step [OF sent] Suc.prems by blast
  have db: "w_db u = w_db w" using sent by (simp add: sends_only_def rpc_frame_def)
  show ?case
  proof (cases r)
    case None
    then show ?thesis using Suc.prems(1) call u db by simp
  next
    case (Some e')
    have t: "goes x (accounted L) u (sleepCtx u)"
      using goes_good [OF u] by (intro still_step) (simp_all add: sleepCtx_def)
    have "goes x (accounted L) (sleepCtx u) v \<and> w_db v = w_db (sleepCtx u)"
      using Suc.prems call Some db goes_good [OF t]
      by (intro Suc.IH [of "Some e'"]) (simp_all add: sleepCtx_def)
    then show ?thesis using u t db goes_trans by (auto simp: sleepCtx_def)
  qed
qed

lemma broadcast_and_mark_goes:
  assumes "broadcast_and_mark p tx nonce h stx act w = v" and "good (pipelineID L p) w"
    and "working L p tx (Some n) (w_db w)" and "recorded (tx_ID tx) h (w_db w)"
    and "accounted L (w_db w) stx"
  shows "goes (pipelineID L p) (accounted L) w v"
proof -
  obtain e u where call: "broadcast_loop maxBroadcastRetries (pl_client p) stx None w = (e, u)"
    by (cases "broadcast_loop maxBroadcastRetries (pl_client p) stx None w")
  have u: "goes (pipelineID L p) (accounted L) w u" "w_db u = w_db w"
    using broadcast_goes [OF call assms(2,5)] by auto
  show ?thesis
  proof (cases e)
    case (Some er)
    then have "failTx tx ErrCodeBroadcastFailed (err_text er) act u = v"
      using assms(1) call by (simp add: broadcast_and_mark_def)
    from failTx_goes [OF this goes_good [OF u(1)]] working_owned [OF assms(3)] u
    show ?thesis using goes_trans by metis
  next
    case None
    obtain e2 u2 where mark: "MarkSubmitted (tx_ID tx) h u = (e2, u2)"
      by (cases "MarkSubmitted (tx_ID tx) h u")
    have u2: "goes (pipelineID L p) (accounted L) w u2"
      using submit_goes [OF mark goes_good [OF u(1)]] assms(3,4) u goes_trans by metis
    show ?thesis
    proof (cases e2)
      case (Some er)
      then show ?thesis using assms(1) call None mark u2 by (simp add: broadcast_and_mark_def)
    next
      case e2: None
      obtain reason where "logTransition (tx_ID tx) (status_text TxStatusPending)
          (status_text TxStatusSubmitted) act reason u2 = v"
        using assms(1) call None mark e2 by (auto simp: broadcast_and_mark_def)
      from logTransition_goes [OF this goes_good [OF u2], of "\<lambda>d. True"]
      show ?thesis using u2 goes_trans by simp
    qed
  qed
qed

lemma sign_and_send_goes:
  assumes "sign_and_send L p tx nonce gas act w = v" and "good (pipelineID L p) w"
    and "working L p tx (Some (int (unat nonce))) (w_db w)"
  shows "goes (pipelineID L p) (accounted L) w v"
proof (cases "buildAndSign L p tx nonce gas")
  case (Inl e)
  then have "failTx tx ErrCodeSigningFailed (err_text e) act w = v"
    using assms(1) by (simp add: sign_and_send_def)
  then show ?thesis using failTx_goes [OF _ assms(2) working_owned [OF assms(3)]] by simp
next
  case (Inr sr)
  obtain stx raw where sr: "sr = (stx, raw)" by (cases sr)
  note signed = buildAndSign_signs [OF Inr [unfolded sr]]
  define h where "h = Hash_Hex L (Tx_Hash L stx)"
  define w1 where "w1 = snd (ulid_make w)"
  define a where "a = new_attempt (fst (ulid_make w)) (tx_ID tx) 1 h gas raw (time_now w1)"
  obtain e u where call: "CreateAttempt a w1 = (e, u)" by (cases "CreateAttempt a w1")
  have w1: "goes (pipelineID L p) (accounted L) w w1" "w_db w1 = w_db w"
    using assms(2) by (auto simp: w1_def ulid_make_def intro!: still_step)
  have a: "at_TransactionID a = tx_ID tx" "at_AttemptNumber a = 1" "at_TxHash a = h" "at_RawTx a = raw"
    by (simp_all add: a_def new_attempt_def)
  have u: "goes (pipelineID L p) (accounted L) w1 u \<and> working L p tx (Some (int (unat nonce))) (w_db u)
    \<and> (e = None \<longrightarrow> stored L (tx_ID tx) stx (w_db u))"
    using call goes_good [OF w1(1)] assms(3) a signed
    by (intro first_attempt_goes) (auto simp: w1(2) h_def)
  have wu: "goes (pipelineID L p) (accounted L) w u" using w1 u goes_trans by blast
  have v: "v = (case e of Some _ \<Rightarrow> u | None \<Rightarrow> broadcast_and_mark p tx nonce h stx act u)"
    using assms(1) Inr sr call
    by (simp add: sign_and_send_def Let_def case_prod_beta a_def w1_def h_def split: option.splits)
  show ?thesis
  proof (cases e)
    case (Some er)
    then show ?thesis using v wu by simp
  next
    case None
    have st: "stored L (tx_ID tx) stx (w_db u)" "working L p tx (Some (int (unat nonce))) (w_db u)"
      using u None by auto
    have "goes (pipelineID L p) (accounted L) u v"
      using v None st stored_recorded [OF st(1)] working_describes [OF st(2,1)] signed goes_good [OF wu]
      by (intro broadcast_and_mark_goes [where h = h]) (auto simp: h_def)
    with wu show ?thesis by (rule goes_trans)
  qed
qed

text \<open>The whole handler, from a row the pipeline has claimed.\<close>

lemma processTx_goes:
  assumes "processTx L p tx (pipelineID L p) w = v" and "good (pipelineID L p) w"
    and "working L p tx None (w_db w)"
  shows "goes (pipelineID L p) (accounted L) w v"
proof -
  let ?x = "pipelineID L p"
  define w1 where "w1 = logTransition (tx_ID tx) (status_text TxStatusQueued)
    (status_text TxStatusPending) ?x ''claimed by pipeline'' w"
  note proc = assms(1) [unfolded processTx_def Let_def, folded w1_def]
  have 1: "goes ?x (accounted L) w w1 \<and> working L p tx None (w_db w1)"
    using logTransition_goes [OF w1_def [symmetric] assms(2) stable_working assms(3)] by simp
  obtain m w2 where assign: "AssignNonceAndMarkPending (tx_ID tx) (senderHex L p) (pl_chainID p) w1
      = (m, w2)" by (cases "AssignNonceAndMarkPending (tx_ID tx) (senderHex L p) (pl_chainID p) w1")
  have 2: "goes ?x (accounted L) w1 w2" "owned ?x (tx_ID tx) (\<lambda>r. True) (w_db w2)"
    "\<And>n. m = Inr n \<Longrightarrow> working L p tx (Some (int (unat n))) (w_db w2)"
    using assign_goes [OF assign] 1 goes_good by blast+
  have w2: "goes ?x (accounted L) w w2" using 1 2(1) goes_trans by blast
  show ?thesis
  proof (cases m)
    case (Inl e)
    then have "failTx tx ErrCodeInternalError (''nonce assignment: '' @ err_text e) ?x w2 = v"
      using proc assign by simp
    from failTx_goes [OF this goes_good [OF w2] 2(2)] w2 show ?thesis using goes_trans by blast
  next
    case (Inr nonce)
    note wk = 2(3) [OF Inr]
    obtain g w3 where est: "Estimate L (pl_client p) (pl_chain p) (pl_sender p)
        (HexToAddress L (tx_ToAddress tx)) (tx_Data tx) (tx_Value tx) (tx_Priority tx) w2 = (g, w3)"
      by (cases "Estimate L (pl_client p) (pl_chain p) (pl_sender p)
        (HexToAddress L (tx_ToAddress tx)) (tx_Data tx) (tx_Value tx) (tx_Priority tx) w2")
    have q: "quiet w2 w3" using c.quiet_Estimate [OF est] .
    then have w3: "goes ?x (accounted L) w w3" "w_db w3 = w_db w2"
      using still_step [OF quiet_still [OF q] goes_good [OF w2]] w2 goes_trans quiet_db by blast+
    have "goes ?x (accounted L) w3 v"
    proof (cases g)
      case (Inl e)
      then have "failTx tx ErrCodeEstimationReverted (err_text e) ?x w3 = v"
        using proc assign Inr est by simp
      then show ?thesis using failTx_goes [OF _ goes_good [OF w3(1)]] 2(2) w3(2) by metis
    next
      case (Inr gas)
      then have "sign_and_send L p tx nonce gas ?x w3 = v"
        using proc assign \<open>m = Inr nonce\<close> est by simp
      then show ?thesis using sign_and_send_goes [OF _ goes_good [OF w3(1)]] wk w3(2) by metis
    qed
    with w3(1) show ?thesis by (rule goes_trans)
  qed
qed

lemma run_iteration_goes:
  assumes "run_iteration L p w = Some v" and "good (pipelineID L p) w"
  shows "goes (pipelineID L p) (accounted L) w v"
proof -
  let ?x = "pipelineID L p"
  obtain r u where claim: "ClaimNextQueued (senderHex L p) (pl_chainID p) ?x w = (r, u)"
    by (cases "ClaimNextQueued (senderHex L p) (pl_chainID p) ?x w")
  have u: "goes ?x (accounted L) w u
    \<and> (\<forall>tx. r = Inr (Some tx) \<longrightarrow> working L p tx None (w_db u))"
    using claim assms(2) by (rule claim_goes)
  have notified: "still u (tick (u\<lparr>w_notify := f\<rparr>))" for f by (simp add: still_def)
  consider e where "r = Inl e" "v = sleepCtx u" | "r = Inr None" "wait_for_work L p u = Some v"
    | tx where "r = Inr (Some tx)" "processTx L p tx ?x u = v"
    using assms(1) claim
    by (auto simp: run_iteration_def split: sum.splits option.splits if_splits)
  then have "goes ?x (accounted L) u v"
  proof cases
    case 1
    then show ?thesis using u goes_good by (auto simp: sleepCtx_def intro!: still_step)
  next
    case 2
    then have "v = tick (u\<lparr>w_notify := (w_notify u)(?x := False)\<rparr>)"
      by (simp add: wait_for_work_def split: if_splits)
    then show ?thesis using u goes_good notified still_step by blast
  next
    case 3
    then show ?thesis using u processTx_goes goes_good by blast
  qed
  with u show ?thesis using goes_trans by blast
qed

lemma Run_pipeline_goes:
  "Run_pipeline n L p w = Ret v \<Longrightarrow> good (pipelineID L p) w \<Longrightarrow> goes (pipelineID L p) (accounted L) w v"
proof (induction n arbitrary: w)
  case (Suc n)
  show ?case
  proof (cases "run_iteration L p w")
    case (Some u)
    then have "goes (pipelineID L p) (accounted L) w u" using run_iteration_goes Suc.prems by blast
    moreover have "goes (pipelineID L p) (accounted L) u v"
      using Suc.IH [of u] Suc.prems Some goes_good calculation by simp
    ultimately show ?thesis by (rule goes_trans)
  qed (use Suc.prems in simp)
qed simp

end

interpretation worker: pipeline_env "NewPipeline sender chain (Client cid) (LocalSigner L keys)"
  by (simp add: pipeline_env_def NewPipeline_def pool.rpc_client_axioms local.tx_signer_axioms)

section \<open>Time\<close>

text \<open>Every handler leaves the context alone and takes time.\<close>

definition on_ctx :: "world \<Rightarrow> world \<Rightarrow> bool" where
  "on_ctx w v \<longleftrightarrow> w_done v = w_done w \<and> w_tick w \<le> w_tick v"

lemma on_ctx_refl [simp]: "on_ctx w w"
  by (simp add: on_ctx_def)

lemma on_ctx_trans: "on_ctx u v \<Longrightarrow> on_ctx v w \<Longrightarrow> on_ctx u w"
  by (simp add: on_ctx_def)

lemma on_ctx_stmt: "one_stmt w v \<Longrightarrow> on_ctx w v"
  by (simp add: on_ctx_def one_stmt_def same_env_def)

lemma on_ctx_tick: "on_ctx w v \<Longrightarrow> on_ctx w (tick v)"
  by (simp add: on_ctx_def)

lemma on_ctx_frame: "rpc_frame w v \<Longrightarrow> on_ctx w v"
  by (simp add: on_ctx_def rpc_frame_def)

lemma on_ctx_assign: "AssignNonceAndMarkPending i s c w = (m, v) \<Longrightarrow> on_ctx w v"
  using Assign_worlds [of i s c w m v] one_stmt_query [of "\<lambda>d. Inr d" w]
  by (cases "begin_tx w")
    (auto simp: tx_world_def on_ctx_def still_def same_env_def begin_tx_def one_stmt_def)

lemma on_ctx_tick_first: "on_ctx (tick w) v \<Longrightarrow> on_ctx w v"
  by (simp add: on_ctx_def)

lemma on_ctx_quiet: "quiet v v' \<Longrightarrow> on_ctx w v \<Longrightarrow> on_ctx w v'"
  by (simp add: on_ctx_def quiet_def rpc_frame_def)

lemma on_ctx_log: "on_ctx w (logTransition i src dst act reason w)"
  using one_stmt_calls(14) [THEN on_ctx_stmt] by (metis logTransition_def prod.collapse)

lemma on_ctx_fail: "on_ctx w (failTx tx code reason act w)"
  using one_stmt_calls(10) [THEN on_ctx_stmt] on_ctx_log on_ctx_trans
  unfolding failTx_def Let_def by (metis prod.collapse)

context pipeline_env
begin

lemma on_ctx_broadcast:
  "broadcast_loop n (pl_client p) stx err w = (e, v) \<Longrightarrow> on_ctx w v"
proof (induction n arbitrary: err w)
  case (Suc n)
  obtain r u where call: "ec_SendTransaction (pl_client p) stx w = (r, u)"
    by (cases "ec_SendTransaction (pl_client p) stx w")
  have u: "on_ctx w u"
    using c.sends_SendTransaction [OF call] by (simp add: sends_only_def on_ctx_frame)
  show ?case
  proof (cases r)
    case None
    then show ?thesis using Suc.prems call u by simp
  next
    case (Some e')
    then have "on_ctx (sleepCtx u) v" using Suc call by simp
    then show ?thesis using u by (auto simp: sleepCtx_def on_ctx_def)
  qed
qed simp

lemma on_ctx_mark: "on_ctx w (broadcast_and_mark p tx nonce h stx act w)"
  unfolding broadcast_and_mark_def
  by (auto split: prod.splits option.splits dest!: on_ctx_broadcast one_stmt_calls(5) [THEN on_ctx_stmt]
      intro: on_ctx_trans on_ctx_log on_ctx_fail)

lemma on_ctx_send: "on_ctx w (sign_and_send L p tx nonce gas act w)"
  unfolding sign_and_send_def ulid_make_def Let_def
  by (auto split: prod.splits option.splits sum.splits
      dest!: one_stmt_calls(11) [THEN on_ctx_stmt] on_ctx_tick_first
      intro: on_ctx_trans [OF _ on_ctx_mark] on_ctx_fail)

lemma on_ctx_processTx: "on_ctx w (processTx L p tx act w)"
proof -
  define w1 where "w1 = logTransition (tx_ID tx) (status_text TxStatusQueued)
    (status_text TxStatusPending) act ''claimed by pipeline'' w"
  have "on_ctx w1 (processTx L p tx act w)"
    unfolding processTx_def Let_def w1_def [symmetric]
    by (auto split: prod.splits sum.splits dest!: on_ctx_assign c.quiet_Estimate
        intro: on_ctx_trans [OF _ on_ctx_fail] on_ctx_trans [OF _ on_ctx_send] on_ctx_quiet)
  moreover have "on_ctx w w1" by (simp add: w1_def on_ctx_log)
  ultimately show ?thesis using on_ctx_trans by blast
qed

lemma run_iteration_takes_time:
  assumes "run_iteration L p w = Some v"
  shows "w_done v = w_done w \<and> w_tick w < w_tick v"
proof -
  obtain r u where claim: "ClaimNextQueued (senderHex L p) (pl_chainID p) (pipelineID L p) w = (r, u)"
    by (cases "ClaimNextQueued (senderHex L p) (pl_chainID p) (pipelineID L p) w")
  have u: "w_done u = w_done w" "w_tick u = Suc (w_tick w)"
    using one_stmt_calls(4) [OF claim] by (simp_all add: one_stmt_def same_env_def)
  have "on_ctx u v"
    using assms claim on_ctx_processTx
    by (auto simp: run_iteration_def wait_for_work_def sleepCtx_def on_ctx_def
        split: sum.splits option.splits if_splits)
  with u show ?thesis by (simp add: on_ctx_def)
qed

lemma Run_pipeline_stops:
  assumes "\<And>t. T \<le> t \<Longrightarrow> w_done w t" and "T - w_tick w < fuel"
  shows "\<exists>v. Run_pipeline fuel L p w = Ret v"
  using assms
proof (induction fuel arbitrary: w)
  case (Suc n)
  show ?case
  proof (cases "run_iteration L p w")
    case (Some u)
    then have u: "w_done u = w_done w" "w_tick w < w_tick u" using run_iteration_takes_time by auto
    have "\<not> ctx_done w" using Some by (auto simp: run_iteration_def)
    then have "w_tick w < T" using Suc.prems(1) [of "w_tick w"] by (force simp: ctx_done_def)
    then have "\<exists>v. Run_pipeline n L p u = Ret v" using Suc.prems u by (intro Suc.IH) auto
    with Some show ?thesis by simp
  qed simp
qed simp

end

section \<open>A concrete iteration\<close>

text \<open>
  The queued transaction of the fixtures is claimed, given nonce 5, signed, stored, sent to the one
  endpoint and marked as submitted.
\<close>

abbreviation worker_of :: "'key eth_lib \<Rightarrow> 'key key_map \<Rightarrow> address \<Rightarrow> chain_config \<Rightarrow> pipeline" where
  "worker_of L keys sender chain \<equiv>
     NewPipeline sender chain (Client (ch_ChainID chain)) (LocalSigner L keys)"

definition sample_worker :: pipeline where
  "sample_worker = worker_of sample_lib [(7, 3)] 7 sample_chain"

lemma sample_worker_simps [simp]:
  "pl_chainID sample_worker = 1"
  "pl_client sample_worker = Client 1" "pl_signer sample_worker = LocalSigner sample_lib [(7, 3)]"
  "pl_sender sample_worker = 7" "pl_chain sample_worker = sample_chain"
  by (simp_all add: sample_worker_def NewPipeline_def pl_chainID_def sample_chain_def)

lemma sample_ids [simp]: "senderHex sample_lib sample_worker = ''0x7''" "pipelineID sample_lib sample_worker = ''0x7-1''"
  by code_simp+

definition sample_claimed_tx :: transaction where
  "sample_claimed_tx = scanTransaction (claim_row ''0x7-1'' 0 sample_row)"

lemma sample_claimed_tx_simps [simp]:
  "tx_ID sample_claimed_tx = ''t1''" "tx_ToAddress sample_claimed_tx = ''0x2''"
  "tx_Value sample_claimed_tx = Some 5" "tx_Data sample_claimed_tx = None"
  "tx_Priority sample_claimed_tx = PriorityNormal"
  by (simp_all add: sample_claimed_tx_def scanTransaction_def claim_row_def sample_row_def Let_def)

lemma sample_HexTo [simp]: "HexToAddress sample_lib ''0x2'' = 2"
  by code_simp

definition sample_claimed_world :: world where
  "sample_claimed_world = after_stmt (upd_tx ''t1'' (claim_row ''0x7-1'' 0) queued_db) (sample_world one_up queued_db)"

lemma sample_estimate:
  assumes "w_endpoints w = w_endpoints (sample_world one_up queued_db)" "w_rpc w = sample_nodes"
  shows "Estimate sample_lib (Client 1) sample_chain 7 2 None (Some 5) PriorityNormal w =
    (Inr \<lparr>gp_GasLimit = 25200, gp_MaxFeePerGas = Some 4100, gp_MaxPriorityFeePerGas = Some 100, gp_GasPrice = None, gp_TxType = 2\<rparr>, tick (tick (tick w)))"
proof -
  have l: "ilog2 21000 = 14" "ilog2 25200 = 14" by (simp_all add: ilog2.simps)
  have r: "f64_round 21000 = 21000" "f64_round 25200 = 25200" by (simp_all add: f64_round_def f64_round_pos_def f64_exp_def l two_powi_def round_even_def Let_def)
  have s: "scale_gas sample_lib 21000 (6/5) = 25200" by (simp add: scale_gas_def r f64_to_u64_def)
  show ?thesis using assms
   by (simp add: Estimate_def estimateEIP1559_def Client_def EstimateGas_def LatestBaseFee_def s
        SuggestGasTipCap_def rpc_call_def getClient_def sample_world_def one_up_def
        sample_nodes_def Let_def case_prod_unfold sample_chain_def eip1559_fees_def priorityMultipliers_def clamp_def)
qed

lemma sample_buildAndSign: "\<exists>stx. buildAndSign sample_lib sample_worker sample_claimed_tx 5 g = Inr (stx, [5])"
  by (simp add: buildAndSign_def sample_lib_def LocalSigner_def Sign_def)


lemma log_calm: "calm w \<Longrightarrow> logTransition i src dst act reason w = after_stmt (w_db w\<lparr>d_log := d_log (w_db w) @
  [(\<lparr>sl_TransactionID = i, sl_FromStatus = src, sl_ToStatus = dst, sl_Actor = act, sl_Reason = reason\<rparr>, time_now w)]\<rparr>) w"
  by (simp add: logTransition_def LogStateTransition_def calm_exec)

lemma send_one_up:
  assumes "w_endpoints w cid = one_up" "w_rpc w = sample_nodes"
  shows "ec_SendTransaction (Client cid) s w = (None, tick (w\<lparr>w_sent := w_sent w @ [(cid, ''a'', s)]\<rparr>))"
  using assms by (simp add: Client_def SendTransaction_def send_errs_def one_up_def sample_nodes_def Let_def)

lemma claimed_world [simp]: "calm sample_claimed_world" "w_rpc sample_claimed_world = sample_nodes" "w_sent sample_claimed_world = []"
  "w_endpoints sample_claimed_world = w_endpoints (sample_world one_up queued_db)"
  "d_transactions (w_db sample_claimed_world) = [claim_row ''0x7-1'' 0 sample_row]"
  "d_attempts (w_db sample_claimed_world) = []"
  "d_cursors (w_db sample_claimed_world) = d_cursors queued_db"
  by (simp_all add: sample_claimed_world_def)

lemma sample_process: "\<exists>s. w_sent (processTx sample_lib sample_worker sample_claimed_tx ''0x7-1'' sample_claimed_world) = [(1, ''a'', s)]"
proof -
  define w1 where "w1 = logTransition ''t1'' (status_text TxStatusQueued) (status_text TxStatusPending) ''0x7-1'' ''claimed by pipeline'' sample_claimed_world"
  have w1: "calm w1" "w_rpc w1 = sample_nodes" "w_sent w1 = []" "w_endpoints w1 = w_endpoints (sample_world one_up queued_db)"
   "d_transactions (w_db w1) = [claim_row ''0x7-1'' 0 sample_row]" "d_attempts (w_db w1) = []" "d_cursors (w_db w1) = d_cursors queued_db"
    by (simp_all add: w1_def log_calm)
  define w2 where "w2 = snd (AssignNonceAndMarkPending ''t1'' ''0x7'' 1 w1)"
  have a: "AssignNonceAndMarkPending ''t1'' ''0x7'' 1 w1 = (Inr 5, w2)"
    by (simp add: w2_def AssignNonceAndMarkPending_def calm_runs w1 increment_stmt_def set_nonce_stmt_def bigint_def c_key_def)
  have w2: "calm w2" "w_rpc w2 = sample_nodes" "w_sent w2 = []" "w_endpoints w2 = w_endpoints (sample_world one_up queued_db)"
   "r_id ` set (d_transactions (w_db w2)) = {''t1''}" "d_attempts (w_db w2) = []"
    by (simp_all add: w2_def AssignNonceAndMarkPending_def calm_runs w1 increment_stmt_def set_nonce_stmt_def bigint_def c_key_def claim_row_def nonce_row_def)
  define gas where "gas = \<lparr>gp_GasLimit = 25200, gp_MaxFeePerGas = Some 4100,
    gp_MaxPriorityFeePerGas = Some 100, gp_GasPrice = None, gp_TxType = 2 :: int\<rparr>"
  obtain stx where stx: "buildAndSign sample_lib sample_worker sample_claimed_tx 5 gas = Inr (stx, [5])"
    using sample_buildAndSign by blast
  define w3 where "w3 = tick (tick (tick w2))"
  define h where "h = Hash_Hex sample_lib (Tx_Hash sample_lib stx)"
  define att where "att = new_attempt (fst (ulid_make w3)) ''t1'' 1 h gas [5] (time_now (tick w3))"
  define w4 where "w4 = snd (CreateAttempt att (tick w3))"
  have row: "\<exists>row. attempt_row_of att = Inr row \<and> a_transaction_id row = ''t1''"
    by (simp add: att_def new_attempt_def gas_def attempt_row_of_def bigint_def nullable_numeric78_def bigIntToString_def numeric78_def)
  have c: "CreateAttempt att (tick w3) = (None, w4)"
    using row by (auto simp: w4_def CreateAttempt_def calm_runs w2 w3_def insert_attempt_def)
  have w4: "calm w4" "w_rpc w4 = sample_nodes" "w_sent w4 = []" "w_endpoints w4 = w_endpoints (sample_world one_up queued_db)"
    by (auto simp: w4_def CreateAttempt_def calm_runs w2 w3_def split: sum.split)
  define w5 where "w5 = tick (w4\<lparr>w_sent := [(1, ''a'', stx)]\<rparr>)"
  have b: "broadcast_loop maxBroadcastRetries (Client 1) stx None w4 = (None, w5)"
    by (simp add: maxBroadcastRetries_def numeral_eq_Suc send_one_up w4 w5_def)
  have w5: "calm w5" "w_sent w5 = [(1, ''a'', stx)]" by (simp_all add: w5_def w4)
  have "sign_and_send sample_lib sample_worker sample_claimed_tx 5 gas ''0x7-1'' w3
      = broadcast_and_mark sample_worker sample_claimed_tx 5 h stx ''0x7-1'' w4"
    using c by (simp add: sign_and_send_def stx ulid_make_def h_def [symmetric] Let_def att_def)
  then have "processTx sample_lib sample_worker sample_claimed_tx ''0x7-1'' sample_claimed_world
      = broadcast_and_mark sample_worker sample_claimed_tx 5 h stx ''0x7-1'' w4"
    by (simp add: processTx_def w1_def [symmetric] Let_def a sample_estimate w2 gas_def [symmetric] w3_def del: status_text.simps)
  then show ?thesis
    by (simp add: broadcast_and_mark_def b MarkSubmitted_def calm_runs w5 log_calm)
qed

lemma sample_iteration:
  "\<exists>v s. run_iteration sample_lib sample_worker (sample_world one_up queued_db) = Some v
     \<and> w_sent v = [(1, ''a'', s)]"
proof -
  have "ClaimNextQueued ''0x7'' 1 ''0x7-1'' (sample_world one_up queued_db)
      = (Inr (Some sample_claimed_tx), sample_claimed_world)"
    by (simp add: ClaimNextQueued_def Let_def calm_runs bigint_def next_queued_def no_rows_is_nil_def
        time_now_def sample_claimed_tx_def sample_claimed_world_def)
  moreover have "\<not> ctx_done (sample_world one_up queued_db)"
    by (simp add: ctx_done_def sample_world_def)
  ultimately show ?thesis using sample_process by (simp add: run_iteration_def)
qed

lemma sample_rely: "rely x (sample_world eps d)"
  by (simp add: rely_def)

lemma sys_ok_queued_db: "sys_ok queued_db"
  using reachable_sys_ok [OF reach_queued] fresh_sys_ok fresh_start_db by blast

section \<open>Properties\<close>

lemma iterations_goes:
  assumes "(\<lambda>w v. run_iteration L (worker_of L keys sender chain) w = Some v)\<^sup>*\<^sup>* w v"
    and "good (pipelineID L (worker_of L keys sender chain)) w"
  shows "goes (pipelineID L (worker_of L keys sender chain)) (accounted L) w v"
  using assms(1)
proof (induction rule: rtranclp_induct)
  case base
  then show ?case using assms(2) by simp
next
  case (step u v)
  then show ?case using worker.run_iteration_goes goes_good goes_trans by blast
qed

text \<open>C2: The pipeline refines the protocol: however many iterations it makes, and whatever the
  database, the RPC nodes and the other goroutines do meanwhile within the protocol, each of its
  own database statements is a step that the protocol allows it, and the invariants of the database
  still hold.\<close>

theorem pipeline_refines_protocol:
  assumes "(\<lambda>w v. run_iteration L (worker_of L keys sender chain) w = Some v)\<^sup>*\<^sup>* w v"
    and "rely (pipelineID L (worker_of L keys sender chain)) w" and "sys_ok (w_db w)"
  shows "sys_ok (w_db v) \<and> (\<exists>own. w_steps v = w_steps w @ own
    \<and> (\<forall>(d, d') \<in> set own. sys_step (pipelineID L (worker_of L keys sender chain)) d d'))"
proof -
  have "goes (pipelineID L (worker_of L keys sender chain)) (accounted L) w v"
    using assms by (intro iterations_goes) (simp_all add: good_def)
  then show ?thesis using runs_steps by (auto simp: goes_def good_def)
qed

theorem pipeline_refines_protocol_witness:
  "\<exists>v. run_iteration sample_lib sample_worker (sample_world one_up queued_db) = Some v
     \<and> sys_ok (w_db v)"
proof -
  let ?w = "sample_world one_up queued_db"
  obtain v where "run_iteration sample_lib sample_worker ?w = Some v" using sample_iteration by blast
  then have "(\<lambda>w v. run_iteration sample_lib sample_worker w = Some v)\<^sup>*\<^sup>* ?w v" by (rule r_into_rtranclp)
  from pipeline_refines_protocol [OF this [unfolded sample_worker_def] sample_rely]
  have "sys_ok (w_db v)" by (simp add: sys_ok_queued_db)
  then show ?thesis using \<open>run_iteration sample_lib sample_worker ?w = Some v\<close> by blast
qed

text \<open>C7: Nothing is broadcast that is not on record: every transaction a pipeline has sent carries
  the nonce, recipient, value and data of a transaction of the database, and its hash and its bytes
  are stored as an attempt of that transaction, also after any later steps of anyone.\<close>

theorem broadcasts_are_recorded:
  assumes "(\<lambda>w v. run_iteration L (worker_of L keys sender chain) w = Some v)\<^sup>*\<^sup>* w v"
    and "rely (pipelineID L (worker_of L keys sender chain)) w" and "sys_ok (w_db w)"
    and "(cid, url, s) \<in> set (drop (length (w_sent w)) (w_sent v))"
  shows "\<exists>r \<in> set (d_transactions (w_db v)). \<exists>a \<in> set (d_attempts (w_db v)).
      r_nonce r = Some (int (unat (eth_tx_nonce (st_inner s))))
    \<and> eth_tx_to (st_inner s) = HexToAddress L (r_to_address r)
    \<and> eth_tx_value (st_inner s) = Some (r_value r) \<and> eth_tx_data (st_inner s) = r_data r
    \<and> a_transaction_id a = r_id r \<and> a_tx_hash a = Hash_Hex L (Tx_Hash L s)
    \<and> MarshalBinary L s = Inr (a_raw_tx a)"
proof -
  have "goes (pipelineID L (worker_of L keys sender chain)) (accounted L) w v"
    using assms by (intro iterations_goes) (simp_all add: good_def)
  then obtain new where "w_sent v = w_sent w @ new" "\<forall>(cid, url, s) \<in> set new. accounted L (w_db v) s"
    using runs_sent [of _ "accounted L" w v, OF _ assms(2,3) kept_accounted] by (auto simp: goes_def)
  with assms(4) have "accounted L (w_db v) s" by auto
  then show ?thesis unfolding accounted_def describes_def stored_def by auto
qed

theorem broadcasts_are_recorded_witness:
  "\<exists>v s. run_iteration sample_lib sample_worker (sample_world one_up queued_db) = Some v
     \<and> w_sent v = [(1, ''a'', s)]
     \<and> (\<exists>a \<in> set (d_attempts (w_db v)). MarshalBinary sample_lib s = Inr (a_raw_tx a))"
proof -
  let ?w = "sample_world one_up queued_db"
  obtain v s where v: "run_iteration sample_lib sample_worker ?w = Some v" "w_sent v = [(1, ''a'', s)]"
    using sample_iteration by blast
  from v(1) have "(\<lambda>w v. run_iteration sample_lib sample_worker w = Some v)\<^sup>*\<^sup>* ?w v"
    by (rule r_into_rtranclp)
  from broadcasts_are_recorded [OF this [unfolded sample_worker_def] sample_rely, of 1 "''a''" s]
  have "\<exists>a \<in> set (d_attempts (w_db v)). MarshalBinary sample_lib s = Inr (a_raw_tx a)"
    using v(2) by (auto simp: sys_ok_queued_db)
  with v show ?thesis by blast
qed

text \<open>C28: A pipeline stops: once the context is cancelled for good, \<open>Run\<close> returns, after at most one
  iteration per instant that was left.\<close>

theorem Run_pipeline_terminates:
  assumes "\<And>t. T \<le> t \<Longrightarrow> w_done w t" and "T - w_tick w < fuel"
  shows "\<exists>v. Run_pipeline fuel L (worker_of L keys sender chain) w = Ret v"
  using assms by (rule worker.Run_pipeline_stops)

theorem Run_pipeline_terminates_witness:
  "\<exists>v. Run_pipeline 4 sample_lib (worker_of sample_lib [(7, 3)] 7 sample_chain)
     ((sample_world one_up queued_db)\<lparr>w_done := \<lambda>t. 3 \<le> t\<rparr>) = Ret v"
  by (rule Run_pipeline_terminates [where T = 3]) simp_all

lemma bigint_word_of_int: "0 \<le> n \<Longrightarrow> n < 2 ^ 63 \<Longrightarrow> bigint (word_of_int n) = Inr n"
proof -
  assume n: "0 \<le> n" "n < 2 ^ 63"
  then have "uint (word_of_int n :: u64) = n" by (simp add: uint_word_of_int)
  then have i: "int (unat (word_of_int n :: u64)) = n" by simp
  with n have "int (unat (word_of_int n :: u64)) < int (2 ^ 63)" by simp
  then have "unat (word_of_int n :: u64) < 2 ^ 63" by (simp only: of_nat_less_iff)
  with i show ?thesis by (simp add: bigint_def)
qed

lemma assign_calm:
  assumes "calm w" and "bigint c = Inr chain" and "cursor_value s c (w_db w) = Some n" and "0 \<le> n"
    and "n + 1 < 2 ^ 63" and "AssignNonceAndMarkPending i s c w = (m, v)"
  shows "m = Inr (word_of_int n) \<and> calm v \<and> w_sent v = w_sent w \<and> w_endpoints v = w_endpoints w
    \<and> cursor_value s c (w_db v) = Some (n + 1)
    \<and> (\<exists>t. d_transactions (w_db v) = upd_by r_id i (nonce_row n t) (d_transactions (w_db w)))"
proof -
  have ch: "chain = int (unat c)" using bigint_range [OF assms(2)] by simp
  then obtain cu where cu: "row_by c_key (s, chain) (d_cursors (w_db w)) = Some cu" "c_next_nonce cu = n"
    using assms(3) by (auto simp: cursor_value_def)
  define d1 where "d1 t = upd_cursor (s, chain)
    (\<lambda>c. c\<lparr>c_next_nonce := c_next_nonce c + 1, c_updated_at := t\<rparr>) (w_db w)" for t
  have inc: "increment_stmt s c t (w_db w) = Inr (word_of_int n, d1 t)" for t
    using cu assms(2,5) by (simp add: increment_stmt_def d1_def)
  have set: "set_nonce_stmt i (word_of_int n) t d = Inr ((), upd_tx i (nonce_row n t) d)" for t d
    using bigint_word_of_int assms(4,5) by (simp add: set_nonce_stmt_def)
  have cur: "cursor_value s c (d1 t) = Some (n + 1)" for t
    using increment_cursor [OF inc assms(3,4)] by simp
  have rows: "d_transactions (d1 t) = d_transactions (w_db w)" for t by (simp add: d1_def)
  show ?thesis
    using assms(1,6) by (auto simp: AssignNonceAndMarkPending_def calm_runs inc set rows cur
        cursor_value_set_nonce [OF set])
qed

text \<open>C29: An outage costs nonces: when no endpoint of the chain is healthy, the pipeline marks the
  transaction as failed for good, with the code of a reverted estimate, after it has given it a
  nonce; nothing was sent, and the cursor has moved past that nonce, which no later transaction will
  use.\<close>

theorem outage_burns_nonce:
  assumes "calm w" and "\<not> Healthy (ch_ChainID chain) w"
    and "bigint (ch_ChainID chain) = Inr c" and "senderHex L (worker_of L keys sender chain) = s"
    and "cursor_value s (ch_ChainID chain) (w_db w) = Some n" and "0 \<le> n" and "n + 1 < 2 ^ 63"
    and "r \<in> set (d_transactions (w_db w))" and "r_id r = tx_ID tx"
    and "processTx L (worker_of L keys sender chain) tx act w = v"
  shows "w_sent v = w_sent w \<and> cursor_value s (ch_ChainID chain) (w_db v) = Some (n + 1)
    \<and> (\<exists>r' \<in> set (d_transactions (w_db v)). r_id r' = tx_ID tx \<and> r_status r' = TxStatusFailed
          \<and> r_nonce r' = Some n \<and> r_error_code r' = Some ''ESTIMATION_REVERTED'')"
proof -
  let ?p = "worker_of L keys sender chain" and ?c = "ch_ChainID chain"
  define w1 where "w1 = logTransition (tx_ID tx) (status_text TxStatusQueued)
    (status_text TxStatusPending) act ''claimed by pipeline'' w"
  have w1: "calm w1" "w_sent w1 = w_sent w" "w_endpoints w1 = w_endpoints w"
    "d_transactions (w_db w1) = d_transactions (w_db w)"
    "cursor_value s ?c (w_db w1) = Some n"
    using assms(1,5) by (simp_all add: w1_def log_calm cursor_value_def)
  obtain m w2 where a: "AssignNonceAndMarkPending (tx_ID tx) s ?c w1 = (m, w2)"
    by (cases "AssignNonceAndMarkPending (tx_ID tx) s ?c w1")
  note w2 = assign_calm [OF w1(1) assms(3) w1(5) assms(6,7) a]
  then obtain t where rows: "d_transactions (w_db w2)
      = upd_by r_id (tx_ID tx) (nonce_row n t) (d_transactions (w_db w))" using w1(4) by auto
  have "first_healthy i eps = None" if "\<not> (\<exists>ep \<in> set eps. ep_healthy ep)" for i eps
    using that by (induction eps arbitrary: i) auto
  then obtain e where est: "Estimate L (Client ?c) chain a b x y z w2 = (Inl e, w2)" for a b x y z
    using assms(2) w1(3) w2 by (force simp: Estimate_def Client_def EstimateGas_def rpc_call_def
        getClient_def Healthy_def)
  have "v = failTx tx ErrCodeEstimationReverted (err_text e) act w2"
    using assms(4,10) a w2 by (simp add: processTx_def Let_def w1_def [symmetric] pl_chainID_def
        NewPipeline_def est del: status_text.simps)
  then have v: "w_sent v = w_sent w" "cursor_value s ?c (w_db v) = Some (n + 1)"
    "\<exists>t'. d_transactions (w_db v) = upd_by r_id (tx_ID tx)
       (failed_row ErrCodeEstimationReverted (err_text e) t') (d_transactions (w_db w2))"
    using w2 w1(2) by (auto simp: failTx_def MarkFailed_def calm_runs log_calm cursor_value_def)
  then obtain t' where rows': "d_transactions (w_db v) = upd_by r_id (tx_ID tx)
       (failed_row ErrCodeEstimationReverted (err_text e) t') (d_transactions (w_db w2))" by blast
  let ?r = "failed_row ErrCodeEstimationReverted (err_text e) t' (nonce_row n t r)"
  have "?r \<in> set (d_transactions (w_db v))"
    using assms(8,9) by (auto simp: rows' rows set_upd_by nonce_row_def)
  then show ?thesis
    using v(1,2) assms(9) by (intro conjI bexI [of _ ?r]) (simp_all add: failed_row_def nonce_row_def)
qed

theorem outage_burns_nonce_witness:
  "w_sent (processTx sample_lib sample_worker sample_tx ''p'' (sample_world all_down queued_db)) = []"
proof -
  have h: "\<not> Healthy (ch_ChainID sample_chain) (sample_world all_down queued_db)"
    by (simp add: Healthy_def all_down_def)
  have s: "senderHex sample_lib (worker_of sample_lib [(7, 3)] 7 sample_chain) = ''0x7''"
    using sample_ids(1) by (simp only: sample_worker_def)
  show ?thesis
    unfolding sample_worker_def
    using outage_burns_nonce [OF calm_sample_world h _ s, of 1 5 sample_row sample_tx "''p''"]
    by (simp add: bigint_def sample_chain_def cursor_value_def c_key_def)
qed

end
