(* ===== verification/ReceiptFacts.thy ===== *)
theory ReceiptFacts
  imports Receipt PipelineFacts
begin

text \<open>
  What the receipt poller guarantees: it never panics, its rounds end, all its statements are steps
  of the protocol, what it sends again are the bytes of a stored attempt, and it confirms a
  transaction only on a receipt of the block it was included in.
\<close>

section \<open>Transactions that have been submitted\<close>

text \<open>What a worker knows of a transaction it has read, and what stays true of it.\<close>

definition mirrors :: "transaction \<Rightarrow> tx_row \<Rightarrow> bool" where
  "mirrors tx r \<longleftrightarrow> r_id r = tx_ID tx \<and> r_to_address r = tx_ToAddress tx
     \<and> Some (r_value r) = tx_Value tx \<and> r_data r = tx_Data tx
     \<and> (\<forall>n. tx_Nonce tx = Some n \<longrightarrow> r_nonce r = Some (int (unat n)))"

definition settled :: "transaction \<Rightarrow> db \<Rightarrow> bool" where
  "settled tx d \<longleftrightarrow> was_submitted (tx_ID tx) d \<and> recorded (tx_ID tx) (tx_FinalTxHash tx) d
     \<and> (\<exists>r \<in> set (d_transactions d). mirrors tx r)"

lemma kept_settled [simp, intro]: "kept_by_all (settled tx)"
  unfolding settled_def [abs_def]
  by (intro kept_conj kept_monotone kept_some_row)
    (auto simp: row_kept_def same_payload_def mirrors_def)

lemma settled_goes: "goes x S w v \<Longrightarrow> good x w \<Longrightarrow> settled tx (w_db w) \<Longrightarrow> settled tx (w_db v)"
  using goes_keep kept_settled by blast

lemma nonce_roundtrip:
  assumes "sys_ok d" and "r \<in> set (d_transactions d)" and "r_nonce r = Some n"
  shows "int (unat (word_of_int n :: u64)) = n"
proof -
  have "nonce_below (d_cursors d) r" using assms(1,2) nonces_ok_below by (simp add: sys_ok_def)
  then obtain c where "0 \<le> n" "c \<in> set (d_cursors d)" "n < c_next_nonce c"
    using assms(3) by (auto simp: nonce_below_def)
  moreover from this have "n < 2 ^ 63"
    using assms(1) by (force simp: sys_ok_def db_ok_def cursors_ok_def)
  ultimately show ?thesis by (simp add: uint_word_of_int)
qed

lemma row_settled:
  assumes "sys_ok d" and "r \<in> set (d_transactions d)" and "r_status r \<in> submitted_statuses"
  shows "settled (scanTransaction r) d"
proof -
  have "row_ok d r" using assms(1,2) by (simp add: sys_ok_def lifecycle_ok_def)
  then obtain h where h: "r_submitted_at r \<noteq> None" "r_final_tx_hash r = Some h" "recorded (r_id r) h d"
    using assms(3) by (auto simp: row_ok_def)
  have scan: "tx_ID (scanTransaction r) = r_id r" "tx_FinalTxHash (scanTransaction r) = h"
    "tx_ToAddress (scanTransaction r) = r_to_address r" "tx_Value (scanTransaction r) = Some (r_value r)"
    "tx_Data (scanTransaction r) = r_data r"
    "tx_Nonce (scanTransaction r) = map_option word_of_int (r_nonce r)"
    by (simp_all add: scanTransaction_def Let_def h(2) derefString_def)
  have "mirrors (scanTransaction r) r"
    using nonce_roundtrip [OF assms(1,2)] by (auto simp: mirrors_def scan)
  with h assms(2) show ?thesis unfolding settled_def was_submitted_def by (auto simp: scan)
qed

section \<open>The calls of the workers\<close>

lemma read_goes:
  assumes "one_stmt w v" and "w_db v = db_now w" and "good x w"
    and "sys_ok (db_now w) \<Longrightarrow> Q (db_now w)"
  shows "goes x S w v \<and> Q (w_db v)"
  using assms(3,1) stable_True TrueI by (rule stmt_step) (simp add: assms(2,4) step_idle)

text \<open>One statement that updates a settled transaction, and the ones that change no transaction.\<close>

lemma settled_step:
  assumes "one_stmt w v" and "good x w" and "settled tx (w_db w)"
    and "w_db v = db_now w \<or> (settled tx (db_now w) \<longrightarrow> sys_step x (db_now w) (w_db v))"
  shows "goes x S w v"
proof -
  have "goes x S w v \<and> True"
    using assms(2,1) kept_stable [OF kept_settled] assms(3)
    by (rule stmt_step) (use assms(4) step_idle in \<open>auto simp: eq_sym_conv\<close>)
  then show ?thesis by simp
qed

lemma mark_goes:
  assumes "good x w" and "settled tx (w_db w)" and "rc_TxHash rc = tx_FinalTxHash tx"
  shows "MarkConfirmed (tx_ID tx) rc w = (e, v) \<Longrightarrow> goes x S w v"
    and "MarkIncluded (tx_ID tx) rc w = (e, v) \<Longrightarrow> goes x S w v"
    and "MarkReverted (tx_ID tx) rc w = (e, v) \<Longrightarrow> goes x S w v"
proof -
  have "sys_step x d (upd_tx (tx_ID tx) (g t \<circ> f) d)"
    if "settled tx d" "receipt_columns rc = Inr f" "g \<in> {confirmed_row, included_row, reverted_row}"
    for d f g t
    using that assms(3) by (intro step_receipt [of _ _ rc]) (auto simp: settled_def)
  then show "MarkConfirmed (tx_ID tx) rc w = (e, v) \<Longrightarrow> goes x S w v"
    "MarkIncluded (tx_ID tx) rc w = (e, v) \<Longrightarrow> goes x S w v"
    "MarkReverted (tx_ID tx) rc w = (e, v) \<Longrightarrow> goes x S w v"
    using assms(1,2) mark_effects one_stmt_calls(6,7,8)
    by (metis (no_types, lifting) insertI1 insertI2 settled_step)+
qed

lemma resubmit_goes:
  assumes "RevertToSubmitted (tx_ID tx) w = (e, v)" and "good x w" and "settled tx (w_db w)"
  shows "goes x S w v"
  using one_stmt_calls(9) [OF assms(1)] assms(2,3)
  by (rule settled_step)
    (use RevertToSubmitted_effect [OF assms(1)] in \<open>auto simp: settled_def intro: step_resubmit\<close>)

lemma mark_attempt_goes:
  assumes "MarkAttemptStatus ai st w = (e, v)" and "good x w"
  shows "goes x S w v"
proof -
  have "goes x S w v \<and> True"
    using assms(2) one_stmt_calls(13) [OF assms(1)] stable_True TrueI
    by (rule stmt_step)
      (use MarkAttempt_effect [OF assms(1)] step_idle step_attempt_status in metis)
  then show ?thesis by simp
qed

lemma note_goes: "good x w \<Longrightarrow> goes x S w (logTransition i src dst act reason w)"
  using logTransition_goes [OF refl, of x w "\<lambda>d. True"] by simp

section \<open>Handling one receipt\<close>

lemma mark_attempts_goes: "good x w \<Longrightarrow> goes x S w (mark_attempts h as w)"
proof (induction as arbitrary: w)
  case (Cons a as)
  define u where "u = (if at_TxHash a = h then snd (MarkAttemptStatus (at_ID a) AttemptConfirmed w)
    else if at_Status a = AttemptBroadcast then snd (MarkAttemptStatus (at_ID a) AttemptReplaced w)
    else w)"
  have "goes x S w u"
    using mark_attempt_goes [OF _ Cons.prems] Cons.prems unfolding u_def
    by (auto simp: prod_eq_iff)
  moreover have "goes x S u (mark_attempts h as u)" using Cons.IH goes_good [OF calculation] .
  ultimately show ?case by (simp add: u_def [symmetric]) (rule goes_trans)
qed simp

lemma reads_go:
  assumes "GetAttemptsByTransactionID i w = (ats, v)" and "good x w"
  shows "goes x S w v"
proof -
  have "goes x S w v \<and> True"
    using one_stmt_calls(12) [OF assms(1)] reads_only(4) [OF assms(1)] assms(2) TrueI by (rule read_goes)
  then show ?thesis by simp
qed

lemma markAttemptConfirmed_goes:
  assumes "good x w"
  shows "goes x S w (markAttemptConfirmed i h w)"
proof -
  obtain ats u where g: "GetAttemptsByTransactionID i w = (ats, u)"
    by (cases "GetAttemptsByTransactionID i w")
  have u: "goes x S w u" using g assms by (rule reads_go)
  then show ?thesis
    using goes_trans [OF u mark_attempts_goes [OF goes_good [OF u]]]
    by (cases ats) (simp_all add: markAttemptConfirmed_def g)
qed

lemma make_receipt_ok:
  "er_BlockNumber r \<noteq> None \<Longrightarrow> \<exists>rc. make_receipt L h r = Ret rc \<and> rc_TxHash rc = h"
  by (auto simp: make_receipt_def Uint64_def)

text \<open>An update, then what follows when it succeeded.\<close>

lemma goes_then:
  assumes "act = (e, u)" and "goes x S w u" and "\<And>u. good x u \<Longrightarrow> goes x S u (f u)"
  shows "goes x S w (case act of (Some e, u) \<Rightarrow> u | (None, u) \<Rightarrow> f u)"
  using assms goes_good goes_trans by (cases e) auto

lemma submitted_receipt_goes:
  assumes "er_BlockNumber receipt \<noteq> None"
  shows "\<exists>v. submitted_receipt L rp tx receipt w = Ret v
    \<and> (good x w \<longrightarrow> settled tx (w_db w) \<longrightarrow> goes x S w v)"
proof -
  obtain rc where rc: "make_receipt L (tx_FinalTxHash tx) receipt = Ret rc"
    "rc_TxHash rc = tx_FinalTxHash tx" using make_receipt_ok [OF assms] by blast
  have "goes x S w (case MarkReverted (tx_ID tx) rc w of (Some e, u) \<Rightarrow> u | (None, u) \<Rightarrow> f u)"
    "goes x S w (case MarkIncluded (tx_ID tx) rc w of (Some e, u) \<Rightarrow> u | (None, u) \<Rightarrow> f u)"
    "goes x S w (case MarkConfirmed (tx_ID tx) rc w of (Some e, u) \<Rightarrow> u | (None, u) \<Rightarrow> f u)"
    if "good x w" "settled tx (w_db w)" "\<And>u. good x u \<Longrightarrow> goes x S u (f u)" for f
    using mark_goes [OF that(1,2) rc(2)] that(3)
    by (auto intro!: goes_then [OF prod.collapse [symmetric]] simp: prod_eq_iff)
  moreover have "goes x S u (markAttemptConfirmed i h (logTransition j src dst act reason u))"
    if "good x u" for u i h j src dst act reason
    using goes_trans [OF note_goes [OF that] markAttemptConfirmed_goes [OF goes_good [OF note_goes [OF that]]]] .
  ultimately show ?thesis
    by (simp add: submitted_receipt_def rc(1) Let_def note_goes del: status_text.simps)
qed

lemma handle_receipts_goes:
  assumes "\<forall>(h, r) \<in> set rs. er_BlockNumber r \<noteq> None \<and> m h \<noteq> None"
  shows "\<exists>v. handle_receipts L rp m rs w = Ret v
    \<and> (good x w \<longrightarrow> (\<forall>tx \<in> ran m. settled tx (w_db w)) \<longrightarrow> goes x S w v)"
  using assms
proof (induction rs arbitrary: w)
  case (Cons hr rs)
  obtain h r where hr: "hr = (h, r)" by (cases hr)
  obtain tx where tx: "m h = Some tx" using Cons.prems hr by auto
  obtain u where u: "submitted_receipt L rp tx r w = Ret u"
    "good x w \<longrightarrow> settled tx (w_db w) \<longrightarrow> goes x S w u"
    using submitted_receipt_goes [of r L rp tx w x S] Cons.prems hr by auto
  obtain v where v: "handle_receipts L rp m rs u = Ret v"
    "good x u \<longrightarrow> (\<forall>tx \<in> ran m. settled tx (w_db u)) \<longrightarrow> goes x S u v"
    using Cons.IH [of u] Cons.prems by auto
  have "goes x S w v" if "good x w" "\<forall>tx \<in> ran m. settled tx (w_db w)"
  proof -
    have "goes x S w u" using u(2) that tx by (auto simp: ran_def)
    moreover from this have "\<forall>tx \<in> ran m. settled tx (w_db u)" using settled_goes that by blast
    ultimately show ?thesis using v(2) goes_good goes_trans by blast
  qed
  then show ?case using hr tx u(1) v(1) by auto
qed simp

section \<open>Pages\<close>

text \<open>What the loop over pages needs of its page handler.\<close>

definition page_handler ::
    "string \<Rightarrow> (db \<Rightarrow> signed_tx \<Rightarrow> bool) \<Rightarrow> (transaction list \<Rightarrow> world \<Rightarrow> (bool \<times> world) outcome) \<Rightarrow> bool" where
  "page_handler x S handle \<longleftrightarrow> (\<forall>txs w. \<exists>b v. handle txs w = Ret (b, v)
     \<and> (good x w \<longrightarrow> (\<forall>tx \<in> set txs. settled tx (w_db w)) \<longrightarrow> goes x S w v))"

lemma page_handlerD: "page_handler x S handle \<Longrightarrow> \<exists>b v. handle txs w = Ret (b, v)
    \<and> (good x w \<longrightarrow> (\<forall>tx \<in> set txs. settled tx (w_db w)) \<longrightarrow> goes x S w v)"
  unfolding page_handler_def by blast

text \<open>What is sent again are the bytes of a stored attempt.\<close>

definition resends :: "'key eth_lib \<Rightarrow> db \<Rightarrow> signed_tx \<Rightarrow> bool" where
  "resends L d s \<longleftrightarrow> (\<exists>a \<in> set (d_attempts d). UnmarshalBinary L (a_raw_tx a) = Inr s)"

lemma kept_resends [intro]: "kept_by_all (\<lambda>d. resends L d s)"
  unfolding resends_def by (rule kept_some_attempt) simp

lemma attempts_read:
  assumes "GetAttemptsByTransactionID i w = (Inr ats, v)"
  shows "w_db v = db_now w \<and> ats = map scanAttempt (attempts_of i (w_db v))"
  using assms reads_only(4) [OF assms] by (auto simp: GetAttemptsByTransactionID_def dest!: query_ok)

locale receipt_env = c: rpc_client "rp_client rp" for rp :: receipt_poller
begin

lemma submitted_page_handler: "page_handler x S (submitted_page L rp)"
  unfolding page_handler_def
proof (intro allI)
  fix txs :: "transaction list" and w
  let ?es = "map (\<lambda>tx. (HexToHash L (tx_FinalTxHash tx), tx)) (filter (\<lambda>tx. tx_FinalTxHash tx \<noteq> []) txs)"
  let ?hs = "map fst ?es"
  show "\<exists>b v. submitted_page L rp txs w = Ret (b, v)
      \<and> (good x w \<longrightarrow> (\<forall>tx \<in> set txs. settled tx (w_db w)) \<longrightarrow> goes x S w v)"
  proof (cases "?hs = []")
    case True
    then show ?thesis by (auto simp: submitted_page_def Let_def)
  next
    case False
    obtain res u where b: "ec_BatchTransactionReceipts (rp_client rp) ?hs w = (res, u)"
      by (cases "ec_BatchTransactionReceipts (rp_client rp) ?hs w")
    have u: "good x w \<Longrightarrow> goes x S w u" using still_step [OF quiet_still [OF c.quiet_Batch [OF b]]] .
    show ?thesis
    proof (cases res)
      case (Inl e)
      then show ?thesis using b u False by (auto simp: submitted_page_def Let_def)
    next
      case (Inr rs)
      have "dom (hash_map ?es) = set ?hs"
        by (simp only: hash_map_def dom_map_of_conv_image_fst set_rev set_map)
      moreover have "ran (hash_map ?es) \<subseteq> set txs"
        by (auto simp: hash_map_def ran_def dest!: map_of_SomeD)
      ultimately have m: "dom (hash_map ?es) = set ?hs" "ran (hash_map ?es) \<subseteq> set txs" .
      have "\<forall>(h, r) \<in> set (range_order rs u). er_BlockNumber r \<noteq> None \<and> hash_map ?es h \<noteq> None"
        using c.batch_keys [OF b [unfolded Inr]] c.batch_blocks [OF b [unfolded Inr]] m(1) by force
      from handle_receipts_goes [OF this, of L rp u x S] obtain v where
        v: "handle_receipts L rp (hash_map ?es) (range_order rs u) u = Ret v"
        "good x u \<longrightarrow> (\<forall>tx \<in> ran (hash_map ?es). settled tx (w_db u)) \<longrightarrow> goes x S u v" by blast
      have "goes x S w v" if "good x w" "\<forall>tx \<in> set txs. settled tx (w_db w)"
      proof -
        have "\<forall>tx \<in> ran (hash_map ?es). settled tx (w_db u)"
          using settled_goes [OF u] that m(2) by blast
        with v(2) show ?thesis using u [OF that(1)] goes_good goes_trans by blast
      qed
      with v(1) show ?thesis using b Inr False by (auto simp: submitted_page_def Let_def)
    qed
  qed
qed

lemma rebroadcast_goes:
  assumes "good x w"
  shows "goes x (resends L) w (rebroadcastAfterReorg L rp tx w)"
proof -
  obtain ats u where g: "GetAttemptsByTransactionID (tx_ID tx) w = (ats, u)"
    by (cases "GetAttemptsByTransactionID (tx_ID tx) w")
  have u: "goes x (resends L) w u" using g assms by (rule reads_go)
  show ?thesis
  proof (cases "\<exists>as s. ats = Inr as \<and> as \<noteq> [] \<and> at_RawTx (last as) \<noteq> []
      \<and> UnmarshalBinary L (at_RawTx (last as)) = Inr s")
    case True
    then obtain as s where as: "ats = Inr as" "as \<noteq> []" "at_RawTx (last as) \<noteq> []"
      "UnmarshalBinary L (at_RawTx (last as)) = Inr s" by blast
    have "last as \<in> scanAttempt ` set (d_attempts (w_db u))"
      using attempts_read [OF g [unfolded as(1)]] last_in_set [OF as(2)] by auto
    then have "resends L (w_db u) s" using as(4) by (auto simp: resends_def scanAttempt_def)
    moreover obtain e v where "ec_SendTransaction (rp_client rp) s u = (e, v)"
      by (cases "ec_SendTransaction (rp_client rp) s u")
    ultimately have "goes x (resends L) u (snd (ec_SendTransaction (rp_client rp) s u))"
      using send_step [OF c.sends_SendTransaction goes_good [OF u]] by simp
    with u show ?thesis using goes_trans as g by (simp add: rebroadcastAfterReorg_def)
  next
    case False
    then show ?thesis using u by (auto simp: rebroadcastAfterReorg_def g split: sum.split)
  qed
qed

lemma calm_rebroadcast:
  assumes "calm w"
  shows "d_transactions (w_db (rebroadcastAfterReorg L rp tx w)) = d_transactions (w_db w)"
proof -
  have "w_db (snd (ec_SendTransaction (rp_client rp) s u)) = w_db u" for s u
    using c.sends_SendTransaction [of s u] by (simp add: sends_only_def rpc_frame_def prod_eq_iff)
  then show ?thesis
    using assms by (simp add: rebroadcastAfterReorg_def GetAttemptsByTransactionID_def calm_query
        split: sum.split)
qed

lemma included_tx_goes:
  assumes "\<forall>(h, r) \<in> set rs. er_BlockNumber r \<noteq> None" and "tx_BlockNumber tx \<noteq> None"
  shows "\<exists>v. included_tx L rp cur rs tx w = Ret v
    \<and> (good x w \<longrightarrow> settled tx (w_db w) \<longrightarrow> goes x (resends L) w v)"
proof (cases "map_of rs (HexToHash L (tx_FinalTxHash tx))")
  case None
  have "goes x (resends L) u (rebroadcastAfterReorg L rp tx (logTransition i src dst act reason u))"
    if "good x u" for u i src dst act reason
    using goes_trans [OF note_goes [OF that] rebroadcast_goes [OF goes_good [OF note_goes [OF that]]]] .
  then have "goes x (resends L) w (case RevertToSubmitted (tx_ID tx) w of (Some e, u) \<Rightarrow> u
      | (None, u) \<Rightarrow> rebroadcastAfterReorg L rp tx (logTransition (tx_ID tx)
          (status_text TxStatusIncluded) (status_text TxStatusSubmitted) (poller_actor rp)
          ''reorg detected'' u))" if "good x w" "settled tx (w_db w)"
    using resubmit_goes [OF prod.collapse [symmetric] that]
    by (intro goes_then [OF prod.collapse [symmetric]])
  then show ?thesis
    using None by (auto simp: included_tx_def Let_def split: prod.split option.split)
next
  case (Some r)
  then have "er_BlockNumber r \<noteq> None" using assms(1) by (auto dest: map_of_SomeD)
  then obtain rc where rc: "make_receipt L (tx_FinalTxHash tx) r = Ret rc"
    "rc_TxHash rc = tx_FinalTxHash tx" using make_receipt_ok by blast
  obtain b where b: "tx_BlockNumber tx = Some b" using assms(2) by blast
  have "goes x S w (case MarkIncluded (tx_ID tx) rc w of (Some e, u) \<Rightarrow> u | (None, u) \<Rightarrow> f u)"
    "goes x S w (case MarkConfirmed (tx_ID tx) rc w of (Some e, u) \<Rightarrow> u | (None, u) \<Rightarrow> f u)"
    if "good x w" "settled tx (w_db w)" "\<And>u. good x u \<Longrightarrow> goes x S u (f u)" for f S
    using mark_goes [OF that(1,2) rc(2)] that(3)
    by (auto intro!: goes_then [OF prod.collapse [symmetric]] simp: prod_eq_iff)
  moreover have "goes x S u (markAttemptConfirmed i h (logTransition j src dst act reason u))"
    if "good x u" for u i h j src dst act reason S
    using goes_trans [OF note_goes [OF that] markAttemptConfirmed_goes [OF goes_good [OF note_goes [OF that]]]] .
  ultimately show ?thesis
    by (simp add: included_tx_def Some rc(1) b Let_def note_goes del: status_text.simps)
qed

lemma included_txs_goes:
  assumes "\<forall>(h, r) \<in> set rs. er_BlockNumber r \<noteq> None" and "\<forall>tx \<in> set txs. tx_BlockNumber tx \<noteq> None"
  shows "\<exists>v. included_txs L rp cur rs txs w = Ret v
    \<and> (good x w \<longrightarrow> (\<forall>tx \<in> set txs. settled tx (w_db w)) \<longrightarrow> goes x (resends L) w v)"
  using assms(2)
proof (induction txs arbitrary: w)
  case (Cons tx txs)
  obtain u where u: "included_tx L rp cur rs tx w = Ret u"
    "good x w \<longrightarrow> settled tx (w_db w) \<longrightarrow> goes x (resends L) w u"
    using included_tx_goes [OF assms(1)] Cons.prems by (metis list.set_intros(1))
  obtain v where v: "included_txs L rp cur rs txs u = Ret v"
    "good x u \<longrightarrow> (\<forall>tx \<in> set txs. settled tx (w_db u)) \<longrightarrow> goes x (resends L) u v"
    using Cons.IH [of u] Cons.prems by auto
  have "goes x (resends L) w v" if "good x w" "\<forall>tx' \<in> set (tx # txs). settled tx' (w_db w)"
  proof -
    have "goes x (resends L) w u" using u(2) that by simp
    moreover from this have "\<forall>tx \<in> set txs. settled tx (w_db u)" using settled_goes that by auto
    ultimately show ?thesis using v(2) goes_good goes_trans by blast
  qed
  then show ?case using u(1) v(1) by auto
qed simp

lemma included_page_handler: "page_handler x (resends L) (included_page L rp cur)"
  unfolding page_handler_def
proof (intro allI)
  fix txs :: "transaction list" and w
  let ?ready = "filter (is_ready rp cur) txs"
  let ?hs = "map (\<lambda>tx. HexToHash L (tx_FinalTxHash tx)) ?ready"
  show "\<exists>b v. included_page L rp cur txs w = Ret (b, v)
      \<and> (good x w \<longrightarrow> (\<forall>tx \<in> set txs. settled tx (w_db w)) \<longrightarrow> goes x (resends L) w v)"
  proof (cases "?hs = []")
    case True
    then show ?thesis by (auto simp: included_page_def Let_def)
  next
    case False
    obtain res u where b: "ec_BatchTransactionReceipts (rp_client rp) ?hs w = (res, u)"
      by (cases "ec_BatchTransactionReceipts (rp_client rp) ?hs w")
    have u: "good x w \<Longrightarrow> goes x S w u" for S
      using still_step [OF quiet_still [OF c.quiet_Batch [OF b]]] .
    show ?thesis
    proof (cases res)
      case (Inl e)
      then show ?thesis using b u False by (auto simp: included_page_def Let_def)
    next
      case (Inr rs)
      have "\<forall>(h, r) \<in> set rs. er_BlockNumber r \<noteq> None"
        using c.batch_blocks [OF b [unfolded Inr]] by auto
      moreover have "\<forall>tx \<in> set ?ready. tx_BlockNumber tx \<noteq> None" by (auto simp: is_ready_def split: option.splits)
      ultimately obtain v where v: "included_txs L rp cur rs ?ready u = Ret v"
        "good x u \<longrightarrow> (\<forall>tx \<in> set ?ready. settled tx (w_db u)) \<longrightarrow> goes x (resends L) u v"
        using included_txs_goes [of rs ?ready L cur u x] by blast
      have "goes x (resends L) w v" if "good x w" "\<forall>tx \<in> set txs. settled tx (w_db w)"
      proof -
        have "\<forall>tx \<in> set ?ready. settled tx (w_db u)" using settled_goes [OF u] that by auto
        with v(2) show ?thesis using u [OF that(1)] goes_good goes_trans by blast
      qed
      with v(1) show ?thesis using b Inr False by (auto simp: included_page_def Let_def)
    qed
  qed
qed

end

interpretation poller: receipt_env "NewReceiptPoller chainID blocks chunk (Client cid) ival"
  by (simp add: receipt_env_def NewReceiptPoller_def pool.rpc_client_axioms)

section \<open>The loop over pages\<close>

text \<open>
  A source of pages lists, in one statement, transactions that have been submitted, with
  identifiers after the cursor, the largest one last.
\<close>

locale paged_source =
  fixes page :: "string \<Rightarrow> world \<Rightarrow> (go_error + transaction list) \<times> world"
  assumes page_reads: "page cur w = (r, v) \<Longrightarrow> one_stmt w v \<and> w_db v = db_now w"
    and page_settled: "page cur w = (Inr txs, v) \<Longrightarrow> sys_ok (db_now w) \<Longrightarrow> tx \<in> set txs \<Longrightarrow>
      settled tx (db_now w)"
    and page_after_cursor: "page cur w = (Inr txs, v) \<Longrightarrow> tx \<in> set txs \<Longrightarrow>
      tx_ID tx \<in> tx_ids (db_now w) \<and> (cur \<noteq> [] \<longrightarrow> cur < tx_ID tx)"
begin

lemma page_goes:
  "page cur w = (r, v) \<Longrightarrow> good x w \<Longrightarrow>
    goes x S w v \<and> (\<forall>txs. r = Inr txs \<longrightarrow> (\<forall>tx \<in> set txs. settled tx (w_db v)))"
  using page_reads page_settled by (intro read_goes) auto

lemma page_loop_goes:
  assumes "page_handler x S handle" and "page_loop n page handle chunk cur w = Ret v" and "good x w"
  shows "goes x S w v"
  using assms(2,3)
proof (induction n arbitrary: cur w)
  case (Suc n)
  obtain r u where p: "page cur w = (r, u)" by (cases "page cur w")
  note u = page_goes [OF p Suc.prems(2), of S]
  show ?case
  proof (cases "\<exists>txs. r = Inr txs \<and> txs \<noteq> []")
    case False
    then show ?thesis using Suc.prems(1) p u by (auto split: sum.splits if_splits)
  next
    case True
    then obtain txs where txs: "r = Inr txs" "txs \<noteq> []" by blast
    obtain b u' where h: "handle txs u = Ret (b, u')"
      "good x u \<longrightarrow> (\<forall>tx \<in> set txs. settled tx (w_db u)) \<longrightarrow> goes x S u u'"
      using page_handlerD [OF assms(1), of txs u] by blast
    have "goes x S u u'" using h(2) u goes_good [OF conjunct1 [OF u]] txs(1) by simp
    with conjunct1 [OF u] have u': "goes x S w u'" by (rule goes_trans)
    have "v = u' \<or> page_loop n page handle chunk (tx_ID (last txs)) u' = Ret v"
      using Suc.prems(1) p txs h by (auto split: if_splits)
    then show ?thesis using Suc.IH goes_good [OF u'] u' goes_trans by blast
  qed
qed simp

lemma page_loop_no_panic: "page_handler x S handle \<Longrightarrow> page_loop n page handle chunk cur w \<noteq> Panic"
proof (induction n arbitrary: cur w)
  case (Suc n)
  obtain r u where p: "page cur w = (r, u)" by (cases "page cur w")
  have "handle txs u \<noteq> Panic" for txs
    using page_handlerD [OF Suc.prems, of txs u] by auto
  then show ?case using Suc p by (auto simp: and_then_eq_Panic split: sum.split)
qed simp

text \<open>When the identifiers stay within a finite set, the cursor can only move so often.\<close>

lemma page_loop_returns:
  assumes "page_handler x S handle" and "finite U" and "[] \<notin> U" and "x \<noteq> ''api''"
    and "good x w" and "ids_within U w" and "card {i \<in> U. cur < i} < n"
  shows "\<exists>v. page_loop n page handle chunk cur w = Ret v"
  using assms(5-7)
proof (induction n arbitrary: cur w)
  case (Suc n)
  obtain r u where p: "page cur w = (r, u)" by (cases "page cur w")
  note u = page_goes [OF p Suc.prems(1), of S]
  show ?case
  proof (cases "\<exists>txs. r = Inr txs \<and> txs \<noteq> []")
    case False
    then show ?thesis using p by (auto split: sum.split)
  next
    case True
    then obtain txs where txs: "r = Inr txs" "txs \<noteq> []" by blast
    obtain b u' where h: "handle txs u = Ret (b, u')"
      "good x u \<longrightarrow> (\<forall>tx \<in> set txs. settled tx (w_db u)) \<longrightarrow> goes x S u u'"
      using page_handlerD [OF assms(1), of txs u] by blast
    have "goes x S u u'" using h(2) u goes_good [OF conjunct1 [OF u]] txs(1) by simp
    with conjunct1 [OF u] have u': "goes x S w u'" by (rule goes_trans)
    have within: "ids_within U u" "ids_within U u'"
      using runs_ids assms(4) Suc.prems(2) u u' by (auto simp: goes_def)
    let ?l = "tx_ID (last txs)"
    have l: "?l \<in> U" "cur < ?l"
    proof -
      have "?l \<in> tx_ids (db_now w)" "cur \<noteq> [] \<longrightarrow> cur < ?l"
        using page_after_cursor [OF p [unfolded txs(1)] last_in_set [OF txs(2)]] by auto
      then show "?l \<in> U" using within(1) page_reads [OF p] by (auto simp: ids_within_def)
      with assms(3) have "?l \<noteq> []" by metis
      then show "cur < ?l" using \<open>cur \<noteq> [] \<longrightarrow> cur < ?l\<close> by (cases "cur = []") (auto simp: neq_Nil_conv)
    qed
    have "{i \<in> U. ?l < i} \<subset> {i \<in> U. cur < i}" using l by auto
    then have "card {i \<in> U. ?l < i} < card {i \<in> U. cur < i}"
      using assms(2) by (intro psubset_card_mono) auto
    with Suc.prems(3) have "card {i \<in> U. ?l < i} < n" by simp
    from Suc.IH [OF goes_good [OF u'] within(2) this] show ?thesis using p txs h by auto
  qed
qed simp

end

lemma get_page_source:
  assumes "st \<in> submitted_statuses"
  shows "paged_source (get_page st c lm)"
proof
  show "get_page st c lm cur w = (r, v) \<Longrightarrow> one_stmt w v \<and> w_db v = db_now w" for cur w r v
    by (auto simp: get_page_def dest: one_stmt_query query_db)
next
  fix cur w txs v tx
  assume p: "get_page st c lm cur w = (Inr txs, v)" and tx: "tx \<in> set txs"
  obtain chain where txs: "txs = scanTransactionRows (page_after st chain (nat lm) cur
      (d_transactions (db_now w)))"
    using p by (auto simp: get_page_def dest!: query_ok split: sum.splits if_splits)
  then obtain r where r: "r \<in> set (page_after st chain (nat lm) cur (d_transactions (db_now w)))"
    "tx = scanTransaction r" using tx by (auto simp: scanTransactionRows_def)
  then have row: "r \<in> set (d_transactions (db_now w))" "r_status r = st" "cur \<noteq> [] \<longrightarrow> cur < r_id r"
    by (auto simp: page_after_def dest: in_set_takeD)
  then show "tx_ID tx \<in> tx_ids (db_now w) \<and> (cur \<noteq> [] \<longrightarrow> cur < tx_ID tx)"
    by (auto simp: r(2) scanTransaction_def Let_def tx_ids_def)
  show "sys_ok (db_now w) \<Longrightarrow> settled tx (db_now w)"
    using row_settled row assms by (simp add: r(2))
qed

interpretation submitted_pages: paged_source "GetSubmittedTransactions c lm"
  unfolding GetSubmittedTransactions_def by (rule get_page_source) (simp add: submitted_statuses_def)

interpretation included_pages: paged_source "GetIncludedTransactions c lm"
  unfolding GetIncludedTransactions_def by (rule get_page_source) (simp add: submitted_statuses_def)

section \<open>A round of the poller\<close>

abbreviation poller_of :: "u64 \<Rightarrow> int \<Rightarrow> int \<Rightarrow> duration \<Rightarrow> receipt_poller" where
  "poller_of cid blocks chunk ival \<equiv> NewReceiptPoller cid blocks chunk (Client cid) ival"

lemma poll_goes:
  assumes "poll fuel L (poller_of cid blocks chunk ival) w = Ret v" and "good x w"
  shows "goes x (resends L) w v"
proof -
  let ?rp = "poller_of cid blocks chunk ival"
  obtain u where u: "pollSubmitted fuel L ?rp w = Ret u" and v: "pollIncluded fuel L ?rp u = Ret v"
    using assms(1) by (auto simp: poll_def)
  have 1: "goes x (resends L) w u"
    using u assms(2) submitted_pages.page_loop_goes [OF poller.submitted_page_handler]
    unfolding pollSubmitted_def by blast
  obtain n u' where b: "ec_BlockNumber (rp_client ?rp) u = (n, u')"
    by (cases "ec_BlockNumber (rp_client ?rp) u")
  have 2: "goes x (resends L) u u'"
    using still_step [OF quiet_still [OF poller.c.quiet_BlockNumber [OF b]]] 1 goes_good by blast
  have "goes x (resends L) u v"
  proof (cases "v = u \<or> v = u'")
    case True
    then show ?thesis using 1 2 goes_good by auto
  next
    case False
    then obtain cur where "page_loop fuel (GetIncludedTransactions (rp_chainID ?rp) (rp_receiptChunkSize ?rp))
        (included_page L ?rp cur) (rp_receiptChunkSize ?rp) [] u' = Ret v"
      using v b by (auto simp: pollIncluded_def split: if_splits sum.splits)
    then have "goes x (resends L) u' v"
      using included_pages.page_loop_goes [OF poller.included_page_handler] goes_good [OF 2] by blast
    with 2 show ?thesis by (rule goes_trans)
  qed
  with 1 show ?thesis by (rule goes_trans)
qed

lemma poll_returns:
  assumes "good x w" and "x \<noteq> ''api''" and "finite U" and "[] \<notin> U" and "ids_within U w"
    and "card U < fuel"
  shows "\<exists>v. poll fuel L (poller_of cid blocks chunk ival) w = Ret v"
proof -
  let ?rp = "poller_of cid blocks chunk ival"
  have "card {i \<in> U. c < i} \<le> card U" for c using assms(3) by (intro card_mono) auto
  then have small: "card {i \<in> U. c < i} < fuel" for c using assms(6) by (meson le_less_trans)
  obtain u where u: "pollSubmitted fuel L ?rp w = Ret u"
    using submitted_pages.page_loop_returns [OF poller.submitted_page_handler assms(3,4,2,1,5) small]
    unfolding pollSubmitted_def by blast
  have 1: "goes x (resends L) w u"
    using u assms(1) submitted_pages.page_loop_goes [OF poller.submitted_page_handler]
    unfolding pollSubmitted_def by blast
  obtain n u' where b: "ec_BlockNumber (rp_client ?rp) u = (n, u')"
    by (cases "ec_BlockNumber (rp_client ?rp) u")
  have 2: "goes x (resends L) w u'"
    using still_step [OF quiet_still [OF poller.c.quiet_BlockNumber [OF b]]] 1 goes_good goes_trans
    by blast
  then have "ids_within U u'" using runs_ids assms(2,5) by (auto simp: goes_def)
  then have "\<exists>v. page_loop fuel (GetIncludedTransactions (rp_chainID ?rp) (rp_receiptChunkSize ?rp))
      (included_page L ?rp cur) (rp_receiptChunkSize ?rp) [] u' = Ret v" for cur
    using included_pages.page_loop_returns [OF poller.included_page_handler assms(3,4,2)
        goes_good [OF 2] _ small] by blast
  then have "\<exists>v. pollIncluded fuel L ?rp u = Ret v"
    using b by (auto simp: pollIncluded_def split: sum.split)
  then show ?thesis using u by (simp add: poll_def)
qed

section \<open>Decisions\<close>

lemma verify_logs_iff:
  "verify_logs L contract src dst lgs \<longleftrightarrow> (\<exists>lg \<in> set lgs.
     EqualFold (Address_Hex L (ev_Address lg)) (Address_Hex L contract)
     \<and> (\<exists>rest. ev_Topics lg = TransferEventSig L # src # dst # rest))"
proof (induction lgs)
  case (Cons lg lgs)
  have "(\<exists>rest. ts = a # b # c # rest) \<longleftrightarrow> \<not> length ts < 3 \<and> ts ! 0 = a \<and> ts ! 1 = b \<and> ts ! 2 = c"
    for ts :: "hash list" and a b c
    by (auto simp: numeral_eq_Suc Suc_le_length_iff not_less)
  then show ?case using Cons by auto
qed simp

text \<open>Undisturbed, the follow-up of an update leaves the transactions alone.\<close>

lemma calm_mark_attempts:
  "calm w \<Longrightarrow> calm (mark_attempts h as w)
    \<and> d_transactions (w_db (mark_attempts h as w)) = d_transactions (w_db w)"
  by (induction as arbitrary: w) (simp_all add: MarkAttemptStatus_def calm_exec)

lemma calm_markAttemptConfirmed:
  "calm w \<Longrightarrow> d_transactions (w_db (markAttemptConfirmed i h w)) = d_transactions (w_db w)"
  by (simp add: markAttemptConfirmed_def GetAttemptsByTransactionID_def calm_query calm_mark_attempts)

lemma calm_mark_receipt:
  assumes "calm w" and "receipt_columns rc = Inr f"
  shows "mark_receipt fin i rc w
    = (None, after_stmt (upd_tx i (fin (time_now w) \<circ> f) (w_db w)) w)"
  using assms by (simp add: mark_receipt_def calm_exec)

lemmas calm_marks = calm_mark_receipt [where fin = confirmed_row, folded MarkConfirmed_def]
  calm_mark_receipt [where fin = included_row, folded MarkIncluded_def]
  calm_mark_receipt [where fin = reverted_row, folded MarkReverted_def]

lemma calm_log_rows: "calm w \<Longrightarrow> calm (logTransition i src dst act reason w)
    \<and> d_transactions (w_db (logTransition i src dst act reason w)) = d_transactions (w_db w)"
  by (simp add: log_calm)

lemma updated_row:
  assumes "r \<in> set (d_transactions d)" and "r_id r = i"
    and "d_transactions d' = upd_by r_id i f (d_transactions d)" and "P (f r)"
  shows "\<exists>r' \<in> set (d_transactions d'). P r'"
  using assms by (auto simp: set_upd_by)

section \<open>Properties\<close>

text \<open>C10: A round of the receipt poller refines the protocol: every statement it makes, on every
  branch and whatever the others do in between, is a step the protocol allows; and everything it
  sends again is read from the bytes of a stored attempt.\<close>

theorem poller_refines_protocol:
  assumes "poll fuel L (poller_of cid blocks chunk ival) w = Ret v" and "rely x w" and "sys_ok (w_db w)"
  shows "sys_ok (w_db v)
    \<and> (\<exists>own. w_steps v = w_steps w @ own \<and> (\<forall>(d, d') \<in> set own. sys_step x d d'))
    \<and> (\<exists>new. w_sent v = w_sent w @ new \<and> (\<forall>(c, url, s) \<in> set new.
         \<exists>a \<in> set (d_attempts (w_db v)). UnmarshalBinary L (a_raw_tx a) = Inr s))"
proof -
  have g: "goes x (resends L) w v" using poll_goes [OF assms(1)] assms(2,3) by (simp add: good_def)
  have "\<exists>own. w_steps v = w_steps w @ own \<and> (\<forall>(d, d') \<in> set own. sys_step x d d')"
    using runs_steps [of "sys_step x" "resends L" w v] g by (simp add: goes_def)
  moreover have "\<exists>new. w_sent v = w_sent w @ new \<and> (\<forall>(c, url, s) \<in> set new. resends L (w_db v) s)"
    using goes_sent [OF g _ kept_resends] assms(2,3) by (simp add: good_def)
  moreover have "sys_ok (w_db v)" using g by (simp add: goes_def good_def)
  ultimately show ?thesis unfolding resends_def by blast
qed

text \<open>C17: What a receipt does to a submitted transaction: a failed receipt reverts it; a successful one
  of a token transfer whose Transfer event is missing reverts it too; any other includes it when
  confirmations are asked for, and confirms it at once when not. The receipt's hash and block are
  written in every case.\<close>

theorem submitted_receipt_decision:
  assumes "calm w" and "r \<in> set (d_transactions (w_db w))" and "r_id r = tx_ID tx"
    and "make_receipt L (tx_FinalTxHash tx) receipt = Ret rc" and "receipt_columns rc = Inr f"
    and "submitted_receipt L rp tx receipt w = Ret v"
  shows "\<exists>r' \<in> set (d_transactions (w_db v)). r_id r' = tx_ID tx
    \<and> r_block_hash r' = Some (Hash_Hex L (er_BlockHash receipt))
    \<and> r_final_tx_hash r' = Some (tx_FinalTxHash tx)
    \<and> r_status r' = (if er_Status receipt \<noteq> 1 then TxStatusReverted
        else if tx_TokenContract tx \<noteq> [] \<and> \<not> verifyERC20Transfer L receipt tx then TxStatusReverted
        else if rp_confirmationBlocks rp > 0 then TxStatusIncluded else TxStatusConfirmed)"
proof -
  have rc: "rc_TxHash rc = tx_FinalTxHash tx" "rc_BlockHash rc = Hash_Hex L (er_BlockHash receipt)"
    using assms(4) by (auto simp: make_receipt_def)
  have f: "r_id (f r) = r_id r" "r_final_tx_hash (f r) = Some (rc_TxHash rc)"
    "r_block_hash (f r) = Some (rc_BlockHash rc)"
    using assms(5) by (auto elim!: receipt_columnsE)
  let ?g = "if er_Status receipt \<noteq> 1 then reverted_row
        else if tx_TokenContract tx \<noteq> [] \<and> \<not> verifyERC20Transfer L receipt tx then reverted_row
        else if rp_confirmationBlocks rp > 0 then included_row else confirmed_row"
  have "d_transactions (w_db v) = upd_by r_id (tx_ID tx) (?g (time_now w) \<circ> f) (d_transactions (w_db w))"
    using assms(1,6) by (auto simp: submitted_receipt_def assms(4) Let_def calm_marks [OF _ assms(5)]
        calm_log_rows calm_markAttemptConfirmed simp del: status_text.simps split: if_splits)
  then show ?thesis
    by (rule updated_row [OF assms(2,3)])
      (simp_all add: f rc assms(3) reverted_row_def included_row_def confirmed_row_def)
qed

definition sample_rc :: tx_receipt where
  "sample_rc = \<lparr>rc_TxHash = ''0x9'', rc_BlockNumber = 100, rc_BlockHash = Hash_Hex sample_lib 7,
     rc_GasUsed = 21000, rc_EffectiveGasPrice = Some 5, rc_Status = 1, rc_ReceiptJSON = []\<rparr>"

lemma sample_make_receipt: "make_receipt sample_lib ''0x9'' sample_receipt = Ret sample_rc"
  by (simp add: make_receipt_def Uint64_def sample_receipt_def sample_rc_def)
    (simp add: sample_lib_def)

lemma sample_columns: "\<exists>f. receipt_columns sample_rc = Inr f"
  by (simp add: receipt_columns_def sample_rc_def bigint_def numeric78_def)

definition sample_final_tx :: transaction where
  "sample_final_tx = scanTransaction sample_final"

lemma sample_final_tx_fields [simp]:
  "tx_ID sample_final_tx = ''t1''" "tx_FinalTxHash sample_final_tx = ''0x9''"
  "tx_TokenContract sample_final_tx = []"
  by (simp_all add: sample_final_tx_def scanTransaction_def Let_def derefString_def)
    (simp_all add: sample_final_def submitted_row_def nonce_row_def claim_row_def sample_row_def)

theorem submitted_receipt_decision_witness:
  "\<exists>v. submitted_receipt sample_lib (poller_of 1 3 10 2000000) sample_final_tx sample_receipt
      (sample_world one_up submitted_db) = Ret v
    \<and> (\<exists>r' \<in> set (d_transactions (w_db v)). r_status r' = TxStatusIncluded)"
proof -
  let ?w = "sample_world one_up submitted_db"
  obtain f where f: "receipt_columns sample_rc = Inr f" using sample_columns by blast
  obtain v where v: "submitted_receipt sample_lib (poller_of 1 3 10 2000000) sample_final_tx sample_receipt ?w
      = Ret v"
    using sample_make_receipt by (simp add: submitted_receipt_def)
  from submitted_receipt_decision [OF calm_sample_world _ _ _ f v, of sample_final]
  have "\<exists>r' \<in> set (d_transactions (w_db v)). r_status r' = TxStatusIncluded"
    using sample_make_receipt
    by (auto simp: sample_submitted sample_receipt_def NewReceiptPoller_def)
  with v show ?thesis by blast
qed



text \<open>C31: A token transfer counts as verified exactly when the receipt has an event log of the token
  contract whose first three topics are the Transfer signature, the sender and the recipient.\<close>

theorem verifyERC20Transfer_iff:
  "verifyERC20Transfer L receipt tx \<longleftrightarrow> (\<exists>lg \<in> set (er_Logs receipt).
     EqualFold (Address_Hex L (ev_Address lg)) (Address_Hex L (HexToAddress L (tx_TokenContract tx)))
     \<and> (\<exists>rest. ev_Topics lg = TransferEventSig L # AddressToHash L (HexToAddress L (tx_Sender tx))
          # AddressToHash L (HexToAddress L (tx_TransferRecipient tx)) # rest))"
  by (simp add: verifyERC20Transfer_def verify_logs_iff)

text \<open>C30: A lagging node confirms too early: the depth is an unsigned difference, so a transaction
  included in a block that lies ahead of the block number the node reports counts as deeper than
  any number of confirmations one could ask for.\<close>

theorem lagging_head_counts_as_deep:
  assumes "tx_BlockNumber tx = Some b" and "cur < b" and "unat b - unat cur \<le> 2 ^ 63"
    and "0 \<le> rp_confirmationBlocks rp" and "rp_confirmationBlocks rp \<le> 2 ^ 63"
  shows "is_ready rp cur tx"
proof -
  have "unat (cur - b) = 2 ^ 64 - (unat b - unat cur)"
    using assms(2) by (simp add: unat_sub_if' word_less_nat_alt)
  then have "2 ^ 63 \<le> unat (depth_of cur b)" using assms(3) by (simp add: depth_of_def)
  moreover have "unat (word_of_int (rp_confirmationBlocks rp) :: u64) = nat (rp_confirmationBlocks rp)"
    using assms(4,5) by (simp add: unat_eq_nat_uint uint_word_of_int)
  ultimately show ?thesis
    using assms(1,5) by (simp add: is_ready_def word_less_nat_alt)
qed

theorem lagging_head_counts_as_deep_witness:
  "is_ready (poller_of 1 12 10 2000000) 100 (sample_tx\<lparr>tx_BlockNumber := Some 101\<rparr>)"
  by (rule lagging_head_counts_as_deep [where b = 101]) (simp_all add: NewReceiptPoller_def)

text \<open>C27: A round of the receipt poller returns: it never dereferences a nil transaction or block
  number, and it visits each page once, so with at most as many transactions as the fuel exceeds it
  comes to an end, whatever receipts the nodes report.\<close>

theorem poller_round_returns:
  assumes "rely x w" and "sys_ok (w_db w)" and "x \<noteq> ''api''"
    and "finite U" and "[] \<notin> U" and "ids_within U w" and "card U < fuel"
  shows "\<exists>v. poll fuel L (poller_of cid blocks chunk ival) w = Ret v"
  using assms by (intro poll_returns) (simp_all add: good_def)

lemma sample_ids_within: "ids_within {''t1''} (sample_world eps queued_db)"
  by (simp add: ids_within_def tx_ids_def)

theorem poller_round_returns_witness:
  "\<exists>v. poll 2 sample_lib (poller_of 1 3 10 2000000) (sample_world one_up queued_db) = Ret v"
proof (rule poller_round_returns)
  show "rely ''poller'' (sample_world one_up queued_db)" by (rule sample_rely)
  show "ids_within {''t1''} (sample_world one_up queued_db)" by (rule sample_ids_within)
qed (simp_all add: sys_ok_queued_db)

theorem poller_refines_protocol_witness:
  "\<exists>v. poll 2 sample_lib (poller_of 1 3 10 2000000) (sample_world one_up submitted_db) = Ret v \<and> sys_ok (w_db v)"
proof -
  let ?w = "sample_world one_up submitted_db"
  have ok: "sys_ok (w_db ?w)"
    using reachable_sys_ok [OF reach_submitted] fresh_sys_ok fresh_start_db by simp
  have within: "ids_within {''t1''} ?w" by (simp add: ids_within_def tx_ids_def sample_submitted)
  have "good ''poller'' ?w" using ok sample_rely by (simp add: good_def)
  then have "\<exists>v. poll 2 sample_lib (poller_of 1 3 10 2000000) ?w = Ret v"
    using within by (intro poll_returns [of "''poller''" ?w "{''t1''}"]) simp_all
  then obtain v where v: "poll 2 sample_lib (poller_of 1 3 10 2000000) ?w = Ret v" by blast
  from poller_refines_protocol [OF this sample_rely ok] have "sys_ok (w_db v)" by simp
  with v show ?thesis by blast
qed

end
