(* ===== verification/StuckFacts.thy ===== *)
theory StuckFacts
  imports Stuck ReceiptFacts
begin

text \<open>
  What the stuck detector guarantees: under the invariants of the database it never panics, all its
  statements are steps of the protocol, each replacement has the nonce and payload of its
  transaction and is stored before it is sent, and no transaction gets more than six attempts.
\<close>

section \<open>Reading the attempts\<close>

lemma attempts_goes:
  assumes "GetAttemptsByTransactionID (tx_ID tx) w = (Inr ats, v)" and "good x w" and "settled tx (w_db w)"
  shows "goes x S w v \<and> settled tx (w_db v) \<and> ats \<noteq> [] \<and> has_attempt (tx_ID tx) (int (length ats)) (w_db v)"
proof -
  have g: "goes x S w v" using assms(1,2) by (rule reads_go)
  have st: "settled tx (w_db v)" using settled_goes [OF g assms(2,3)] .
  let ?rows = "attempts_of (tx_ID tx) (w_db v)"
  have ats: "ats = map scanAttempt ?rows" using attempts_read [OF assms(1)] by simp
  have "?rows \<noteq> []"
  proof -
    obtain a where "a \<in> set (d_attempts (w_db v))" "a_transaction_id a = tx_ID tx"
      using st by (auto simp: settled_def recorded_def)
    then have "a \<in> set ?rows" by simp
    then show ?thesis by fastforce
  qed
  moreover have "sys_ok (w_db v)" using goes_good [OF g] by (simp add: good_def)
  then have "map a_attempt_number ?rows = map int [1..<Suc (length ?rows)]"
    using numbers_of_ok by (simp add: numbers_of_def)
  then have "int (length ?rows) \<in> a_attempt_number ` set ?rows"
    using \<open>?rows \<noteq> []\<close> by (metis (no_types, lifting) atLeastLessThan_iff image_eqI length_greater_0_conv
        lessI less_Suc_eq_le list.set_map set_upt One_nat_def Suc_leI)
  then have "has_attempt (tx_ID tx) (int (length ?rows)) (w_db v)"
    by (auto simp: has_attempt_def)
  ultimately show ?thesis using g st by (simp add: ats)
qed

section \<open>One replacement\<close>

lemma bump_attempt_goes:
  assumes "CreateAttempt a w = (e, v)" and "good x w" and "settled tx (w_db w)"
    and "has_attempt (tx_ID tx) (at_AttemptNumber a - 1) (w_db w)" and "at_AttemptNumber a \<le> 6"
    and "at_TransactionID a = tx_ID tx" and "at_TxHash a = Hash_Hex L (Tx_Hash L s)"
    and "MarshalBinary L s = Inr (at_RawTx a)"
  shows "goes x S w v \<and> (e = None \<longrightarrow> stored L (tx_ID tx) s (w_db v))"
  using assms(2) one_stmt_calls(11) [OF assms(1)]
proof (rule stmt_step)
  let ?P = "\<lambda>d. settled tx d \<and> has_attempt (tx_ID tx) (at_AttemptNumber a - 1) d"
  show "stable_for x ?P" by (intro kept_stable kept_conj kept_settled kept_monotone)
  show "?P (w_db w)" using assms by simp
  assume now: "?P (db_now w)"
  have ok: "e = None \<Longrightarrow> insert_attempt a (db_now w) = Inr (w_db v)"
    using assms(1) by (auto simp: CreateAttempt_def dest: exec_ok)
  show "sys_step x (db_now w) (w_db v) \<and> (e = None \<longrightarrow> stored L (tx_ID tx) s (w_db v))"
  proof (cases "insert_attempt a (db_now w) = Inr (w_db v)")
    case True
    then show ?thesis
      using step_bump [OF _ True assms(6)] now assms(5) insert_attempt_stored [OF True assms(6-8)]
      by (simp add: settled_def)
  next
    case False
    then have "w_db v = db_now w" "e \<noteq> None" using CreateAttempt_effect [OF assms(1)] ok by auto
    then show ?thesis using step_idle by auto
  qed
qed

lemma replace_goes:
  assumes "MarkSubmitted (tx_ID tx) h w = (e, v)" and "good x w" and "settled tx (w_db w)"
    and "recorded (tx_ID tx) h (w_db w)"
  shows "goes x S w v"
proof -
  have "goes x S w v \<and> True"
    using assms(2) one_stmt_calls(5) [OF assms(1)]
  proof (rule stmt_step)
    let ?P = "\<lambda>d. settled tx d \<and> recorded (tx_ID tx) h d"
    show "stable_for x ?P" by (intro kept_stable kept_conj kept_settled kept_monotone)
    show "?P (w_db w)" using assms by simp
    assume "?P (db_now w)"
    then show "sys_step x (db_now w) (w_db v) \<and> True"
      using MarkSubmitted_effect [OF assms(1)] step_replace step_idle by (auto simp: settled_def)
  qed
  then show ?thesis by simp
qed

lemma fail_settled_goes:
  assumes "MarkFailed (tx_ID tx) code reason w = (e, v)" and "good x w" and "settled tx (w_db w)"
  shows "goes x S w v"
  using one_stmt_calls(10) [OF assms(1)] assms(2,3)
  by (rule settled_step)
    (use MarkFailed_effect [OF assms(1)] in \<open>auto simp: settled_def intro: step_fail_submitted\<close>)

lemma settled_describes:
  assumes "settled tx d" and "tx_Nonce tx = Some n" and "stored L (tx_ID tx) s d"
    and "st_inner s = build_tx c n gas (HexToAddress L (tx_ToAddress tx)) (tx_Value tx) (tx_Data tx)"
  shows "accounted L d s"
  using assms unfolding accounted_def settled_def mirrors_def
  by (intro exI [of _ "tx_ID tx"]) (auto simp: describes_def)

section \<open>The handlers\<close>

locale stuck_env = c: rpc_client "sd_client sd" + s: tx_signer "sd_signer sd" for sd :: stuck_detector
begin

lemma sign_bump_signs:
  "sign_bump L sd tx n gas = Inr (stx, raw) \<Longrightarrow> st_inner stx = build_tx (sd_chainID sd) n gas
      (HexToAddress L (tx_ToAddress tx)) (tx_Value tx) (tx_Data tx) \<and> MarshalBinary L stx = Inr raw"
  by (auto simp: sign_bump_def Let_def dest: s.sign_inner split: sum.splits)

lemma send_bump_goes:
  assumes "sign_bump L sd tx n gas = Inr (stx, raw)" and "tx_Nonce tx = Some n" and "good x w"
    and "settled tx (w_db w)" and "has_attempt (tx_ID tx) (int k) (w_db w)" and "k \<le> maxGasBumps"
  shows "goes x (accounted L) w (send_bump L sd tx k gas stx raw w)"
proof -
  note signed = sign_bump_signs [OF assms(1)]
  define h where "h = Hash_Hex L (Tx_Hash L stx)"
  define w1 where "w1 = snd (ulid_make w)"
  define a where "a = new_attempt (fst (ulid_make w)) (tx_ID tx) (int k + 1) h gas raw (time_now w1)"
  have w1: "goes x (accounted L) w w1" "w_db w1 = w_db w"
    using assms(3) by (auto simp: w1_def ulid_make_def intro!: still_step)
  obtain e w2 where c: "CreateAttempt a w1 = (e, w2)" by (cases "CreateAttempt a w1")
  have 2: "goes x (accounted L) w1 w2 \<and> (e = None \<longrightarrow> stored L (tx_ID tx) stx (w_db w2))"
    using c goes_good [OF w1(1)]
  proof (rule bump_attempt_goes)
    show "settled tx (w_db w1)" "has_attempt (tx_ID tx) (at_AttemptNumber a - 1) (w_db w1)"
      using assms(4,5) by (simp_all add: w1(2) a_def new_attempt_def)
  qed (use assms(6) signed in \<open>simp_all add: a_def new_attempt_def h_def maxGasBumps_def\<close>)
  have w2: "goes x (accounted L) w w2" using w1(1) 2 goes_trans by blast
  have eq: "send_bump L sd tx k gas stx raw w = (case e of Some _ \<Rightarrow> w2
      | None \<Rightarrow> (case ec_SendTransaction (sd_client sd) stx w2 of
          (Some e, w3) \<Rightarrow> w3
        | (None, w3) \<Rightarrow> logTransition (tx_ID tx) (status_text TxStatusSubmitted)
            (status_text TxStatusSubmitted) ''stuck-detector''
            (''gas bump #'' @ nat_dec k @ '', new hash '' @ h) (snd (MarkSubmitted (tx_ID tx) h w3))))"
    using c by (simp add: send_bump_def Let_def case_prod_beta a_def w1_def h_def split: option.split)
  show ?thesis
  proof (cases e)
    case (Some er)
    then show ?thesis using w2 by (simp add: eq)
  next
    case None
    have st: "stored L (tx_ID tx) stx (w_db w2)" using 2 None by simp
    have settled: "settled tx (w_db w2)" using settled_goes [OF w2 assms(3,4)] .
    obtain e3 w3 where s: "ec_SendTransaction (sd_client sd) stx w2 = (e3, w3)"
      by (cases "ec_SendTransaction (sd_client sd) stx w2")
    have 3: "goes x (accounted L) w2 w3"
      using c.sends_SendTransaction [OF s] goes_good [OF w2] signed
        settled_describes [OF settled assms(2) st] by (auto intro: send_step)
    have db3: "w_db w3 = w_db w2"
      using c.sends_SendTransaction [OF s] by (simp add: sends_only_def rpc_frame_def)
    have 4: "goes x (accounted L) w3 (snd (MarkSubmitted (tx_ID tx) h w3))"
      using goes_good [OF 3] settled stored_recorded [OF st]
      by (intro replace_goes [OF prod.collapse [symmetric]]) (simp_all add: db3 h_def)
    show ?thesis
    proof (cases e3)
      case (Some er)
      then show ?thesis using goes_trans [OF w2 3] None s by (simp add: eq)
    next
      case e3: None
      then show ?thesis
        using goes_trans [OF w2 goes_trans [OF 3 goes_trans [OF 4 note_goes [OF goes_good [OF 4]]]]]
          None s by (simp add: eq del: status_text.simps)
    qed
  qed
qed

lemma bumpGas_goes:
  assumes "good x w" and "settled tx (w_db w)" and "ats \<noteq> []"
    and "has_attempt (tx_ID tx) (int (length ats)) (w_db w)" and "length ats \<le> maxGasBumps"
  shows "\<exists>v. bumpGas L sd tx ats w = Ret v \<and> goes x (accounted L) w v"
proof (cases "tx_Nonce tx")
  case None
  then show ?thesis using assms(1) by (simp add: bumpGas_def)
next
  case (Some n)
  show ?thesis
  proof (cases "sign_bump L sd tx n (BumpGas (attempt_gas (last ats)) (int (length ats)))")
    case (Inl e)
    then show ?thesis using Some assms(1,3) by (simp add: bumpGas_def Let_def)
  next
    case (Inr sr)
    obtain stx raw where sr: "sr = (stx, raw)" by (cases sr)
    show ?thesis
      using send_bump_goes [OF Inr [unfolded sr] Some assms(1,2,4,5)] Some assms(1,3) Inr sr
      by (simp add: bumpGas_def Let_def)
  qed
qed

lemma check_tx_goes:
  assumes "good x w" and "settled tx (w_db w)"
  shows "\<exists>v. check_tx L sd tx w = Ret v \<and> goes x (accounted L) w v"
proof -
  obtain r u where g: "GetAttemptsByTransactionID (tx_ID tx) w = (r, u)"
    by (cases "GetAttemptsByTransactionID (tx_ID tx) w")
  show ?thesis
  proof (cases r)
    case (Inl e)
    then show ?thesis using reads_go [OF g assms(1)] by (simp add: check_tx_def g)
  next
    case (Inr ats)
    note u = attempts_goes [OF g [unfolded Inr] assms, of "accounted L"]
    then have good: "good x u" "settled tx (w_db u)" using goes_good by blast+
    show ?thesis
    proof (cases "length ats > maxGasBumps")
      case True
      define u' where "u' = snd (MarkFailed (tx_ID tx) ErrCodeMaxRetriesExceeded ''max gas bumps exceeded'' u)"
      have "goes x (accounted L) u u'"
        using fail_settled_goes [OF prod.collapse [symmetric] good] by (simp add: u'_def)
      then have "goes x (accounted L) w (logTransition (tx_ID tx) (status_text TxStatusSubmitted)
          (status_text TxStatusFailed) ''stuck-detector'' ''max gas bumps exceeded'' u')"
        using goes_trans [OF conjunct1 [OF u] goes_trans [OF _ note_goes [OF goes_good]]] by metis
      then show ?thesis
        using True by (simp add: check_tx_def g Inr Let_def u'_def del: status_text.simps)
    next
      case False
      then show ?thesis
        using bumpGas_goes [OF good, of ats L] u goes_trans by (auto simp: check_tx_def g Inr)
    qed
  qed
qed

lemma check_txs_goes:
  assumes "good x w" and "\<forall>tx \<in> set txs. settled tx (w_db w)"
  shows "\<exists>v. check_txs L sd txs w = Ret v \<and> goes x (accounted L) w v"
  using assms
proof (induction txs arbitrary: w)
  case (Cons tx txs)
  obtain u where u: "check_tx L sd tx w = Ret u" "goes x (accounted L) w u"
    using check_tx_goes [of x w tx L] Cons.prems by auto
  have "\<forall>tx \<in> set txs. settled tx (w_db u)" using settled_goes [OF u(2)] Cons.prems by simp
  then obtain v where "check_txs L sd txs u = Ret v" "goes x (accounted L) u v"
    using Cons.IH [OF goes_good [OF u(2)]] by blast
  then show ?case using u goes_trans by auto
qed simp

lemma check_goes:
  assumes "good x w"
  shows "\<exists>v. check L sd w = Ret v \<and> goes x (accounted L) w v"
proof -
  define cutoff where "cutoff = time_now w - sd_stuckThreshold sd"
  obtain r u where g: "GetStuckTransactions (sd_chainID sd) cutoff w = (r, u)"
    by (cases "GetStuckTransactions (sd_chainID sd) cutoff w")
  have "goes x (accounted L) w u \<and> (\<forall>txs. r = Inr txs \<longrightarrow> (\<forall>tx \<in> set txs. settled tx (w_db u)))"
  proof (rule read_goes [OF one_stmt_calls(17) [OF g] reads_only(9) [OF g] assms])
    assume ok: "sys_ok (db_now w)"
    show "\<forall>txs. r = Inr txs \<longrightarrow> (\<forall>tx \<in> set txs. settled tx (db_now w))"
    proof (intro allI impI ballI)
      fix txs tx
      assume "r = Inr txs" "tx \<in> set txs"
      then obtain q where "q \<in> set (d_transactions (db_now w))" "r_status q = TxStatusSubmitted"
        "tx = scanTransaction q"
        using g by (auto simp: GetStuckTransactions_def scanTransactionRows_def dest!: query_ok
            split: sum.splits)
      then show "settled tx (db_now w)" using row_settled [OF ok] by (simp add: submitted_statuses_def)
    qed
  qed
  then show ?thesis
    using check_txs_goes [of x u _ L] goes_good goes_trans g
    by (cases r) (auto simp: check_def Let_def cutoff_def [symmetric], blast)
qed

end

interpretation detector: stuck_env "NewStuckDetector chain (Client cid) (LocalSigner K keys) ival"
  by (simp add: stuck_env_def NewStuckDetector_def pool.rpc_client_axioms local.tx_signer_axioms)

section \<open>Properties\<close>

abbreviation detector_of :: "'key eth_lib \<Rightarrow> 'key key_map \<Rightarrow> chain_config \<Rightarrow> stuck_detector" where
  "detector_of L keys chain \<equiv>
     NewStuckDetector chain (Client (ch_ChainID chain)) (LocalSigner L keys) (ch_GasBumpInterval chain)"

text \<open>C11: A check of the stuck detector returns and refines the protocol: the last attempt it indexes
  always exists, and every statement it makes, whatever the others do in between, is a step the
  protocol allows.\<close>

theorem detector_refines_protocol:
  assumes "rely x w" and "sys_ok (w_db w)"
  shows "\<exists>v own. check L (detector_of L keys chain) w = Ret v \<and> sys_ok (w_db v)
    \<and> w_steps v = w_steps w @ own \<and> (\<forall>(d, d') \<in> set own. sys_step x d d')"
proof -
  obtain v where v: "check L (detector_of L keys chain) w = Ret v" "goes x (accounted L) w v"
    using detector.check_goes assms unfolding good_def by blast
  then have "\<exists>own. w_steps v = w_steps w @ own \<and> (\<forall>(d, d') \<in> set own. sys_step x d d')"
    using runs_steps [of "sys_step x" "accounted L" w v] by (simp add: goes_def)
  with v show ?thesis by (auto simp: goes_def good_def)
qed

theorem detector_refines_protocol_witness:
  "\<exists>v. check sample_lib (detector_of sample_lib [(7, 3)] sample_chain) (sample_world one_up submitted_db)
     = Ret v \<and> sys_ok (w_db v)"
proof -
  have "sys_ok (w_db (sample_world one_up submitted_db))"
    using reachable_sys_ok [OF reach_submitted] fresh_sys_ok fresh_start_db by simp
  from detector_refines_protocol [OF sample_rely [of "''detector''"] this] show ?thesis by blast
qed

text \<open>C12: A replacement replaces: everything the stuck detector sends has the nonce, recipient, value
  and data of its transaction, and is stored as a further attempt of it.\<close>

theorem replacements_keep_nonce:
  assumes "rely x w" and "sys_ok (w_db w)" and "check L (detector_of L keys chain) w = Ret v"
    and "(cid, url, s) \<in> set (drop (length (w_sent w)) (w_sent v))"
  shows "\<exists>r \<in> set (d_transactions (w_db v)). \<exists>a \<in> set (d_attempts (w_db v)).
      r_nonce r = Some (int (unat (eth_tx_nonce (st_inner s))))
    \<and> eth_tx_to (st_inner s) = HexToAddress L (r_to_address r)
    \<and> eth_tx_value (st_inner s) = Some (r_value r) \<and> eth_tx_data (st_inner s) = r_data r
    \<and> a_transaction_id a = r_id r \<and> a_tx_hash a = Hash_Hex L (Tx_Hash L s)
    \<and> MarshalBinary L s = Inr (a_raw_tx a)"
proof -
  have good: "good x w" using assms(1,2) by (simp add: good_def)
  then obtain u where "check L (detector_of L keys chain) w = Ret u" "goes x (accounted L) w u"
    using detector.check_goes by blast
  with assms(3) have "goes x (accounted L) w v" by simp
  then obtain new where "w_sent v = w_sent w @ new" "\<forall>(cid, url, s) \<in> set new. accounted L (w_db v) s"
    using goes_sent [of x "accounted L", OF _ good kept_accounted] by blast
  with assms(4) have "accounted L (w_db v) s" by auto
  then show ?thesis unfolding accounted_def describes_def stored_def by auto
qed

text \<open>After five bumps the detector gives up: a submitted transaction with more than five attempts
  is marked as failed with its own error code, and no further replacement is signed or sent.\<close>

lemma sixth_attempt_is_last:
  assumes "calm w" and "length (attempts_of (tx_ID tx) (w_db w)) > 5"
    and "r \<in> set (d_transactions (w_db w))" and "r_id r = tx_ID tx"
    and "check_tx L sd tx w = Ret v"
  shows "w_sent v = w_sent w \<and> d_attempts (w_db v) = d_attempts (w_db w)
    \<and> (\<exists>r' \<in> set (d_transactions (w_db v)). r_id r' = tx_ID tx \<and> r_status r' = TxStatusFailed
          \<and> r_error_code r' = Some ''MAX_RETRIES_EXCEEDED'')"
proof -
  have v: "w_sent v = w_sent w" "d_attempts (w_db v) = d_attempts (w_db w)"
    "d_transactions (w_db v) = upd_by r_id (tx_ID tx) (failed_row ErrCodeMaxRetriesExceeded
       ''max gas bumps exceeded'' (time_now (after_stmt (w_db w) w))) (d_transactions (w_db w))"
    using assms(1,2,5) by (auto simp: check_tx_def GetAttemptsByTransactionID_def calm_runs
        maxGasBumps_def MarkFailed_def log_calm Let_def)
  then show ?thesis
    using updated_row [OF assms(3,4) v(3)] assms(4) by (simp add: failed_row_def)
qed


definition six_attempts_db :: db where
  "six_attempts_db = submitted_db\<lparr>d_attempts := map sample_attempt_row [1, 2, 3, 4, 5, 6]\<rparr>"

lemma sixth_attempt_is_last_witness:
  "\<exists>v. check_tx sample_lib (detector_of sample_lib [(7, 3)] sample_chain) sample_final_tx
      (sample_world one_up six_attempts_db) = Ret v
    \<and> (\<exists>r' \<in> set (d_transactions (w_db v)). r_status r' = TxStatusFailed)"
proof -
  let ?w = "sample_world one_up six_attempts_db" and ?sd = "detector_of sample_lib [(7, 3)] sample_chain"
  have six: "length (attempts_of (tx_ID sample_final_tx) (w_db ?w)) > 5"
    by (simp add: attempts_of_def six_attempts_db_def sample_attempt_row_def)
  then obtain v where v: "check_tx sample_lib ?sd sample_final_tx ?w = Ret v"
    by (simp add: check_tx_def GetAttemptsByTransactionID_def calm_runs maxGasBumps_def)
  from sixth_attempt_is_last [OF calm_sample_world six _ _ v, of sample_final]
  have "\<exists>r' \<in> set (d_transactions (w_db v)). r_status r' = TxStatusFailed"
    by (auto simp: six_attempts_db_def sample_submitted)
  with v show ?thesis by blast
qed

definition late_world :: world where
  "late_world = (sample_world one_up submitted_db)\<lparr>w_clock := \<lambda>t. 1000000 + int t\<rparr>"

lemma late_world_fields [simp]:
  "calm late_world" "w_db late_world = submitted_db" "w_sent late_world = []"
  "w_rpc late_world = sample_nodes" "w_endpoints late_world cid = one_up"
  "w_clock late_world t = 1000000 + int t" "w_tick late_world = 0"
  by (simp_all add: late_world_def calm_def sample_world_def)

lemma sample_final_tx_payload [simp]:
  "tx_Nonce sample_final_tx = Some 5" "tx_ToAddress sample_final_tx = ''0x2''"
  "tx_Sender sample_final_tx = ''0x7''" "tx_Value sample_final_tx = Some 5" "tx_Data sample_final_tx = None"
  by (simp_all add: sample_final_tx_def scanTransaction_def Let_def sample_final_def submitted_row_def
      nonce_row_def claim_row_def sample_row_def)

lemma sample_sender [simp]: "HexToAddress sample_lib ''0x7'' = 7"
  by code_simp

lemma submitted_attempts:
  "d_attempts submitted_db = [sample_attempt_row 1]"
  "a_transaction_id (sample_attempt_row n) = ''t1''" "a_id (sample_attempt_row 1) = ''A''"
  "a_attempt_number (sample_attempt_row 1) = 1"
  by (simp_all add: submitted_db_def sample_attempt_row_def)

lemma late_check: "\<exists>v s. check sample_lib (detector_of sample_lib [(7, 3)] sample_chain) late_world = Ret v
   \<and> w_sent v = [(1, ''a'', s)]"
proof -
  let ?sd = "detector_of sample_lib [(7, 3)] sample_chain"
  let ?w1 = "after_stmt submitted_db late_world"
  let ?w2 = "after_stmt submitted_db ?w1"
  let ?ats = "[scanAttempt (sample_attempt_row 1)]"
  have sd: "sd_chainID ?sd = 1" "sd_client ?sd = Client 1" "sd_signer ?sd = LocalSigner sample_lib [(7, 3)]"
    "sd_stuckThreshold ?sd = 180" "ch_GasBumpInterval (sd_chain ?sd) = 30"
    by (simp_all add: NewStuckDetector_def sd_chainID_def sample_chain_def)
  have 1: "GetStuckTransactions 1 999820 late_world = (Inr [sample_final_tx], ?w1)"
    by (simp add: GetStuckTransactions_def calm_runs bigint_def sample_submitted
        scanTransactionRows_def sample_final_tx_def time_now_def)
      (simp add: sample_final_def submitted_row_def)
  have 2: "GetAttemptsByTransactionID ''t1'' ?w1 = (Inr ?ats, ?w2)"
    by (simp add: GetAttemptsByTransactionID_def calm_runs attempts_of_def submitted_attempts)
  define gas where "gas = BumpGas (attempt_gas (scanAttempt (sample_attempt_row 1))) 1"
  obtain stx where sign: "sign_bump sample_lib ?sd sample_final_tx 5 gas = Inr (stx, [5])"
    by (simp add: sign_bump_def sd Let_def) (simp add: sample_lib_def LocalSigner_def Sign_def)
  have at: "at_CreatedAt (scanAttempt (sample_attempt_row 1)) = 0"
    by (simp add: scanAttempt_def sample_attempt_row_def)
  have check: "check sample_lib ?sd late_world = Ret (send_bump sample_lib ?sd sample_final_tx 1 gas stx [5] ?w2)"
    by (simp add: check_def sd 1 check_tx_def 2 maxGasBumps_def bumpGas_def Let_def at time_now_def
        gas_def [symmetric] sign)
  define h where "h = Hash_Hex sample_lib (Tx_Hash sample_lib stx)"
  define a where "a = new_attempt (fst (ulid_make ?w2)) ''t1'' 2 h gas [5] (time_now (tick ?w2))"
  define w4 where "w4 = snd (CreateAttempt a (tick ?w2))"
  have "gas = \<lparr>gp_GasLimit = 21000, gp_MaxFeePerGas = None, gp_MaxPriorityFeePerGas = None,
      gp_GasPrice = Some 8, gp_TxType = 0\<rparr>"
    by (simp add: gas_def BumpGas_def attempt_gas_def scanAttempt_def sample_attempt_row_def bumpPct_def
        bumpBigInt_def)
  then have "\<exists>row. attempt_row_of a = Inr row \<and> a_transaction_id row = ''t1'' \<and> a_id row = at_ID a
      \<and> a_attempt_number row = 2"
    by (simp add: a_def new_attempt_def attempt_row_of_def bigint_def nullable_numeric78_def
        bigIntToString_def numeric78_def)
  moreover have "at_ID a \<noteq> ''A''"
    by (simp add: a_def new_attempt_def ulid_make_def late_world_def sample_world_def)
  ultimately have c: "CreateAttempt a (tick ?w2) = (None, w4)"
    by (auto simp: w4_def CreateAttempt_def calm_runs insert_attempt_def sample_submitted
        submitted_attempts)
  have w4: "calm w4" "w_rpc w4 = sample_nodes" "w_sent w4 = []" "w_endpoints w4 1 = one_up"
    by (auto simp: w4_def CreateAttempt_def calm_runs split: sum.split)
  have "w_sent (send_bump sample_lib ?sd sample_final_tx 1 gas stx [5] ?w2) = [(1, ''a'', stx)]"
    using c by (simp add: send_bump_def Let_def ulid_make_def a_def h_def sd send_one_up w4
        MarkSubmitted_def calm_runs log_calm)
  with check show ?thesis by blast
qed

theorem replacements_keep_nonce_witness:
  "\<exists>v s. check sample_lib (detector_of sample_lib [(7, 3)] sample_chain) late_world = Ret v
     \<and> w_sent v = [(1, ''a'', s)]
     \<and> (\<exists>r \<in> set (d_transactions (w_db v)). r_nonce r = Some (int (unat (eth_tx_nonce (st_inner s)))))"
proof -
  obtain v s where v: "check sample_lib (detector_of sample_lib [(7, 3)] sample_chain) late_world = Ret v"
    "w_sent v = [(1, ''a'', s)]" using late_check by blast
  have "rely ''detector'' late_world" by (simp add: rely_def late_world_def sample_world_def)
  moreover have "sys_ok (w_db late_world)"
    using reachable_sys_ok [OF reach_submitted] fresh_sys_ok fresh_start_db by simp
  ultimately have "\<exists>r \<in> set (d_transactions (w_db v)). r_nonce r = Some (int (unat (eth_tx_nonce (st_inner s))))"
    using replacements_keep_nonce [OF _ _ v(1), of "''detector''" 1 "''a''" s] v(2) by auto
  with v show ?thesis by blast
qed

end
