(* ===== verification/Duration.thy ===== *)
theory Duration
  imports Gas
begin

text \<open>
  \<open>time.ParseDuration\<close> and \<open>time.Duration.String\<close> of Go's standard library, in nanoseconds, as the
  configuration uses them: decimal numbers with a unit, added up, with the overflow checks.
\<close>

section \<open>Numbers\<close>

definition max63 :: nat where
  "max63 = 2 ^ 63"

text \<open>\<open>leadingInt\<close>: the leading digits as a number and the rest; None on an overflow.\<close>

fun leadingInt :: "nat \<Rightarrow> string \<Rightarrow> (nat \<times> string) option" where
  "leadingInt x [] = Some (x, [])"
| "leadingInt x (c # cs) =
    (if \<not> is_digit c then Some (x, c # cs)
     else if x > max63 div 10 then None
     else if 10 * x + digit_val c > max63 then None
     else leadingInt (10 * x + digit_val c) cs)"

text \<open>\<open>leadingFraction\<close>: digits that would overflow are skipped. The scale is a power of ten.\<close>

fun leadingFraction :: "nat \<Rightarrow> nat \<Rightarrow> bool \<Rightarrow> string \<Rightarrow> nat \<times> nat \<times> string" where
  "leadingFraction x scale overflow [] = (x, scale, [])"
| "leadingFraction x scale overflow (c # cs) =
    (if \<not> is_digit c then (x, scale, c # cs)
     else if overflow \<or> x > (max63 - 1) div 10 \<or> 10 * x + digit_val c > max63
     then leadingFraction x scale True cs
     else leadingFraction (10 * x + digit_val c) (10 * scale) False cs)"

text \<open>The units; the micro sign has two code points.\<close>

definition unit_ns :: "string \<Rightarrow> nat option" where
  "unit_ns u =
    (if u = ''ns'' then Some 1
     else if u \<in> {''us'', [char_of (194 :: nat), char_of (181 :: nat), CHR ''s''],
        [char_of (206 :: nat), char_of (188 :: nat), CHR ''s'']} then Some 1000
     else if u = ''ms'' then Some 1000000
     else if u = ''s'' then Some 1000000000
     else if u = ''m'' then Some 60000000000
     else if u = ''h'' then Some 3600000000000
     else None)"

definition in_unit :: "char \<Rightarrow> bool" where
  "in_unit c \<longleftrightarrow> c \<noteq> CHR ''.'' \<and> \<not> is_digit c"

section \<open>One number with its unit\<close>

text \<open>The integer part, the fraction with its scale, whether there was a digit at all, the rest.\<close>

definition read_number :: "string \<Rightarrow> (nat \<times> nat \<times> nat \<times> bool \<times> string) option" where
  "read_number s =
    (case leadingInt 0 s of
       None \<Rightarrow> None
     | Some (v, s1) \<Rightarrow>
         (let pre = (length s1 \<noteq> length s) in
          if s1 \<noteq> [] \<and> hd s1 = CHR ''.'' then
            (let (f, scale, s2) = leadingFraction 0 1 False (tl s1)
             in Some (v, f, scale, pre \<or> length s2 \<noteq> length (tl s1), s2))
          else Some (v, 0, 1, pre, s1)))"

text \<open>The value in nanoseconds: the fraction is computed in double arithmetic.\<close>

definition scaled :: "nat \<Rightarrow> nat \<Rightarrow> nat \<Rightarrow> nat \<Rightarrow> nat option" where
  "scaled v f scale ns =
    (if v > max63 div ns then None
     else
       let v1 = v * ns;
           v2 = (if f > 0 then v1 + nat \<lfloor>f64_round (f64_round (of_nat f)
                   * f64_round (of_nat ns / f64_round (of_nat scale)))\<rfloor> else v1)
       in if v2 > max63 then None else Some v2)"

definition read_part :: "string \<Rightarrow> (nat \<times> string) option" where
  "read_part s =
    (if s = [] \<or> \<not> (hd s = CHR ''.'' \<or> is_digit (hd s)) then None
     else
       (case read_number s of
          None \<Rightarrow> None
        | Some (v, f, scale, digits, s1) \<Rightarrow>
            if \<not> digits then None
            else
              (let u = takeWhile in_unit s1; s2 = dropWhile in_unit s1 in
               if u = [] then None
               else
                 (case unit_ns u of
                    None \<Rightarrow> None
                  | Some ns \<Rightarrow>
                      (case scaled v f scale ns of None \<Rightarrow> None | Some d \<Rightarrow> Some (d, s2))))))"

lemma leadingInt_shorter: "leadingInt x s = Some (v, t) \<Longrightarrow> length t \<le> length s"
  by (induction x s rule: leadingInt.induct) (auto split: if_splits)

lemma leadingFraction_shorter: "leadingFraction x k b s = (f, sc, t) \<Longrightarrow> length t \<le> length s"
  by (induction x k b s rule: leadingFraction.induct) (auto split: if_splits)

lemma read_number_shorter:
  assumes "read_number s = Some (v, f, k, b, t)"
  shows "length t \<le> length s"
proof -
  obtain s1 where s1: "leadingInt 0 s = Some (v, s1)"
    using assms by (auto simp: read_number_def Let_def split: option.splits if_splits prod.splits)
  with leadingInt_shorter have le: "length s1 \<le> length s" by blast
  show ?thesis
  proof (cases "s1 \<noteq> [] \<and> hd s1 = CHR ''.''")
    case True
    obtain f' k' t' where f: "leadingFraction 0 1 False (tl s1) = (f', k', t')"
      by (cases "leadingFraction 0 1 False (tl s1)")
    then have "t = t'" using assms s1 True by (auto simp: read_number_def Let_def)
    with leadingFraction_shorter [OF f] le show ?thesis by simp
  qed (use assms s1 le in \<open>auto simp: read_number_def Let_def\<close>)
qed

lemma read_part_shorter:
  assumes "read_part s = Some (d, t)"
  shows "length t < length s"
proof -
  obtain v f k b s1 where s1: "read_number s = Some (v, f, k, b, s1)" and u: "takeWhile in_unit s1 \<noteq> []"
    and t: "t = dropWhile in_unit s1"
    using assms by (auto simp: read_part_def Let_def split: option.splits if_splits)
  have "length (takeWhile in_unit s1) + length t = length s1"
    unfolding t by (metis length_append takeWhile_dropWhile_id)
  moreover have "0 < length (takeWhile in_unit s1)" using u by simp
  ultimately show ?thesis using read_number_shorter [OF s1] by linarith
qed

section \<open>ParseDuration\<close>

function parse_parts :: "nat \<Rightarrow> string \<Rightarrow> nat option" where
  "parse_parts d s =
    (if s = [] then Some d
     else
       (case read_part s of
          None \<Rightarrow> None
        | Some (v, t) \<Rightarrow> if d + v > max63 then None else parse_parts (d + v) t))"
  by pat_completeness auto
termination
  by (relation "measure (\<lambda>(d, s). length s)") (auto dest: read_part_shorter)

declare parse_parts.simps [simp del]

definition ParseDuration :: "string \<Rightarrow> int option" where
  "ParseDuration orig =
    (let neg = (orig \<noteq> [] \<and> hd orig = CHR ''-'');
         s = (if orig \<noteq> [] \<and> (hd orig = CHR ''-'' \<or> hd orig = CHR ''+'') then tl orig else orig)
     in if s = ''0'' then Some 0
        else if s = [] then None
        else
          (case parse_parts 0 s of
             None \<Rightarrow> None
           | Some d \<Rightarrow> if neg then Some (- int d)
               else if d > max63 - 1 then None else Some (int d)))"

text \<open>\<open>String\<close> of a duration of whole seconds, at least one.\<close>

definition Duration_String :: "nat \<Rightarrow> string" where
  "Duration_String secs =
    (let h = secs div 3600; m = secs div 60 mod 60; s = secs mod 60 in
     (if h > 0 then nat_dec h @ ''h'' else []) @ (if secs \<ge> 60 then nat_dec m @ ''m'' else [])
     @ nat_dec s @ ''s'')"

text \<open>Durations of the model are microseconds; a part of one counts as a whole, so that a duration is
  positive in the model exactly when it is in the code.\<close>

definition us_of_ns :: "int \<Rightarrow> duration" where
  "us_of_ns ns = - (- ns div 1000)"

lemma us_of_ns_pos [simp]: "us_of_ns ns \<le> 0 \<longleftrightarrow> ns \<le> 0"
  by (simp add: us_of_ns_def pos_imp_zdiv_nonneg_iff)

section \<open>Round trip\<close>

lemma digit_not_in_unit: "is_digit c \<Longrightarrow> \<not> in_unit c"
  by (simp add: in_unit_def)

lemma leadingInt_digits:
  assumes "list_all is_digit s" and "t \<noteq> [] \<Longrightarrow> \<not> is_digit (hd t)"
    and "x * 10 ^ length s + dec_value s < max63 div 10"
  shows "leadingInt x (s @ t) = Some (x * 10 ^ length s + dec_value s, t)"
  using assms
proof (induction s arbitrary: x)
  case Nil
  then show ?case by (cases t) auto
next
  case (Cons c s)
  have eq: "(10 * x + digit_val c) * 10 ^ length s + dec_value s
      = x * 10 ^ length (c # s) + dec_value (c # s)"
    by (simp add: dec_value_Cons algebra_simps)
  have "10 * x + digit_val c \<le> (10 * x + digit_val c) * 10 ^ length s" by simp
  with Cons.prems(3) eq have small: "10 * x + digit_val c < max63 div 10" by linarith
  then have "\<not> x > max63 div 10" "\<not> 10 * x + digit_val c > max63" by linarith+
  then show ?case using Cons.IH [of "10 * x + digit_val c"] Cons.prems eq by simp
qed

text \<open>A number followed by a letter unit.\<close>

lemma read_part_whole:
  assumes "n < 1000000000" and "u \<noteq> []" and "list_all in_unit u" and "unit_ns u = Some ns"
    and "ns \<le> 3600000000000" and "0 < ns" and "n * ns \<le> max63" and "t \<noteq> [] \<Longrightarrow> is_digit (hd t)"
  shows "read_part (nat_dec n @ u @ t) = Some (n * ns, t)"
proof -
  obtain c cs where c: "nat_dec n = c # cs" "is_digit c"
    using nat_dec_nonempty [of n] nat_dec_digits [of n] by (cases "nat_dec n") auto
  have hd: "hd u \<noteq> CHR ''.''" "\<not> is_digit (hd u)" using assms(2,3) by (cases u; simp add: in_unit_def)+
  have "leadingInt 0 (nat_dec n @ u @ t) = Some (n, u @ t)"
    using leadingInt_digits [of "nat_dec n" "u @ t" 0] nat_dec_digits [of n] hd assms(1,2)
    by (simp add: nat_dec_value max63_def)
  then have num: "read_number (nat_dec n @ u @ t) = Some (n, 0, 1, True, u @ t)"
    using hd assms(2) c by (simp add: read_number_def Let_def)
  have "takeWhile in_unit (u @ t) = u \<and> dropWhile in_unit (u @ t) = t"
  proof -
    have "takeWhile in_unit t = [] \<and> dropWhile in_unit t = t"
      using assms(8) digit_not_in_unit by (cases t) auto
    then show ?thesis using assms(3) by (simp add: list_all_iff takeWhile_append dropWhile_append)
  qed
  moreover have "scaled n 0 1 ns = Some (n * ns)"
    using assms(6,7) by (simp add: scaled_def Let_def not_less div_le_mono less_eq_div_iff_mult_less_eq)
  ultimately show ?thesis using num c assms(2,4) by (simp add: read_part_def Let_def)
qed

lemma units: "unit_ns ''s'' = Some 1000000000" "unit_ns ''m'' = Some 60000000000"
  "unit_ns ''h'' = Some 3600000000000" "list_all in_unit ''s''" "list_all in_unit ''m''" "list_all in_unit ''h''"
  by (simp_all add: unit_ns_def in_unit_def is_digit_def)

lemma nat_dec_head: "is_digit (hd (nat_dec n @ t))" "nat_dec n @ t \<noteq> []"
  using nat_dec_nonempty [of n] nat_dec_digits [of n] by (cases "nat_dec n"; simp)+

lemma parse_part:
  assumes "n < 1000000000" and "(u, ns) \<in> {(''s'', 1000000000), (''m'', 60000000000), (''h'', 3600000000000)}"
    and "d + n * ns \<le> max63" and "t \<noteq> [] \<Longrightarrow> is_digit (hd t)"
  shows "parse_parts d (nat_dec n @ u @ t) = parse_parts (d + n * ns) t"
proof -
  have "read_part (nat_dec n @ u @ t) = Some (n * ns, t)"
    using assms units by (intro read_part_whole) auto
  then show ?thesis using assms(3) nat_dec_nonempty [of n] by (simp add: parse_parts.simps [of d "nat_dec n @ u @ t"])
qed

lemma parse_Duration_String:
  assumes "secs < 1000000000"
  shows "ParseDuration (Duration_String secs) = Some (int secs * 1000000000)"
proof -
  let ?h = "secs div 3600" and ?m = "secs div 60 mod 60" and ?s = "secs mod 60"
  have "?h = secs div 60 div 60" by (simp add: div_mult2_eq [symmetric])
  then have "?h * 60 + ?m = secs div 60" by (simp only: div_mult_mod_eq)
  then have sum: "?h * 3600 + ?m * 60 + ?s = secs" using div_mult_mod_eq [of secs 60] by linarith
  have b: "?h < 1000000000" "?m < 60" "?s < 60" using assms by simp_all
  have tail: "parse_parts d (nat_dec ?s @ ''s'') = Some (d + ?s * 1000000000)" if "d + ?s * 1000000000 \<le> max63" for d
    using parse_part [of ?s "''s''" 1000000000 d "[]"] that b by (simp add: parse_parts.simps)
  have mid: "parse_parts d (nat_dec ?m @ ''m'' @ nat_dec ?s @ ''s'')
      = Some (d + ?m * 60000000000 + ?s * 1000000000)"
    if "d + ?m * 60000000000 + ?s * 1000000000 \<le> max63" for d
    using parse_part [of ?m "''m''" 60000000000 d "nat_dec ?s @ ''s''"] that b nat_dec_head tail
    by (simp add: add_leD1)
  have top: "parse_parts 0 (nat_dec ?h @ ''h'' @ nat_dec ?m @ ''m'' @ nat_dec ?s @ ''s'')
      = Some (?h * 3600000000000 + ?m * 60000000000 + ?s * 1000000000)"
    if "?h * 3600000000000 + ?m * 60000000000 + ?s * 1000000000 \<le> max63"
    using parse_part [of ?h "''h''" 3600000000000 0 "nat_dec ?m @ ''m'' @ nat_dec ?s @ ''s''"] that b
      nat_dec_head mid by (simp add: add_leD1)
  have total: "?h * 3600000000000 + ?m * 60000000000 + ?s * 1000000000 = secs * 1000000000"
    using sum by linarith
  have small: "secs * 1000000000 \<le> max63 - 1" using assms by (simp add: max63_def)
  have "parse_parts 0 (Duration_String secs) = Some (secs * 1000000000)"
  proof (cases "?h > 0")
    case True
    then have "secs \<ge> 60" by simp
    with True show ?thesis using top small total by (simp add: Duration_String_def Let_def)
  next
    case False
    then show ?thesis
      using mid [of 0] tail [of 0] small total by (auto simp: Duration_String_def Let_def)
  qed
  moreover have "\<exists>n t. Duration_String secs = nat_dec n @ t \<and> t \<noteq> []"
    by (simp add: Duration_String_def Let_def) blast
  then obtain n t where "Duration_String secs = nat_dec n @ t" "t \<noteq> []" by blast
  moreover obtain c cs where "nat_dec n = c # cs" "is_digit c"
    using nat_dec_nonempty [of n] nat_dec_digits [of n] by (cases "nat_dec n") auto
  ultimately show ?thesis
    using small is_digit_not_sign [of c] by (simp add: ParseDuration_def Let_def)
qed

end
