(* ===== verification/Config.thy ===== *)
theory Config
  imports Duration Signer "HOL-Library.State_Monad" "HOL-Library.AList"
begin

text \<open>
  internal/config/config.go: the configuration is read through package viper, which keeps a global
  store of defaults, file values and environment values; the store is a state that the code threads
  through its calls, and the functions of viper that the code calls are a parameter. The keys of the
  signers come from the process environment.
\<close>

section \<open>The configuration\<close>

record server_config =
  sc_Host :: string
  sc_Port :: int
  sc_ReadTimeout :: duration
  sc_WriteTimeout :: duration
  sc_ShutdownTimeout :: duration

record database_config =
  dc_URL :: string
  dc_MaxConns :: "32 word"
  dc_MinConns :: "32 word"
  dc_MaxConnLifetime :: duration

record 'key config =
  cf_Server :: server_config
  cf_Database :: database_config
  cf_Chains :: "(u64 \<times> chain_config) list"
  cf_Keys :: "'key key_map"

section \<open>Viper\<close>

datatype viper_value = VString string | VInt int | VFloat rat | VBool bool

text \<open>
  \<open>vp_GetStringMap\<close> gives the keys of the map in the order in which \<open>range\<close> visits them. The file
  system is part of the parameter: whether a path exists and what reading it does to the store.
\<close>

record 'v viper_lib =
  vp_SetDefault :: "string \<Rightarrow> viper_value \<Rightarrow> 'v \<Rightarrow> 'v"
  vp_GetString :: "string \<Rightarrow> 'v \<Rightarrow> string"
  vp_GetInt :: "string \<Rightarrow> 'v \<Rightarrow> int"
  vp_GetFloat64 :: "string \<Rightarrow> 'v \<Rightarrow> rat"
  vp_GetBool :: "string \<Rightarrow> 'v \<Rightarrow> bool"
  vp_GetStringSlice :: "string \<Rightarrow> 'v \<Rightarrow> string list"
  vp_GetStringMap :: "string \<Rightarrow> 'v \<Rightarrow> string list"
  vp_AutomaticEnv :: "'v \<Rightarrow> 'v"
  vp_ReadInConfig :: "string \<Rightarrow> string option \<Rightarrow> 'v \<Rightarrow> go_error option \<times> 'v"
  vp_Stat :: "string \<Rightarrow> bool"

type_synonym ('v, 'a) loader = "('v, 'a) state"

definition set_default :: "'v viper_lib \<Rightarrow> string \<Rightarrow> viper_value \<Rightarrow> ('v, unit) loader" where
  "set_default V key d = State (\<lambda>v. ((), vp_SetDefault V key d v))"

definition reading :: "('v \<Rightarrow> 'a) \<Rightarrow> ('v, 'a) loader" where
  "reading f = State (\<lambda>v. (f v, v))"

definition viperGetOrDefault :: "'v viper_lib \<Rightarrow> string \<Rightarrow> string \<Rightarrow> ('v, string) loader" where
  "viperGetOrDefault V key d = do { set_default V key (VString d); reading (vp_GetString V key) }"

definition viperGetOrDefaultInt :: "'v viper_lib \<Rightarrow> string \<Rightarrow> int \<Rightarrow> ('v, int) loader" where
  "viperGetOrDefaultInt V key d = do { set_default V key (VInt d); reading (vp_GetInt V key) }"

definition viperGetOrDefaultFloat :: "'v viper_lib \<Rightarrow> string \<Rightarrow> rat \<Rightarrow> ('v, rat) loader" where
  "viperGetOrDefaultFloat V key d = do { set_default V key (VFloat d); reading (vp_GetFloat64 V key) }"

definition viperGetOrDefaultBool :: "'v viper_lib \<Rightarrow> string \<Rightarrow> bool \<Rightarrow> ('v, bool) loader" where
  "viperGetOrDefaultBool V key d = do { set_default V key (VBool d); reading (vp_GetBool V key) }"

text \<open>The default is a number of seconds; a text that is no duration counts as not set.\<close>

definition viperGetOrDefaultDuration :: "'v viper_lib \<Rightarrow> string \<Rightarrow> nat \<Rightarrow> ('v, duration) loader" where
  "viperGetOrDefaultDuration V key secs = do {
     set_default V key (VString (Duration_String secs));
     s \<leftarrow> reading (vp_GetString V key);
     State_Monad.return (us_of_ns (case ParseDuration s of
       None \<Rightarrow> int secs * 1000000000 | Some d \<Rightarrow> d)) }"

definition bigIntFromViper :: "'v viper_lib \<Rightarrow> string \<Rightarrow> ('v, int option) loader" where
  "bigIntFromViper V key = do {
     s \<leftarrow> reading (vp_GetString V key);
     State_Monad.return (if s = [] then None else SetString10 s) }"

section \<open>Server and database\<close>

definition parse_server :: "'v viper_lib \<Rightarrow> ('v, server_config) loader" where
  "parse_server V = do {
     host \<leftarrow> viperGetOrDefault V ''server.host'' ''0.0.0.0'';
     port \<leftarrow> viperGetOrDefaultInt V ''server.port'' 8080;
     readTimeout \<leftarrow> viperGetOrDefaultDuration V ''server.read-timeout'' 10;
     writeTimeout \<leftarrow> viperGetOrDefaultDuration V ''server.write-timeout'' 30;
     shutdownTimeout \<leftarrow> viperGetOrDefaultDuration V ''server.shutdown-timeout'' 60;
     State_Monad.return \<lparr>sc_Host = host, sc_Port = port, sc_ReadTimeout = readTimeout,
       sc_WriteTimeout = writeTimeout, sc_ShutdownTimeout = shutdownTimeout\<rparr> }"

definition parse_database :: "'v viper_lib \<Rightarrow> ('v, database_config) loader" where
  "parse_database V = do {
     url \<leftarrow> viperGetOrDefault V ''database.url'' [];
     maxConns \<leftarrow> viperGetOrDefaultInt V ''database.max-conns'' 25;
     minConns \<leftarrow> viperGetOrDefaultInt V ''database.min-conns'' 5;
     lifetime \<leftarrow> viperGetOrDefaultDuration V ''database.max-conn-lifetime'' 3600;
     State_Monad.return \<lparr>dc_URL = url, dc_MaxConns = word_of_int maxConns,
       dc_MinConns = word_of_int minConns, dc_MaxConnLifetime = lifetime\<rparr> }"

section \<open>Tokens\<close>

text \<open>One token of the range loop, and the loop. The symbol of the map is capitalised first.\<close>

definition parse_token ::
    "'key eth_lib \<Rightarrow> 'v viper_lib \<Rightarrow> chain_config \<Rightarrow> string \<Rightarrow> string
      \<Rightarrow> ('v, go_error + token_config) loader" where
  "parse_token L V chain prefx symbol0 =
    (let symbol = ToUpper symbol0; tp = prefx @ ''.'' @ ToLower symbol in
     if symbol = ToUpper (ch_NativeTokenSymbol chain) then
       State_Monad.return (Inl (Err (''token '' @ symbol @ '': symbol conflicts with native token'')))
     else do {
       addrStr \<leftarrow> reading (vp_GetString V (tp @ ''.address''));
       if addrStr = [] \<or> \<not> IsHexAddress L addrStr then
         State_Monad.return (Inl (Err (''token '' @ symbol @ '': invalid address '' @ quoted addrStr)))
       else do {
         decimals \<leftarrow> viperGetOrDefaultInt V (tp @ ''.decimals'') 18;
         enabled \<leftarrow> viperGetOrDefaultBool V (tp @ ''.enabled'') True;
         maxTransfer \<leftarrow> bigIntFromViper V (tp @ ''.max-transfer'');
         State_Monad.return (Inr \<lparr>tk_Symbol = symbol, tk_ContractAddress = HexToAddress L addrStr,
           tk_Decimals = word_of_int decimals, tk_MaxTransfer = maxTransfer, tk_Enabled = enabled\<rparr>) } })"

fun parse_token_list ::
    "'key eth_lib \<Rightarrow> 'v viper_lib \<Rightarrow> string \<Rightarrow> string list \<Rightarrow> chain_config
      \<Rightarrow> ('v, go_error + chain_config) loader" where
  "parse_token_list L V prefx [] chain = State_Monad.return (Inr chain)"
| "parse_token_list L V prefx (symbol # rest) chain = do {
     token \<leftarrow> parse_token L V chain prefx symbol;
     case token of
       Inl e \<Rightarrow> State_Monad.return (Inl e)
     | Inr tc \<Rightarrow> parse_token_list L V prefx rest
         (chain\<lparr>ch_TokenWhitelist := (ch_TokenWhitelist chain)(tk_Symbol tc \<mapsto> tc)\<rparr>) }"

definition parseTokens ::
    "'key eth_lib \<Rightarrow> 'v viper_lib \<Rightarrow> chain_config \<Rightarrow> string \<Rightarrow> ('v, go_error + chain_config) loader" where
  "parseTokens L V chain prefx = do {
     symbols \<leftarrow> reading (vp_GetStringMap V prefx);
     parse_token_list L V prefx symbols chain }"

section \<open>Chains\<close>

text \<open>The fields of the composite literal, in the order in which Go evaluates them.\<close>

definition chain_fields :: "'v viper_lib \<Rightarrow> u64 \<Rightarrow> string \<Rightarrow> ('v, chain_config) loader" where
  "chain_fields V chainID p = do {
     name \<leftarrow> viperGetOrDefault V (p @ ''.name'') (''chain-'' @ u64_dec chainID);
     blockTime \<leftarrow> viperGetOrDefaultDuration V (p @ ''.block-time'') 12;
     confirmations \<leftarrow> viperGetOrDefaultInt V (p @ ''.confirmation-blocks'') 12;
     multiplier \<leftarrow> viperGetOrDefaultFloat V (p @ ''.gas-limit-multiplier'') (f64_round (6 / 5));
     chunk \<leftarrow> viperGetOrDefaultInt V (p @ ''.receipt-chunk-size'') 50;
     stuck \<leftarrow> viperGetOrDefaultDuration V (p @ ''.stuck-threshold'') 180;
     bump \<leftarrow> viperGetOrDefaultDuration V (p @ ''.gas-bump-interval'') 30;
     symbol \<leftarrow> viperGetOrDefault V (p @ ''.native-symbol'') ''ETH'';
     decimals \<leftarrow> viperGetOrDefaultInt V (p @ ''.native-decimals'') 18;
     State_Monad.return \<lparr>ch_ChainID = chainID, ch_Name = name, ch_RPCEndpoints = [],
       ch_BlockTime = blockTime, ch_ConfirmationBlocks = confirmations, ch_SupportsEIP1559 = True,
       ch_GasLimitMultiplier = multiplier, ch_MinMaxFee = None, ch_MaxMaxFee = None,
       ch_MinPriorityFee = None, ch_MaxPriorityFee = None, ch_ReceiptChunkSize = chunk,
       ch_StuckThreshold = stuck, ch_GasBumpInterval = bump, ch_NativeTokenSymbol = symbol,
       ch_NativeTokenDecimals = word_of_int decimals, ch_NativeMaxTransfer = None,
       ch_TokenWhitelist = Map.empty\<rparr> }"

definition chain_limits :: "'v viper_lib \<Rightarrow> string \<Rightarrow> chain_config \<Rightarrow> ('v, chain_config) loader" where
  "chain_limits V p chain = do {
     minMaxFee \<leftarrow> bigIntFromViper V (p @ ''.min-max-fee'');
     maxMaxFee \<leftarrow> bigIntFromViper V (p @ ''.max-max-fee'');
     minPriorityFee \<leftarrow> bigIntFromViper V (p @ ''.min-priority-fee'');
     maxPriorityFee \<leftarrow> bigIntFromViper V (p @ ''.max-priority-fee'');
     nativeMax \<leftarrow> bigIntFromViper V (p @ ''.native-max-transfer'');
     State_Monad.return (chain\<lparr>ch_MinMaxFee := minMaxFee, ch_MaxMaxFee := maxMaxFee,
       ch_MinPriorityFee := minPriorityFee, ch_MaxPriorityFee := maxPriorityFee,
       ch_NativeMaxTransfer := nativeMax\<rparr>) }"

definition parseChain ::
    "'key eth_lib \<Rightarrow> 'v viper_lib \<Rightarrow> u64 \<Rightarrow> ('v, go_error + chain_config) loader" where
  "parseChain L V chainID =
    (let p = ''chains.'' @ u64_dec chainID in do {
     chain \<leftarrow> chain_fields V chainID p;
     rpcURLs \<leftarrow> reading (vp_GetStringSlice V (p @ ''.rpc-urls''));
     if rpcURLs = [] then State_Monad.return (Inl (Err ''rpc-urls required''))
     else do {
       chain1 \<leftarrow> chain_limits V p (chain\<lparr>ch_RPCEndpoints := rpcURLs\<rparr>);
       parseTokens L V chain1 (p @ ''.tokens'') } })"

text \<open>The loop over the keys of the map \<open>chains\<close>.\<close>

fun load_chain_list ::
    "'key eth_lib \<Rightarrow> 'v viper_lib \<Rightarrow> string list \<Rightarrow> (u64 \<times> chain_config) list
      \<Rightarrow> ('v, go_error + (u64 \<times> chain_config) list) loader" where
  "load_chain_list L V [] acc = State_Monad.return (Inr acc)"
| "load_chain_list L V (idStr # rest) acc =
    (case ParseUint idStr of
       None \<Rightarrow> State_Monad.return (Inl (Err (''invalid chain ID '' @ quoted idStr @ '' in config: ''
         @ ParseUint_error idStr)))
     | Some chainID \<Rightarrow> do {
         parsed \<leftarrow> parseChain L V chainID;
         case parsed of
           Inl e \<Rightarrow> State_Monad.return (Inl (Err (''chain '' @ u64_dec chainID @ '': '' @ err_text e)))
         | Inr chain \<Rightarrow> load_chain_list L V rest (AList.update chainID chain acc) })"

definition loadChains ::
    "'key eth_lib \<Rightarrow> 'v viper_lib \<Rightarrow> ('v, go_error + (u64 \<times> chain_config) list) loader" where
  "loadChains L V = do {
     ids \<leftarrow> reading (vp_GetStringMap V ''chains'');
     load_chain_list L V ids [] }"

section \<open>Keys\<close>

text \<open>What the code uses of package crypto.\<close>

record 'key crypto_lib =
  HexToECDSA :: "string \<Rightarrow> go_error + 'key"
  PubkeyToAddress :: "'key \<Rightarrow> address"

definition TrimPrefix :: "string \<Rightarrow> string \<Rightarrow> string" where
  "TrimPrefix s p = (if prefix p s then drop (length p) s else s)"

text \<open>The process environment is a list of entries; \<open>Unsetenv\<close> removes those of a name.\<close>

definition env_name :: "string \<Rightarrow> string" where
  "env_name entry = SplitN2 entry (CHR ''='') ! 0"

definition Unsetenv :: "string \<Rightarrow> string list \<Rightarrow> string list" where
  "Unsetenv name env = filter (\<lambda>entry. env_name entry \<noteq> name) env"

text \<open>One entry: None when it is no key; an entry without a value would be an index out of range.\<close>

definition key_of_entry ::
    "'key eth_lib \<Rightarrow> 'key crypto_lib \<Rightarrow> string \<Rightarrow> (go_error + address \<times> 'key) option outcome" where
  "key_of_entry L C entry =
    (let parts = SplitN2 entry (CHR ''=''); key = parts ! 0 in
     if \<not> HasPrefix key ''TX_SENDER_KEYS_'' then Ret None
     else
       (let addrStr = TrimPrefix key ''TX_SENDER_KEYS_'' in
        if \<not> IsHexAddress L addrStr then
          Ret (Some (Inl (Err (''invalid address in key env var: '' @ addrStr))))
        else if length parts < 2 then Panic
        else
          (case HexToECDSA C (TrimPrefix (parts ! 1) ''0x'') of
             Inl e \<Rightarrow> Ret (Some (Inl (Err (''invalid private key for '' @ addrStr @ '': '' @ err_text e))))
           | Inr privateKey \<Rightarrow>
               (let derived = PubkeyToAddress C privateKey; expected = HexToAddress L addrStr in
                if derived \<noteq> expected then
                  Ret (Some (Inl (Err (''key address mismatch: env says '' @ Address_Hex L expected
                    @ '', derived '' @ Address_Hex L derived))))
                else Ret (Some (Inr (derived, privateKey)))))))"

fun load_key_list ::
    "'key eth_lib \<Rightarrow> 'key crypto_lib \<Rightarrow> string list \<Rightarrow> 'key key_map \<Rightarrow> string list
      \<Rightarrow> ((go_error + 'key key_map) \<times> string list) outcome" where
  "load_key_list L C [] keys env = Ret (Inr keys, env)"
| "load_key_list L C (entry # rest) keys env =
    and_then (key_of_entry L C entry) (\<lambda>found.
      (case found of
         None \<Rightarrow> load_key_list L C rest keys env
       | Some (Inl e) \<Rightarrow> Ret (Inl e, env)
       | Some (Inr (derived, privateKey)) \<Rightarrow>
           load_key_list L C rest (AList.update derived privateKey keys) (Unsetenv (env_name entry) env)))"

definition loadKeys ::
    "'key eth_lib \<Rightarrow> 'key crypto_lib \<Rightarrow> string list
      \<Rightarrow> ((go_error + 'key key_map) \<times> string list) outcome" where
  "loadKeys L C env = load_key_list L C env [] env"

section \<open>Load\<close>

text \<open>\<open>filepath.Ext\<close>\<close>

definition Ext :: "string \<Rightarrow> string" where
  "Ext path =
    (let r = rev path; k = takeWhile (\<lambda>c. c \<noteq> CHR ''/'' \<and> c \<noteq> CHR ''.'') r; rest = drop (length k) r
     in if rest \<noteq> [] \<and> hd rest = CHR ''.'' then CHR ''.'' # rev k else [])"

text \<open>The optional configuration file; the type is given when the path has an extension.\<close>

definition read_config_file :: "'v viper_lib \<Rightarrow> ('v, go_error option) loader" where
  "read_config_file V = do {
     configPath \<leftarrow> viperGetOrDefault V ''config-path'' ''./config.yml'';
     if \<not> vp_Stat V configPath then State_Monad.return None
     else State (\<lambda>v. case vp_ReadInConfig V configPath
         (if length (Ext configPath) > 1 then Some (tl (Ext configPath)) else None) v of
       (None, v1) \<Rightarrow> (None, v1)
     | (Some e, v1) \<Rightarrow> (Some (Err (''reading config file: '' @ err_text e)), v1)) }"

text \<open>The result with the environment that is left, in which the loaded keys are cleared.\<close>

definition Load ::
    "'key eth_lib \<Rightarrow> 'key crypto_lib \<Rightarrow> 'v viper_lib \<Rightarrow> 'v \<Rightarrow> string list
      \<Rightarrow> ((go_error + 'key config) \<times> string list) outcome" where
  "Load L C V v0 env =
    (let (fileErr, v1) = run_state (read_config_file V) (vp_AutomaticEnv V v0) in
     case fileErr of Some e \<Rightarrow> Ret (Inl e, env) | None \<Rightarrow>
       (let (server, v2) = run_state (parse_server V) v1;
            (database, v3) = run_state (parse_database V) v2 in
        if dc_URL database = [] then Ret (Inl (Err ''database.url is required''), env)
        else
          (let (chains, v4) = run_state (loadChains L V) v3 in
           case chains of
             Inl e \<Rightarrow> Ret (Inl (Err (''loading chains: '' @ err_text e)), env)
           | Inr [] \<Rightarrow> Ret (Inl (Err ''no chains configured''), env)
           | Inr (c # cs) \<Rightarrow>
               and_then (loadKeys L C env) (\<lambda>(loaded, env1).
                 (case loaded of
                    Inl e \<Rightarrow> Ret (Inl (Err (''loading keys: '' @ err_text e)), env1)
                  | Inr [] \<Rightarrow> Ret (Inl (Err ''no signer keys configured''), env1)
                  | Inr (k # ks) \<Rightarrow> Ret (Inr \<lparr>cf_Server = server, cf_Database = database,
                      cf_Chains = c # cs, cf_Keys = k # ks\<rparr>, env1))))))"

end
