(* ===== verification/Manager.thy ===== *)
theory Manager
  imports Stuck
begin

text \<open>
  internal/pipeline/manager.go: crash recovery at startup, the goroutines the service runs, and the
  map through which the API wakes a pipeline. Go's maps are association lists without duplicate
  keys, and every \<open>range\<close> over one takes the order the environment chooses.
\<close>

section \<open>The manager\<close>

record manager =
  mg_pipelines :: "(string \<times> pipeline) list"
  mg_clients :: "(u64 \<times> eth_client) list"
  mg_signer :: signer
  mg_chains :: "(u64 \<times> chain_config) list"

definition NewManager ::
    "(u64 \<times> eth_client) list \<Rightarrow> signer \<Rightarrow> (u64 \<times> chain_config) list \<Rightarrow> manager" where
  "NewManager clients sg configs =
     \<lparr>mg_pipelines = [], mg_clients = clients, mg_signer = sg, mg_chains = configs\<rparr>"

text \<open>\<open>fmt.Sprintf("%s-%d", strings.ToLower(sender), chainID)\<close>\<close>

definition pipeline_key :: "string \<Rightarrow> u64 \<Rightarrow> string" where
  "pipeline_key sender chainID = ToLower sender @ ''-'' @ u64_dec chainID"

section \<open>Crash recovery\<close>

text \<open>Both branches of the code's comparison with the stored cursor end in the node's number.\<close>

definition start_nonce :: "u64 \<Rightarrow> nonce_cursor option \<Rightarrow> u64" where
  "start_nonce pendingNonce cursor =
    (case cursor of
       None \<Rightarrow> pendingNonce
     | Some c \<Rightarrow> if nc_NextNonce c > pendingNonce then pendingNonce else pendingNonce)"

definition initNonceForSender ::
    "'key eth_lib \<Rightarrow> address \<Rightarrow> u64 \<Rightarrow> eth_client \<Rightarrow> world \<Rightarrow> go_error option \<times> world" where
  "initNonceForSender L addr chainID client w =
    (let sender = ToLower (Address_Hex L addr)
     in case ec_PendingNonceAt client addr w of
       (Inl e, w1) \<Rightarrow> (Some (Err (''pending nonce: '' @ err_text e)), w1)
     | (Inr pendingNonce, w1) \<Rightarrow>
         (case GetNonceCursor sender chainID w1 of
            (Inl e, w2) \<Rightarrow> (Some (Err (''get nonce cursor: '' @ err_text e)), w2)
          | (Inr cursor, w2) \<Rightarrow>
              (case (if cursor = None
                     then InitNonceCursor sender chainID (start_nonce pendingNonce cursor) w2
                     else SetNonceCursor sender chainID (start_nonce pendingNonce cursor) w2) of
                 (Some e, w3) \<Rightarrow> (Some (Err (''set nonce cursor: '' @ err_text e)), w3)
               | (None, w3) \<Rightarrow> (None, w3))))"

fun init_chains ::
    "'key eth_lib \<Rightarrow> address \<Rightarrow> (u64 \<times> eth_client) list \<Rightarrow> world \<Rightarrow> go_error option \<times> world" where
  "init_chains L addr [] w = (None, w)"
| "init_chains L addr ((chainID, client) # rest) w =
    (case initNonceForSender L addr chainID client w of
       (Some e, w1) \<Rightarrow>
         (Some (Err (''init nonce for '' @ Address_Hex L addr @ '' on chain '' @ u64_dec chainID
            @ '': '' @ err_text e)), w1)
     | (None, w1) \<Rightarrow> init_chains L addr rest w1)"

fun init_senders ::
    "'key eth_lib \<Rightarrow> (u64 \<times> eth_client) list \<Rightarrow> address list \<Rightarrow> world \<Rightarrow> go_error option \<times> world" where
  "init_senders L clients [] w = (None, w)"
| "init_senders L clients (addr # addrs) w =
    (case init_chains L addr (range_order clients w) w of
       (Some e, w1) \<Rightarrow> (Some e, w1)
     | (None, w1) \<Rightarrow> init_senders L clients addrs w1)"

definition InitNonces :: "'key eth_lib \<Rightarrow> manager \<Rightarrow> world \<Rightarrow> go_error option \<times> world" where
  "InitNonces L m w =
    (case ResetPendingToQueued w of
       (Inl e, w1) \<Rightarrow> (Some (Err (''reset pending: '' @ err_text e)), w1)
     | (Inr resetCount, w1) \<Rightarrow> init_senders L (mg_clients m) (sg_Addresses (mg_signer m) w1) w1)"

section \<open>Start\<close>

datatype goroutine =
    PipelineRoutine pipeline
  | PollerRoutine receipt_poller
  | DetectorRoutine stuck_detector

text \<open>An assignment to a Go map is \<open>AList.update\<close>.\<close>

fun start_senders ::
    "'key eth_lib \<Rightarrow> manager \<Rightarrow> u64 \<Rightarrow> chain_config \<Rightarrow> eth_client \<Rightarrow> address list
      \<Rightarrow> (string \<times> pipeline) list \<times> goroutine list \<Rightarrow> (string \<times> pipeline) list \<times> goroutine list" where
  "start_senders L m chainID chain client [] acc = acc"
| "start_senders L m chainID chain client (addr # addrs) acc =
    (let key = pipeline_key (Address_Hex L addr) chainID;
         p = NewPipeline addr chain client (mg_signer m)
     in start_senders L m chainID chain client addrs
          (AList.update key p (fst acc), snd acc @ [PipelineRoutine p]))"

fun start_pipelines ::
    "'key eth_lib \<Rightarrow> manager \<Rightarrow> (u64 \<times> chain_config) list
      \<Rightarrow> (string \<times> pipeline) list \<times> goroutine list \<Rightarrow> world
      \<Rightarrow> ((string \<times> pipeline) list \<times> goroutine list) \<times> world" where
  "start_pipelines L m [] acc w = (acc, w)"
| "start_pipelines L m ((chainID, chain) # rest) acc w =
    (case map_of (mg_clients m) chainID of
       None \<Rightarrow> start_pipelines L m rest acc w
     | Some client \<Rightarrow> start_pipelines L m rest
         (start_senders L m chainID chain client (sg_Addresses (mg_signer m) w) acc) (tick w))"

text \<open>The block time, but at least two seconds.\<close>

definition poll_interval :: "chain_config \<Rightarrow> duration" where
  "poll_interval chain = (if ch_BlockTime chain < 2000000 then 2000000 else ch_BlockTime chain)"

fun start_workers :: "manager \<Rightarrow> (u64 \<times> chain_config) list \<Rightarrow> goroutine list" where
  "start_workers m [] = []"
| "start_workers m ((chainID, chain) # rest) =
    (case map_of (mg_clients m) chainID of
       None \<Rightarrow> start_workers m rest
     | Some client \<Rightarrow>
         PollerRoutine (NewReceiptPoller chainID (ch_ConfirmationBlocks chain)
           (ch_ReceiptChunkSize chain) client (poll_interval chain))
         # DetectorRoutine (NewStuckDetector chain client (mg_signer m) (ch_GasBumpInterval chain))
         # start_workers m rest)"

text \<open>\<open>Start\<close> returns the goroutines it starts with \<open>go\<close>.\<close>

definition Start :: "'key eth_lib \<Rightarrow> manager \<Rightarrow> world \<Rightarrow> goroutine list \<times> manager \<times> world" where
  "Start L m w =
    (case start_pipelines L m (range_order (mg_chains m) w) (mg_pipelines m, []) (tick w) of
       ((ps, gs), w1) \<Rightarrow>
         (gs @ start_workers m (range_order (mg_chains m) w1), m\<lparr>mg_pipelines := ps\<rparr>, tick w1))"

section \<open>Notification and status\<close>

definition NotifyPipeline :: "'key eth_lib \<Rightarrow> manager \<Rightarrow> string \<Rightarrow> u64 \<Rightarrow> world \<Rightarrow> world" where
  "NotifyPipeline L m sender chainID w =
    (case map_of (mg_pipelines m) (pipeline_key sender chainID) of
       None \<Rightarrow> w
     | Some p \<Rightarrow> Notify L p w)"

record pipeline_info =
  pi_Status :: string
  pi_QueueDepth :: int

text \<open>A failed count leaves the queue depth at zero.\<close>

fun status_entries ::
    "'key eth_lib \<Rightarrow> (string \<times> pipeline) list \<Rightarrow> world \<Rightarrow> (string \<times> pipeline_info) list \<times> world" where
  "status_entries L [] w = ([], w)"
| "status_entries L ((key, p) # rest) w =
    (let (queued, w1) = CountQueuedTransactions (ToLower (Address_Hex L (pl_sender p)))
           (pl_chainID p) w;
         (entries, w2) = status_entries L rest w1
     in ((key, \<lparr>pi_Status = ''running'',
           pi_QueueDepth = (case queued of Inl e \<Rightarrow> 0 | Inr n \<Rightarrow> n)\<rparr>) # entries, w2))"

definition PipelineStatus ::
    "'key eth_lib \<Rightarrow> manager \<Rightarrow> world \<Rightarrow> (string \<times> pipeline_info) list \<times> world" where
  "PipelineStatus L m w = status_entries L (range_order (mg_pipelines m) w) w"

end
