(* ===== verification/Api.thy ===== *)
theory Api
  imports Manager Amount
begin

text \<open>
  internal/api: the HTTP handlers. A request is what encoding/json and net/url made of it, a response
  its status code and the value that is encoded; the handlers run in the same world as the
  goroutines of the pipeline. Case changes of text are those of ASCII.
\<close>

section \<open>Requests and responses (transfer.go, transaction.go, health.go, response.go)\<close>

record transfer_request =
  rq_IdempotencyKey :: string
  rq_ChainID :: u64
  rq_Sender :: string
  rq_Recipient :: string
  rq_Token :: string
  rq_Amount :: string
  rq_Priority :: string
  rq_Metadata :: "bytes option"

record transfer_response =
  tr_ID :: string
  tr_Status :: string
  tr_ChainID :: u64
  tr_Sender :: string
  tr_Recipient :: string
  tr_Token :: string
  tr_Amount :: string
  tr_TransferType :: string
  tr_TokenContract :: string
  tr_CreatedAt :: instant

text \<open>\<open>SubmittedAt\<close> is the second the RFC 3339 text denotes.\<close>

record attempt_resp =
  ar_AttemptNumber :: int
  ar_TxHash :: string
  ar_MaxFeePerGas :: string
  ar_MaxPriorityFeePerGas :: string
  ar_GasPrice :: string
  ar_Status :: string
  ar_SubmittedAt :: int

record tx_response =
  xr_ID :: string
  xr_IdempotencyKey :: string
  xr_Status :: string
  xr_ChainID :: u64
  xr_Sender :: string
  xr_ToAddress :: string
  xr_Value :: string
  xr_Data :: string
  xr_Nonce :: "u64 option"
  xr_TxHash :: string
  xr_GasUsed :: "u64 option"
  xr_EffectiveGasPrice :: string
  xr_BlockNumber :: "u64 option"
  xr_BlockHash :: string
  xr_Confirmations :: int
  xr_ReceiptStatus :: "u8 option"
  xr_Error :: string
  xr_ErrorCode :: string
  xr_TransferToken :: string
  xr_TransferAmount :: string
  xr_TransferRecipient :: string
  xr_TokenContract :: string
  xr_Metadata :: "bytes option"
  xr_Attempts :: "attempt_resp list"
  xr_CreatedAt :: instant
  xr_UpdatedAt :: instant
  xr_SubmittedAt :: "instant option"
  xr_ConfirmedAt :: "instant option"

record chain_health =
  chh_Healthy :: bool
  chh_BlockNumber :: u64
  chh_RPCEndpoints :: int

record health_response =
  hr_Status :: string
  hr_Chains :: "(u64 \<times> chain_health) list"
  hr_Pipelines :: "(string \<times> pipeline_info) list"
  hr_DB :: string

datatype response_body =
    ErrorBody string string
  | TransferBody transfer_response
  | TxBody tx_response
  | TxListBody "tx_response list"
  | HealthBody health_response

record response =
  rs_Status :: int
  rs_Body :: response_body

definition writeJSON :: "int \<Rightarrow> response_body \<Rightarrow> response" where
  "writeJSON status body = \<lparr>rs_Status = status, rs_Body = body\<rparr>"

definition writeError :: "app_error \<Rightarrow> response" where
  "writeError e = writeJSON (ae_HTTP e) (ErrorBody (error_code_text (ae_Code e)) (ae_Message e))"

section \<open>Transfers: validation\<close>

record transfer_handler =
  th_signer :: signer
  th_chains :: "(u64 \<times> chain_config) list"
  th_manager :: manager

definition NewTransferHandler :: "signer \<Rightarrow> (u64 \<times> chain_config) list \<Rightarrow> manager \<Rightarrow> transfer_handler" where
  "NewTransferHandler sg configs m = \<lparr>th_signer = sg, th_chains = configs, th_manager = m\<rparr>"

definition validate ::
    "'key eth_lib \<Rightarrow> transfer_handler \<Rightarrow> transfer_request \<Rightarrow> app_error option" where
  "validate L h req =
    (if rq_IdempotencyKey req = [] then
       Some (NewAppError ErrCodeMissingField 400 ''idempotency_key is required'')
     else if length (rq_IdempotencyKey req) > 256 then
       Some (NewAppError ErrCodeIdempotencyKeyTooLong 400 ''idempotency_key max 256 characters'')
     else if rq_ChainID req = 0 then
       Some (NewAppError ErrCodeMissingField 400 ''chain_id is required'')
     else if map_of (th_chains h) (rq_ChainID req) = None then
       Some (NewAppError ErrCodeInvalidChain 400 (''unsupported chain_id '' @ u64_dec (rq_ChainID req)))
     else if rq_Sender req = [] then
       Some (NewAppError ErrCodeMissingField 400 ''sender is required'')
     else if \<not> IsHexAddress L (rq_Sender req) then
       Some (NewAppError ErrCodeInvalidAddress 400 ''invalid sender address'')
     else if \<not> sg_HasAddress (th_signer h) (HexToAddress L (rq_Sender req)) then
       Some (NewAppError ErrCodeUnknownSender 404 ''sender key not registered'')
     else if rq_Recipient req = [] then
       Some (NewAppError ErrCodeMissingField 400 ''recipient is required'')
     else if \<not> IsHexAddress L (rq_Recipient req) then
       Some (NewAppError ErrCodeInvalidRecipient 400 ''invalid recipient address'')
     else if HexToAddress L (rq_Recipient req) = 0 then
       Some (NewAppError ErrCodeZeroAddressRecipient 400 ''recipient cannot be zero address'')
     else if EqualFold (rq_Sender req) (rq_Recipient req) then
       Some (NewAppError ErrCodeInvalidRecipient 400 ''sender and recipient cannot be the same'')
     else if rq_Token req = [] then
       Some (NewAppError ErrCodeMissingField 400 ''token is required'')
     else if rq_Amount req = [] then
       Some (NewAppError ErrCodeMissingField 400 ''amount is required'')
     else if rq_Priority req \<noteq> [] \<and> \<not> snd (ParsePriority (rq_Priority req)) then
       Some (NewAppError ErrCodeInvalidPriority 400 ''priority must be low, normal, high, or urgent'')
     else None)"

section \<open>Transfers: the transaction to send\<close>

record tx_params =
  pm_To :: address
  pm_Value :: "int option"
  pm_Data :: "bytes option"

text \<open>The checks on the amount, which the code makes for the native coin and for a token alike.\<close>

definition check_amount :: "string \<Rightarrow> u8 \<Rightarrow> int option \<Rightarrow> string \<Rightarrow> app_error + int" where
  "check_amount amount decimals maxTransfer limitText =
    (case ParseAmountToSmallestUnit amount decimals of
       Inl e \<Rightarrow> Inl (NewAppError ErrCodeInvalidAmount 400 (amount_error_text e))
     | Inr v \<Rightarrow>
         if v \<le> 0 then Inl (NewAppError ErrCodeZeroAmount 422 ''amount must be positive'')
         else if v > MaxUint256 then
           Inl (NewAppError ErrCodeAmountOverflow 422 ''amount exceeds uint256'')
         else if (case maxTransfer of None \<Rightarrow> False | Some m \<Rightarrow> v > m) then
           Inl (NewAppError ErrCodeExceedsTransferLimit 422 limitText)
         else Inr v)"

text \<open>The parameters, the token contract, the type of the transfer and the decimals.\<close>

definition resolveTransfer ::
    "'key eth_lib \<Rightarrow> transfer_request \<Rightarrow> chain_config
      \<Rightarrow> app_error + tx_params \<times> string \<times> string \<times> u8" where
  "resolveTransfer L req chain =
    (let token = ToUpper (rq_Token req);
         recipientAddr = HexToAddress L (rq_Recipient req)
     in if token = ToUpper (ch_NativeTokenSymbol chain) then
          (case check_amount (rq_Amount req) (ch_NativeTokenDecimals chain) (ch_NativeMaxTransfer chain)
                  ''exceeds native transfer limit'' of
             Inl e \<Rightarrow> Inl e
           | Inr amountWei \<Rightarrow> Inr (\<lparr>pm_To = recipientAddr, pm_Value = Some amountWei, pm_Data = None\<rparr>,
               [], ''native'', ch_NativeTokenDecimals chain))
        else
          (case ch_TokenWhitelist chain token of
             None \<Rightarrow> Inl (NewAppError ErrCodeTokenNotWhitelisted 403
               (''token '' @ token @ '' not whitelisted on chain '' @ u64_dec (ch_ChainID chain)))
           | Some tokenCfg \<Rightarrow>
               if \<not> tk_Enabled tokenCfg then
                 Inl (NewAppError ErrCodeTokenDisabled 403 (''token '' @ token @ '' is disabled''))
               else
                 (case check_amount (rq_Amount req) (tk_Decimals tokenCfg) (tk_MaxTransfer tokenCfg)
                         (''amount exceeds '' @ token @ '' transfer limit'') of
                    Inl e \<Rightarrow> Inl e
                  | Inr amountSmallest \<Rightarrow>
                      if recipientAddr = tk_ContractAddress tokenCfg then
                        Inl (NewAppError ErrCodeSelfTransferToken 400
                          ''recipient cannot be the token contract address'')
                      else
                        (case PackTransfer L recipientAddr amountSmallest of
                           Inl e \<Rightarrow> Inl (NewAppError ErrCodeInternalError 500
                             ''failed to encode transfer calldata'')
                         | Inr data \<Rightarrow> Inr (\<lparr>pm_To = tk_ContractAddress tokenCfg, pm_Value = Some 0,
                             pm_Data = Some data\<rparr>,
                             ToLower (Address_Hex L (tk_ContractAddress tokenCfg)), ''erc20'',
                             tk_Decimals tokenCfg)))))"

section \<open>Transfers: idempotency\<close>

definition idempotencyMatch :: "'key eth_lib \<Rightarrow> transaction \<Rightarrow> transfer_request \<Rightarrow> bool" where
  "idempotencyMatch L existing req \<longleftrightarrow>
     tx_ChainID existing = rq_ChainID req
     \<and> EqualFold (tx_Sender existing) (Address_Hex L (HexToAddress L (rq_Sender req)))
     \<and> EqualFold (tx_TransferRecipient existing) (Address_Hex L (HexToAddress L (rq_Recipient req)))
     \<and> EqualFold (tx_TransferToken existing) (ToUpper (rq_Token req))
     \<and> tx_TransferAmount existing = rq_Amount req"

definition txToTransferResponse :: "transaction \<Rightarrow> transfer_response" where
  "txToTransferResponse tx =
     \<lparr>tr_ID = tx_ID tx, tr_Status = status_text (tx_Status tx), tr_ChainID = tx_ChainID tx,
      tr_Sender = tx_Sender tx, tr_Recipient = tx_TransferRecipient tx, tr_Token = tx_TransferToken tx,
      tr_Amount = tx_TransferAmount tx,
      tr_TransferType = (if tx_TokenContract tx \<noteq> [] then ''erc20'' else ''native''),
      tr_TokenContract = tx_TokenContract tx, tr_CreatedAt = tx_CreatedAt tx\<rparr>"

section \<open>Transfers: the handler\<close>

definition request_priority :: "transfer_request \<Rightarrow> priority option" where
  "request_priority req =
    (if rq_Priority req = [] then Some PriorityNormal
     else (let (p, ok) = ParsePriority (rq_Priority req) in if ok then Some p else None))"

definition new_transaction ::
    "'key eth_lib \<Rightarrow> transfer_request \<Rightarrow> tx_params \<Rightarrow> string \<Rightarrow> u8 \<Rightarrow> priority \<Rightarrow> string \<Rightarrow> instant
      \<Rightarrow> transaction" where
  "new_transaction L req params tokenContract decimals prio txid now =
     \<lparr>tx_ID = txid, tx_IdempotencyKey = rq_IdempotencyKey req, tx_ChainID = rq_ChainID req,
      tx_Sender = ToLower (Address_Hex L (HexToAddress L (rq_Sender req))),
      tx_ToAddress = ToLower (Address_Hex L (pm_To params)),
      tx_Value = pm_Value params, tx_Data = pm_Data params, tx_GasLimit = None, tx_Nonce = None,
      tx_Priority = prio, tx_Status = TxStatusQueued, tx_ErrorReason = [], tx_ErrorCode = [],
      tx_FinalTxHash = [], tx_BlockNumber = None, tx_BlockHash = [], tx_GasUsed = None,
      tx_EffectiveGasPrice = None, tx_ReceiptStatus = None, tx_ReceiptData = None,
      tx_Confirmations = 0, tx_TransferToken = ToUpper (rq_Token req),
      tx_TransferAmount = rq_Amount req,
      tx_TransferRecipient = ToLower (Address_Hex L (HexToAddress L (rq_Recipient req))),
      tx_TokenContract = tokenContract, tx_TokenDecimals = decimals, tx_Metadata = rq_Metadata req,
      tx_CreatedAt = now, tx_UpdatedAt = now, tx_SubmittedAt = None, tx_ConfirmedAt = None,
      tx_ClaimedBy = [], tx_ClaimedAt = None\<rparr>"

text \<open>Storing the transaction, logging it, waking its pipeline and answering.\<close>

definition store_transfer ::
    "'key eth_lib \<Rightarrow> transfer_handler \<Rightarrow> transfer_request \<Rightarrow> string \<Rightarrow> transaction \<Rightarrow> world
      \<Rightarrow> response \<times> world" where
  "store_transfer L h req transferType tx w =
    (case CreateTransaction tx w of
       (Some e, w1) \<Rightarrow>
         (writeError (NewAppError ErrCodeInternalError 500 ''failed to create transaction''), w1)
     | (None, w1) \<Rightarrow>
         (let w2 = logTransition (tx_ID tx) [] (status_text TxStatusQueued) ''api''
                (''transfer '' @ rq_Amount req @ '' '' @ rq_Token req @ '' to '' @ rq_Recipient req) w1;
              w3 = NotifyPipeline L (th_manager h) (tx_Sender tx) (tx_ChainID tx) w2
          in (writeJSON 202 (TransferBody
                \<lparr>tr_ID = tx_ID tx, tr_Status = status_text TxStatusQueued, tr_ChainID = tx_ChainID tx,
                 tr_Sender = tx_Sender tx, tr_Recipient = tx_TransferRecipient tx,
                 tr_Token = tx_TransferToken tx, tr_Amount = tx_TransferAmount tx,
                 tr_TransferType = transferType, tr_TokenContract = tx_TokenContract tx,
                 tr_CreatedAt = tx_CreatedAt tx\<rparr>), w3)))"

text \<open>A chain that is not configured would be a nil dereference.\<close>

definition new_transfer ::
    "'key eth_lib \<Rightarrow> transfer_handler \<Rightarrow> transfer_request \<Rightarrow> world \<Rightarrow> (response \<times> world) outcome" where
  "new_transfer L h req w =
    (case map_of (th_chains h) (rq_ChainID req) of
       None \<Rightarrow> Panic
     | Some chain \<Rightarrow> Ret
         (case resolveTransfer L req chain of
            Inl e \<Rightarrow> (writeError e, w)
          | Inr (params, tokenContract, transferType, decimals) \<Rightarrow>
              (case request_priority req of
                 None \<Rightarrow> (writeError (NewAppError ErrCodeInvalidPriority 400 ''invalid priority''), w)
               | Some prio \<Rightarrow>
                   (let (txid, w1) = ulid_make w in
                    store_transfer L h req transferType
                      (new_transaction L req params tokenContract decimals prio txid (time_now w)) w1))))"

definition Create ::
    "'key eth_lib \<Rightarrow> transfer_handler \<Rightarrow> go_error + transfer_request \<Rightarrow> world
      \<Rightarrow> (response \<times> world) outcome" where
  "Create L h body w =
    (case body of
       Inl e \<Rightarrow> Ret (writeError (NewAppError ErrCodeInvalidValue 400 ''invalid JSON body''), w)
     | Inr req \<Rightarrow>
         (case validate L h req of
            Some appErr \<Rightarrow> Ret (writeError appErr, w)
          | None \<Rightarrow>
              (case GetTransactionByIdempotencyKey (rq_IdempotencyKey req) w of
                 (Inl e, w1) \<Rightarrow>
                   Ret (writeError (NewAppError ErrCodeInternalError 500 ''database error''), w1)
               | (Inr (Some existing), w1) \<Rightarrow>
                   if \<not> idempotencyMatch L existing req then
                     Ret (writeError (NewAppError ErrCodeIdempotencyConflict 409
                       ''idempotency key already used with different parameters''), w1)
                   else Ret (writeJSON 202 (TransferBody (txToTransferResponse existing)), w1)
               | (Inr None, w1) \<Rightarrow> new_transfer L h req w1)))"

section \<open>Transactions\<close>

definition encodeHex :: "bytes \<Rightarrow> string" where
  "encodeHex b = (let hextable = ''0123456789abcdef'' in
     concat (map (\<lambda>v. [hextable ! unat (drop_bit 4 v), hextable ! unat (take_bit 4 v)]) b))"

text \<open>\<open>(*big.Int).String\<close>, also on a nil pointer; an optional field stays empty.\<close>

definition big_text :: "int option \<Rightarrow> string" where
  "big_text b = (case b of None \<Rightarrow> ''<nil>'' | Some i \<Rightarrow> int_dec i)"

definition big_field :: "int option \<Rightarrow> string" where
  "big_field b = (case b of None \<Rightarrow> [] | Some i \<Rightarrow> int_dec i)"

definition attempt_response :: "tx_attempt \<Rightarrow> attempt_resp" where
  "attempt_response a =
     \<lparr>ar_AttemptNumber = at_AttemptNumber a, ar_TxHash = at_TxHash a,
      ar_MaxFeePerGas = big_field (at_MaxFeePerGas a),
      ar_MaxPriorityFeePerGas = big_field (at_MaxPriorityFeePerGas a),
      ar_GasPrice = big_field (at_GasPrice a), ar_Status = attempt_status_text (at_Status a),
      ar_SubmittedAt = at_CreatedAt a div 1000000\<rparr>"

definition toResponse :: "transaction \<Rightarrow> tx_attempt list \<Rightarrow> tx_response" where
  "toResponse tx attempts =
     \<lparr>xr_ID = tx_ID tx, xr_IdempotencyKey = tx_IdempotencyKey tx, xr_Status = status_text (tx_Status tx),
      xr_ChainID = tx_ChainID tx, xr_Sender = tx_Sender tx, xr_ToAddress = tx_ToAddress tx,
      xr_Value = big_text (tx_Value tx),
      xr_Data = (case tx_Data tx of None \<Rightarrow> [] | Some d \<Rightarrow> ''0x'' @ encodeHex d),
      xr_Nonce = tx_Nonce tx, xr_TxHash = tx_FinalTxHash tx, xr_GasUsed = tx_GasUsed tx,
      xr_EffectiveGasPrice = big_field (tx_EffectiveGasPrice tx),
      xr_BlockNumber = tx_BlockNumber tx, xr_BlockHash = tx_BlockHash tx,
      xr_Confirmations = tx_Confirmations tx, xr_ReceiptStatus = tx_ReceiptStatus tx,
      xr_Error = tx_ErrorReason tx, xr_ErrorCode = tx_ErrorCode tx,
      xr_TransferToken = tx_TransferToken tx, xr_TransferAmount = tx_TransferAmount tx,
      xr_TransferRecipient = tx_TransferRecipient tx, xr_TokenContract = tx_TokenContract tx,
      xr_Metadata = tx_Metadata tx, xr_Attempts = map attempt_response attempts,
      xr_CreatedAt = tx_CreatedAt tx, xr_UpdatedAt = tx_UpdatedAt tx,
      xr_SubmittedAt = tx_SubmittedAt tx, xr_ConfirmedAt = tx_ConfirmedAt tx\<rparr>"

text \<open>
  \<open>Get\<close>. (The repository reports a missing row as an error, so the branch for a nil transaction
  without an error is never taken.) Attempts that cannot be read are left out.
\<close>

definition Get :: "string \<Rightarrow> world \<Rightarrow> response \<times> world" where
  "Get txid w =
    (if txid = [] then (writeError (NewAppError ErrCodeMissingField 400 ''id is required''), w)
     else
       (case GetTransaction txid w of
          (Inl e, w1) \<Rightarrow>
            (writeError (NewAppError ErrCodeInternalError 500 ''database error''), w1)
        | (Inr tx, w1) \<Rightarrow>
            (let (attempts, w2) = GetAttemptsByTransactionID txid w1 in
             (writeJSON 200 (TxBody (toResponse tx (case attempts of Inl e \<Rightarrow> [] | Inr ats \<Rightarrow> ats))),
              w2))))"

text \<open>\<open>strconv.Atoi\<close> as the code uses it, without its error.\<close>

definition Atoi :: "string \<Rightarrow> int" where
  "Atoi s = (case SetString10 s of
       None \<Rightarrow> 0 | Some i \<Rightarrow> max (- (2 ^ 63)) (min (2 ^ 63 - 1) i))"

record list_query =
  lq_sender :: string
  lq_status :: string
  lq_after :: string
  lq_chain_id :: string
  lq_limit :: string

definition list_with ::
    "list_query \<Rightarrow> u64 option \<Rightarrow> world \<Rightarrow> response \<times> world" where
  "list_with q chainID w =
    (case ListTransactions \<lparr>tf_ChainID = chainID, tf_Sender = ToLower (lq_sender q),
            tf_Status = ToUpper (lq_status q),
            tf_Limit = (if lq_limit q \<noteq> [] then Atoi (lq_limit q) else 0),
            tf_After = lq_after q\<rparr> w of
       (Inl e, w1) \<Rightarrow> (writeError (NewAppError ErrCodeInternalError 500 ''database error''), w1)
     | (Inr txs, w1) \<Rightarrow> (writeJSON 200 (TxListBody (map (\<lambda>tx. toResponse tx []) txs)), w1))"

definition List :: "list_query \<Rightarrow> world \<Rightarrow> response \<times> world" where
  "List q w =
    (if lq_chain_id q = [] then list_with q None w
     else
       (case ParseUint (lq_chain_id q) of
          None \<Rightarrow> (writeError (NewAppError ErrCodeInvalidChain 400 ''invalid chain_id''), w)
        | Some chainID \<Rightarrow> list_with q (Some chainID) w))"

section \<open>Health\<close>

definition Ping :: "world \<Rightarrow> go_error option \<times> world" where
  "Ping w = (case w_dbres w (w_tick w) of
       DbOk \<Rightarrow> (None, tick w) | DbRefused e \<Rightarrow> (Some (Err e), tick w)
     | DbLostReply e \<Rightarrow> (Some (Err e), tick w))"

text \<open>The entry of a chain, and the loop over the chains. \<open>RPCEndpoints\<close> is never set.\<close>

definition chain_check :: "eth_client \<Rightarrow> world \<Rightarrow> chain_health \<times> world" where
  "chain_check client w =
    (if ec_Healthy client w then
       (let (bn, w1) = ec_BlockNumber client w in
        (\<lparr>chh_Healthy = True, chh_BlockNumber = (case bn of Inl e \<Rightarrow> 0 | Inr n \<Rightarrow> n),
          chh_RPCEndpoints = 0\<rparr>, w1))
     else (\<lparr>chh_Healthy = False, chh_BlockNumber = 0, chh_RPCEndpoints = 0\<rparr>, w))"

fun chain_checks ::
    "(u64 \<times> eth_client) list \<Rightarrow> world \<Rightarrow> (u64 \<times> chain_health) list \<times> world" where
  "chain_checks [] w = ([], w)"
| "chain_checks ((chainID, client) # rest) w =
    (let (entry, w1) = chain_check client w; (entries, w2) = chain_checks rest w1
     in ((chainID, entry) # entries, w2))"

definition Health ::
    "'key eth_lib \<Rightarrow> (u64 \<times> eth_client) list \<Rightarrow> manager \<Rightarrow> world \<Rightarrow> response \<times> world" where
  "Health L clients m w =
    (let (pinged, w1) = Ping w;
         (entries, w2) = chain_checks (range_order clients w1) w1;
         (pipelines, w3) = PipelineStatus L m w2;
         degraded = (pinged \<noteq> None \<or> (\<exists>(c, e) \<in> set entries. \<not> chh_Healthy e))
     in (writeJSON (if degraded then 503 else 200) (HealthBody
          \<lparr>hr_Status = (if degraded then ''degraded'' else ''healthy''), hr_Chains = entries,
           hr_Pipelines = pipelines,
           hr_DB = (if pinged = None then ''connected'' else ''disconnected'')\<rparr>), w3))"

end
