(* ===== verification/Service.thy ===== *)
theory Service
  imports Config Api
begin

text \<open>
  cmd/tx-sender/main.go: how the service comes up, from its configuration to the running goroutines
  and the handler of the HTTP server. Dialling a node is a call of go-ethereum, a parameter.
\<close>

section \<open>The database\<close>

text \<open>The migrations create what is missing and rebuild an index; they change no row.\<close>

definition migration :: "string \<Rightarrow> world \<Rightarrow> go_error option \<times> world" where
  "migration file w = (case exec (\<lambda>d. Inr d) w of
       (Some e, w1) \<Rightarrow> (Some (Err (''executing migration '' @ file @ '': '' @ err_text e)), w1)
     | (None, w1) \<Rightarrow> (None, w1))"

definition Migrate :: "world \<Rightarrow> go_error option \<times> world" where
  "Migrate w = (case migration ''migrations/001_init.sql'' w of
       (Some e, w1) \<Rightarrow> (Some e, w1)
     | (None, w1) \<Rightarrow> migration ''migrations/002_add_included_status.sql'' w1)"

section \<open>The nodes\<close>

fun init_clients ::
    "(string \<Rightarrow> go_error option) \<Rightarrow> (u64 \<times> chain_config) list \<Rightarrow> (u64 \<times> eth_client) list \<Rightarrow> world
      \<Rightarrow> (go_error + (u64 \<times> eth_client) list) \<times> world" where
  "init_clients dial [] clients w = (Inr clients, w)"
| "init_clients dial ((chainID, chain) # rest) clients w =
    (case NewClient dial chainID (ch_RPCEndpoints chain) of
       Inl e \<Rightarrow> (Inl (Err (''eth client chain '' @ u64_dec chainID @ '': '' @ err_text e)), w)
     | Inr eps \<Rightarrow> init_clients dial rest (AList.update chainID (Client chainID) clients)
         (upd_endpoints chainID (\<lambda>_. eps) w))"

text \<open>
  Detection of EIP-1559: the configuration of a chain is shared by pointer, so the flag is set in the
  map. The chain of a client is always configured.
\<close>

fun detect_fees ::
    "(u64 \<times> eth_client) list \<Rightarrow> (u64 \<times> chain_config) list \<Rightarrow> world
      \<Rightarrow> (u64 \<times> chain_config) list \<times> world" where
  "detect_fees [] configs w = (configs, w)"
| "detect_fees ((chainID, client) # rest) configs w =
    (case ec_LatestBaseFee client w of
       (fee, w1) \<Rightarrow> detect_fees rest (map (\<lambda>(cid, chain). (cid,
         if cid = chainID then chain\<lparr>ch_SupportsEIP1559 := (case fee of Inl _ \<Rightarrow> False | Inr _ \<Rightarrow> True)\<rparr>
         else chain)) configs) w1)"

section \<open>Startup\<close>

record service =
  sv_chains :: "(u64 \<times> chain_config) list"
  sv_manager :: manager
  sv_goroutines :: "goroutine list"
  sv_transfers :: transfer_handler

text \<open>From the connected database to the running pipelines.\<close>

definition start_service ::
    "'key eth_lib \<Rightarrow> (string \<Rightarrow> go_error option) \<Rightarrow> 'key config \<Rightarrow> world
      \<Rightarrow> (go_error + service) \<times> world" where
  "start_service L dial cfg w =
    (case init_clients dial (range_order (cf_Chains cfg) w) [] w of
       (Inl e, w1) \<Rightarrow> (Inl e, w1)
     | (Inr clients, w1) \<Rightarrow>
         (let (configs, w2) = detect_fees (range_order clients w1) (cf_Chains cfg) w1;
              sg = LocalSigner L (cf_Keys cfg);
              mgr = NewManager clients sg configs
          in case InitNonces L mgr w2 of
               (Some e, w3) \<Rightarrow> (Inl (Err (''init nonces: '' @ err_text e)), w3)
             | (None, w3) \<Rightarrow>
                 (case Start L mgr w3 of (gs, mgr1, w4) \<Rightarrow>
                    (Inr \<lparr>sv_chains = configs, sv_manager = mgr1, sv_goroutines = gs,
                       sv_transfers = NewTransferHandler sg configs mgr1\<rparr>, w4))))"

text \<open>What the code uses of package pgxpool to connect: both calls may refuse the configuration.\<close>

record pgx_lib =
  pg_ParseConfig :: "string \<Rightarrow> go_error option"
  pg_NewWithConfig :: "database_config \<Rightarrow> go_error option"

definition connect :: "pgx_lib \<Rightarrow> database_config \<Rightarrow> world \<Rightarrow> go_error option \<times> world" where
  "connect G db w =
    (case pg_ParseConfig G (dc_URL db) of
       Some e \<Rightarrow> (Some (Err (''parse database URL: '' @ err_text e)), w)
     | None \<Rightarrow>
         (case pg_NewWithConfig G db of
            Some e \<Rightarrow> (Some (Err (''database connect: '' @ err_text e)), w)
          | None \<Rightarrow>
              (case Ping w of
                 (Some e, w1) \<Rightarrow> (Some (Err (''database ping: '' @ err_text e)), w1)
               | (None, w1) \<Rightarrow> (None, w1))))"

text \<open>\<open>run\<close> up to the HTTP server.\<close>

definition run_service ::
    "'key eth_lib \<Rightarrow> 'key crypto_lib \<Rightarrow> 'v viper_lib \<Rightarrow> pgx_lib \<Rightarrow> (string \<Rightarrow> go_error option)
      \<Rightarrow> 'v \<Rightarrow> string list \<Rightarrow> world \<Rightarrow> ((go_error + service) \<times> world) outcome" where
  "run_service L C V G dial v0 env w =
    and_then (Load L C V v0 env) (\<lambda>(loaded, env1). Ret
      (case loaded of
         Inl e \<Rightarrow> (Inl (Err (''config: '' @ err_text e)), w)
       | Inr cfg \<Rightarrow>
           (case connect G (cf_Database cfg) w of
              (Some e, w1) \<Rightarrow> (Inl e, w1)
            | (None, w1) \<Rightarrow>
                (case Migrate w1 of
                   (Some e, w2) \<Rightarrow> (Inl (Err (''migrations: '' @ err_text e)), w2)
                 | (None, w2) \<Rightarrow> start_service L dial cfg w2))))"

end
