(* ===== verification/TransferFacts.thy ===== *)
theory TransferFacts
  imports Api PipelineFacts
begin

text \<open>
  What the validation of a transfer guarantees: the bounds of the amount, the call that is signed,
  and how addresses are compared; with the handler and the request of the witnesses.
\<close>

section \<open>Amounts\<close>

definition within_limit :: "int option \<Rightarrow> int \<Rightarrow> bool" where
  "within_limit limit v = (case limit of None \<Rightarrow> True | Some m \<Rightarrow> v \<le> m)"

lemma check_amount_ok:
  "check_amount amount decimals limit t = Inr v \<longleftrightarrow>
     ParseAmountToSmallestUnit amount decimals = Inr v \<and> 0 < v \<and> v \<le> MaxUint256 \<and> within_limit limit v"
  by (auto simp: check_amount_def within_limit_def split: sum.splits option.splits)

lemma MaxUint256_numeric78: "v \<le> MaxUint256 \<Longrightarrow> 0 \<le> v \<Longrightarrow> numeric78 (Some v) = Inr v"
  by (simp add: numeric78_def MaxUint256_def)

section \<open>The transaction a request asks for\<close>

text \<open>The native coin goes to the recipient; a token transfer is a call of its contract.\<close>

definition native_transfer ::
    "'key eth_lib \<Rightarrow> transfer_request \<Rightarrow> chain_config \<Rightarrow> int \<Rightarrow> tx_params \<times> string \<times> string \<times> u8 \<Rightarrow> bool" where
  "native_transfer L req chain v res \<longleftrightarrow>
     ToUpper (rq_Token req) = ToUpper (ch_NativeTokenSymbol chain)
     \<and> within_limit (ch_NativeMaxTransfer chain) v
     \<and> res = (\<lparr>pm_To = HexToAddress L (rq_Recipient req), pm_Value = Some v, pm_Data = None\<rparr>,
         [], ''native'', ch_NativeTokenDecimals chain)"

definition token_transfer ::
    "'key eth_lib \<Rightarrow> transfer_request \<Rightarrow> chain_config \<Rightarrow> int \<Rightarrow> tx_params \<times> string \<times> string \<times> u8 \<Rightarrow> bool" where
  "token_transfer L req chain v res \<longleftrightarrow>
     (\<exists>t data. ch_TokenWhitelist chain (ToUpper (rq_Token req)) = Some t \<and> tk_Enabled t
       \<and> within_limit (tk_MaxTransfer t) v
       \<and> HexToAddress L (rq_Recipient req) \<noteq> tk_ContractAddress t
       \<and> PackTransfer L (HexToAddress L (rq_Recipient req)) v = Inr data
       \<and> res = (\<lparr>pm_To = tk_ContractAddress t, pm_Value = Some 0, pm_Data = Some data\<rparr>,
           ToLower (Address_Hex L (tk_ContractAddress t)), ''erc20'', tk_Decimals t))"

lemma resolveTransfer_cases:
  assumes "resolveTransfer L req chain = Inr res"
  shows "\<exists>v. ParseAmountToSmallestUnit (rq_Amount req) (snd (snd (snd res))) = Inr v
    \<and> 0 < v \<and> v \<le> MaxUint256 \<and> (native_transfer L req chain v res \<or> token_transfer L req chain v res)"
proof (cases "ToUpper (rq_Token req) = ToUpper (ch_NativeTokenSymbol chain)")
  case True
  then obtain v where "check_amount (rq_Amount req) (ch_NativeTokenDecimals chain)
      (ch_NativeMaxTransfer chain) ''exceeds native transfer limit'' = Inr v"
    "res = (\<lparr>pm_To = HexToAddress L (rq_Recipient req), pm_Value = Some v, pm_Data = None\<rparr>,
       [], ''native'', ch_NativeTokenDecimals chain)"
    using assms by (auto simp: resolveTransfer_def split: sum.splits)
  with True show ?thesis by (simp add: check_amount_ok native_transfer_def)
next
  case False
  obtain t v data where t: "ch_TokenWhitelist chain (ToUpper (rq_Token req)) = Some t" "tk_Enabled t"
    and v: "check_amount (rq_Amount req) (tk_Decimals t) (tk_MaxTransfer t)
      (''amount exceeds '' @ ToUpper (rq_Token req) @ '' transfer limit'') = Inr v"
    and r: "HexToAddress L (rq_Recipient req) \<noteq> tk_ContractAddress t"
      "PackTransfer L (HexToAddress L (rq_Recipient req)) v = Inr data"
      "res = (\<lparr>pm_To = tk_ContractAddress t, pm_Value = Some 0, pm_Data = Some data\<rparr>,
         ToLower (Address_Hex L (tk_ContractAddress t)), ''erc20'', tk_Decimals t)"
    using assms False by (auto simp: resolveTransfer_def Let_def split: sum.splits option.splits if_splits)
  with t show ?thesis by (auto simp: check_amount_ok token_transfer_def)
qed

lemma resolved_value:
  assumes "resolveTransfer L req chain = Inr (params, tc, ty, dc)"
  shows "\<exists>i. numeric78 (pm_Value params) = Inr i"
  using resolveTransfer_cases [OF assms] MaxUint256_numeric78
  by (auto simp: native_transfer_def token_transfer_def numeric78_def)

section \<open>The handler and the request of the witnesses\<close>

definition usdc :: token_config where
  "usdc = \<lparr>tk_Symbol = ''USDC'', tk_ContractAddress = 40, tk_Decimals = 6, tk_MaxTransfer = None,
     tk_Enabled = True\<rparr>"

definition sample_token_chain :: chain_config where
  "sample_token_chain = sample_chain\<lparr>ch_TokenWhitelist := [''USDC'' \<mapsto> usdc]\<rparr>"

definition sample_handler :: transfer_handler where
  "sample_handler = NewTransferHandler (LocalSigner sample_lib [(7, 3)]) [(1, sample_token_chain)]
     (NewManager [(1, Client 1)] (LocalSigner sample_lib [(7, 3)]) [(1, sample_token_chain)])"

definition sample_request :: "string \<Rightarrow> string \<Rightarrow> transfer_request" where
  "sample_request token amount = \<lparr>rq_IdempotencyKey = ''k9'', rq_ChainID = 1, rq_Sender = ''0x7'',
     rq_Recipient = ''0x2'', rq_Token = token, rq_Amount = amount, rq_Priority = [],
     rq_Metadata = None\<rparr>"

lemma sample_valid: "validate sample_lib sample_handler (sample_request ''usdc'' ''1.5'') = None"
  by code_simp

lemma sample_amount: "ParseAmountToSmallestUnit ''1.5'' 6 = Inr 1500000"
proof -
  have n: "number_text ''1.5'' ''1'' ''5''" by (simp add: number_text_def is_digit_def)
  then have "TrimSpace ''1.5'' = ''1.5''" using number_text_ends [OF n] by (intro TrimSpace_id) simp
  from parse_trimmed [OF n this, of 6] show ?thesis by (simp add: dec_value_def digit_val_def)
qed

lemma sample_text_contract: "Address_Hex sample_lib 40 = ''0x40''"
  by code_simp

lemma sample_lower: "ToLower ''0x40'' = ''0x40''" "ToUpper ''usdc'' = ''USDC''" "ToUpper ''ETH'' = ''ETH''"
  by code_simp+

lemma sample_token_fields [simp]:
  "ch_NativeTokenSymbol sample_token_chain = ''ETH''"
  "ch_TokenWhitelist sample_token_chain = [''USDC'' \<mapsto> usdc]"
  by (simp_all add: sample_token_chain_def sample_chain_def)

lemma sample_resolve:
  "resolveTransfer sample_lib (sample_request ''usdc'' ''1.5'') sample_token_chain
    = Inr (\<lparr>pm_To = 40, pm_Value = Some 0, pm_Data = Some [1]\<rparr>, ''0x40'', ''erc20'', 6)"
proof -
  let ?req = "sample_request ''usdc'' ''1.5''"
  have check: "check_amount (rq_Amount ?req) (tk_Decimals usdc) (tk_MaxTransfer usdc) t = Inr 1500000" for t
    by (simp add: check_amount_ok sample_request_def usdc_def sample_amount within_limit_def MaxUint256_def)
  have tok: "ToUpper (rq_Token ?req) = ''USDC''" and rec: "HexToAddress sample_lib (rq_Recipient ?req) = 2"
    by (simp_all add: sample_request_def sample_lower)
  have con: "tk_ContractAddress usdc = 40" "tk_Enabled usdc" "tk_Decimals usdc = 6" by (simp_all add: usdc_def)
  have pack: "PackTransfer sample_lib a v = Inr [1]" for a v by (simp add: sample_lib_def)
  show ?thesis
    unfolding resolveTransfer_def tok rec Let_def
    by (simp add: sample_lower check con(2) pack) (simp add: con sample_text_contract sample_lower)
qed

section \<open>Properties\<close>

text \<open>C15: What is signed is what was asked for: a transfer that passes the checks has a positive amount
  of at most the largest uint256 and at most the configured limit; the native coin is sent to the
  recipient with exactly that value and no data, a token transfer calls the contract of an enabled,
  whitelisted token with no value and the packed transfer of exactly that amount to the recipient,
  who is not the contract itself.\<close>

theorem resolveTransfer_bounds:
  assumes "resolveTransfer L req chain = Inr res"
  shows "\<exists>v. ParseAmountToSmallestUnit (rq_Amount req) (snd (snd (snd res))) = Inr v
    \<and> 0 < v \<and> v < 2 ^ 256 \<and> (native_transfer L req chain v res \<or> token_transfer L req chain v res)"
  using resolveTransfer_cases [OF assms] by (simp add: MaxUint256_def) force

theorem resolveTransfer_bounds_witness:
  "token_transfer sample_lib (sample_request ''usdc'' ''1.5'') sample_token_chain 1500000
     (\<lparr>pm_To = 40, pm_Value = Some 0, pm_Data = Some [1]\<rparr>, ''0x40'', ''erc20'', 6)"
  using resolveTransfer_bounds [OF sample_resolve] sample_amount
  by (auto simp: sample_request_def native_transfer_def)

end
