(* ===== verification/ConfigFacts.thy ===== *)
theory ConfigFacts
  imports Config TransferFacts Stuck
begin

text \<open>
  What a configuration that loads guarantees: every key belongs to the address its variable names and
  is gone from the environment, every chain is filed under its own identifier with well-formed
  tokens, and a chain that sets nothing but its nodes gets the defaults.
\<close>

section \<open>Reading the store\<close>

lemma run_loaders [simp]:
  "run_state (set_default V key d) v = ((), vp_SetDefault V key d v)"
  "run_state (reading f) v = (f v, v)"
  by (simp_all add: set_default_def reading_def)

lemma run_bind [simp]:
  "run_state (Monad_Syntax.bind m f) v = (let (a, u) = run_state m v in run_state (f a) u)"
  by (simp add: State_Monad.bind_def case_prod_beta Let_def)

lemmas getter_defs = viperGetOrDefault_def viperGetOrDefaultInt_def viperGetOrDefaultFloat_def
  viperGetOrDefaultBool_def viperGetOrDefaultDuration_def bigIntFromViper_def

section \<open>Keys\<close>

definition key_prefix :: string where
  "key_prefix = ''TX_SENDER_KEYS_''"

definition names_key :: "string \<Rightarrow> bool" where
  "names_key entry = HasPrefix (env_name entry) key_prefix"

definition named_address :: "'key eth_lib \<Rightarrow> string \<Rightarrow> address" where
  "named_address L entry = HexToAddress L (TrimPrefix (env_name entry) key_prefix)"

lemma key_of_entry_cases:
  assumes "key_of_entry L C entry = Ret r"
  shows "r = None \<longleftrightarrow> \<not> names_key entry"
    and "r = Some (Inr (a, k)) \<Longrightarrow> PubkeyToAddress C k = a \<and> a = named_address L entry"
  using assms
  by (auto simp: key_of_entry_def Let_def names_key_def named_address_def env_name_def key_prefix_def
      split: if_splits sum.splits)

lemma load_key_list_cases:
  assumes "load_key_list L C es keys env = Ret (Inr ks, env')"
  shows "distinct (map fst keys) \<Longrightarrow> distinct (map fst ks)"
    and "fst ` set ks = fst ` set keys \<union> named_address L ` {e \<in> set es. names_key e}"
    and "(a, k) \<in> set ks \<Longrightarrow> (a, k) \<in> set keys \<or> PubkeyToAddress C k = a"
    and "set env' = {e \<in> set env. env_name e \<notin> env_name ` {e \<in> set es. names_key e}}"
proof -
  have "(distinct (map fst keys) \<longrightarrow> distinct (map fst ks))
    \<and> fst ` set ks = fst ` set keys \<union> named_address L ` {e \<in> set es. names_key e}
    \<and> (\<forall>(a, k) \<in> set ks. (a, k) \<in> set keys \<or> PubkeyToAddress C k = a)
    \<and> set env' = {e \<in> set env. env_name e \<notin> env_name ` {e \<in> set es. names_key e}}"
    using assms
  proof (induction es arbitrary: keys env)
    case (Cons entry es)
    obtain r where r: "key_of_entry L C entry = Ret r" using Cons.prems by (auto simp: and_then_eq_Ret)
    show ?case
    proof (cases r)
      case None
      then have "\<not> names_key entry" using key_of_entry_cases(1) [OF r] by simp
      then have names: "{e \<in> set (entry # es). names_key e} = {e \<in> set es. names_key e}" by auto
      have "load_key_list L C es keys env = Ret (Inr ks, env')" using Cons.prems r None by simp
      then show ?thesis unfolding names by (rule Cons.IH)
    next
      case (Some x)
      then obtain b p where x: "r = Some (Inr (b, p))" using Cons.prems r by (cases x) (auto split: prod.splits)
      have n: "names_key entry" using key_of_entry_cases(1) [OF r] x by simp
      have b: "PubkeyToAddress C p = b" "b = named_address L entry" using key_of_entry_cases(2) [OF r x] by simp_all
      have names: "{e \<in> set (entry # es). names_key e} = insert entry {e \<in> set es. names_key e}" using n by auto
      have "load_key_list L C es (AList.update b p keys) (Unsetenv (env_name entry) env) = Ret (Inr ks, env')"
        using Cons.prems r x by simp
      note IH = Cons.IH [OF this]
      have "set (AList.update b p keys) \<subseteq> insert (b, p) (set keys)" by (rule set_alist_update)
      then have "\<forall>(a, k) \<in> set ks. (a, k) \<in> set keys \<or> PubkeyToAddress C k = a" using IH b(1) by blast
      moreover have "fst ` set (AList.update b p keys) = insert b (fst ` set keys)" by (simp add: dom_update)
      then have "fst ` set ks = fst ` set keys \<union> named_address L ` insert entry {e \<in> set es. names_key e}"
        using IH b(2) by simp
      moreover have "set env' = {e \<in> set env. env_name e \<notin> env_name ` insert entry {e \<in> set es. names_key e}}"
        using IH by (auto simp: Unsetenv_def)
      moreover have "distinct (map fst keys) \<longrightarrow> distinct (map fst ks)" using IH by (simp add: distinct_update)
      ultimately show ?thesis unfolding names by blast
    qed
  qed auto
  then show "distinct (map fst keys) \<Longrightarrow> distinct (map fst ks)"
    and "fst ` set ks = fst ` set keys \<union> named_address L ` {e \<in> set es. names_key e}"
    and "(a, k) \<in> set ks \<Longrightarrow> (a, k) \<in> set keys \<or> PubkeyToAddress C k = a"
    and "set env' = {e \<in> set env. env_name e \<notin> env_name ` {e \<in> set es. names_key e}}"
    by blast+
qed

section \<open>Chains\<close>

text \<open>A token is filed under its symbol, in capitals, and never under the symbol of the native coin.\<close>

definition tokens_ok :: "chain_config \<Rightarrow> bool" where
  "tokens_ok chain \<longleftrightarrow> (\<forall>s t. ch_TokenWhitelist chain s = Some t \<longrightarrow>
     tk_Symbol t = s \<and> ToUpper s = s \<and> s \<noteq> ToUpper (ch_NativeTokenSymbol chain))"

definition chain_ok :: "u64 \<Rightarrow> chain_config \<Rightarrow> bool" where
  "chain_ok cid chain \<longleftrightarrow> ch_ChainID chain = cid \<and> ch_RPCEndpoints chain \<noteq> []
     \<and> ch_SupportsEIP1559 chain \<and> tokens_ok chain"

lemma upper_char_idem [simp]: "upper_char (upper_char c) = upper_char c"
proof -
  have "of_char c < (256 :: nat)" by simp
  then show ?thesis by (auto simp: upper_char_def Let_def)
qed

lemma ToUpper_idem [simp]: "ToUpper (ToUpper s) = ToUpper s"
  by (simp add: ToUpper_def)

lemma parse_token_ok:
  "run_state (parse_token L V chain p s) v = (Inr t, u) \<Longrightarrow>
    tk_Symbol t = ToUpper s \<and> ToUpper s \<noteq> ToUpper (ch_NativeTokenSymbol chain)"
  by (auto simp: parse_token_def getter_defs Let_def split: if_splits)

lemma parse_token_list_keeps:
  assumes "run_state (parse_token_list L V p ss chain) v = (Inr chain', u)"
  shows "(\<exists>tw. chain' = chain\<lparr>ch_TokenWhitelist := tw\<rparr>) \<and> (tokens_ok chain \<longrightarrow> tokens_ok chain')"
  using assms
proof (induction ss arbitrary: chain v)
  case Nil
  then show ?case by (auto intro!: exI [of _ "ch_TokenWhitelist chain"])
next
  case (Cons s ss)
  obtain t v1 where t: "run_state (parse_token L V chain p s) v = (Inr t, v1)"
    "run_state (parse_token_list L V p ss (chain\<lparr>ch_TokenWhitelist := (ch_TokenWhitelist chain)(tk_Symbol t \<mapsto> t)\<rparr>)) v1
      = (Inr chain', u)"
    using Cons.prems by (auto simp: Let_def split: prod.splits sum.splits)
  have "tokens_ok chain \<Longrightarrow> tokens_ok (chain\<lparr>ch_TokenWhitelist := (ch_TokenWhitelist chain)(tk_Symbol t \<mapsto> t)\<rparr>)"
    using parse_token_ok [OF t(1)] by (auto simp: tokens_ok_def)
  with Cons.IH [OF t(2)] show ?case by fastforce
qed

lemma chain_fields_ok:
  "run_state (chain_fields V cid p) v = (chain, u) \<Longrightarrow>
    ch_ChainID chain = cid \<and> ch_SupportsEIP1559 chain \<and> ch_TokenWhitelist chain = Map.empty"
  by (auto simp: chain_fields_def Let_def split: prod.splits)

lemma chain_limits_ok:
  "run_state (chain_limits V p chain) v = (chain', u) \<Longrightarrow>
    ch_ChainID chain' = ch_ChainID chain \<and> ch_SupportsEIP1559 chain' = ch_SupportsEIP1559 chain
    \<and> ch_TokenWhitelist chain' = ch_TokenWhitelist chain \<and> ch_RPCEndpoints chain' = ch_RPCEndpoints chain
    \<and> ch_GasBumpInterval chain' = ch_GasBumpInterval chain
    \<and> ch_NativeTokenSymbol chain' = ch_NativeTokenSymbol chain
    \<and> ch_NativeTokenDecimals chain' = ch_NativeTokenDecimals chain"
  by (auto simp: chain_limits_def Let_def split: prod.splits)

text \<open>The three stages of \<open>parseChain\<close>.\<close>

definition chain_path :: "u64 \<Rightarrow> string" where
  "chain_path cid = ''chains.'' @ u64_dec cid"

lemma parseChain_run:
  "run_state (parseChain L V cid) v =
    (let (c0, v1) = run_state (chain_fields V cid (chain_path cid)) v;
         urls = vp_GetStringSlice V (chain_path cid @ ''.rpc-urls'') v1 in
     if urls = [] then (Inl (Err ''rpc-urls required''), v1)
     else
       (let (c1, v2) = run_state (chain_limits V (chain_path cid) (c0\<lparr>ch_RPCEndpoints := urls\<rparr>)) v1 in
        run_state (parse_token_list L V (chain_path cid @ ''.tokens'')
          (vp_GetStringMap V (chain_path cid @ ''.tokens'') v2) c1) v2))"
  unfolding parseChain_def parseTokens_def Let_def chain_path_def [symmetric]
  by (simp add: case_prod_beta)

lemma parseChainE:
  assumes "run_state (parseChain L V cid) v = (Inr chain, u)"
  obtains c0 c1 v1 v2 tw where
    "run_state (chain_fields V cid (chain_path cid)) v = (c0, v1)"
    "vp_GetStringSlice V (chain_path cid @ ''.rpc-urls'') v1 \<noteq> []"
    "run_state (chain_limits V (chain_path cid) (c0\<lparr>ch_RPCEndpoints :=
       vp_GetStringSlice V (chain_path cid @ ''.rpc-urls'') v1\<rparr>)) v1 = (c1, v2)"
    "chain = c1\<lparr>ch_TokenWhitelist := tw\<rparr>" "tokens_ok c1 \<longrightarrow> tokens_ok chain"
proof -
  let ?p = "chain_path cid"
  obtain c0 v1 where c0: "run_state (chain_fields V cid ?p) v = (c0, v1)"
    by (cases "run_state (chain_fields V cid ?p) v")
  have rpc: "vp_GetStringSlice V (?p @ ''.rpc-urls'') v1 \<noteq> []"
    using assms c0 by (auto simp: parseChain_run)
  obtain c1 v2 where c1: "run_state (chain_limits V ?p (c0\<lparr>ch_RPCEndpoints :=
      vp_GetStringSlice V (?p @ ''.rpc-urls'') v1\<rparr>)) v1 = (c1, v2)"
    by (cases "run_state (chain_limits V ?p (c0\<lparr>ch_RPCEndpoints :=
      vp_GetStringSlice V (?p @ ''.rpc-urls'') v1\<rparr>)) v1")
  have "run_state (parse_token_list L V (?p @ ''.tokens'') (vp_GetStringMap V (?p @ ''.tokens'') v2) c1) v2
      = (Inr chain, u)"
    using assms c0 rpc c1 by (simp add: parseChain_run)
  from parse_token_list_keeps [OF this] c0 rpc c1 that show ?thesis by auto
qed

lemma parseChain_ok: "run_state (parseChain L V cid) v = (Inr chain, u) \<Longrightarrow> chain_ok cid chain"
proof (elim parseChainE)
  fix c0 c1 v1 v2 tw
  assume c0: "run_state (chain_fields V cid (chain_path cid)) v = (c0, v1)"
    and c1: "run_state (chain_limits V (chain_path cid) (c0\<lparr>ch_RPCEndpoints :=
       vp_GetStringSlice V (chain_path cid @ ''.rpc-urls'') v1\<rparr>)) v1 = (c1, v2)"
    and rest: "vp_GetStringSlice V (chain_path cid @ ''.rpc-urls'') v1 \<noteq> []"
      "chain = c1\<lparr>ch_TokenWhitelist := tw\<rparr>" "tokens_ok c1 \<longrightarrow> tokens_ok chain"
  have "tokens_ok c1" using chain_limits_ok [OF c1] chain_fields_ok [OF c0] by (simp add: tokens_ok_def)
  then show "chain_ok cid chain"
    using chain_limits_ok [OF c1] chain_fields_ok [OF c0] rest by (simp add: chain_ok_def)
qed

definition chains_ok :: "(u64 \<times> chain_config) list \<Rightarrow> bool" where
  "chains_ok cs \<longleftrightarrow> distinct (map fst cs) \<and> (\<forall>(cid, chain) \<in> set cs. chain_ok cid chain)"

lemma chains_ok_update: "chains_ok cs \<Longrightarrow> chain_ok cid chain \<Longrightarrow> chains_ok (AList.update cid chain cs)"
  using set_alist_update [of cid chain cs] by (auto simp: chains_ok_def distinct_update)

lemma load_chain_list_ok:
  assumes "run_state (load_chain_list L V ids acc) v = (Inr cs, u)" and "chains_ok acc"
  shows "chains_ok cs"
  using assms
proof (induction ids arbitrary: acc v)
  case (Cons i ids)
  obtain cid where cid: "ParseUint i = Some cid"
    using Cons.prems(1) by (auto split: option.splits)
  obtain chain v1 where chain: "run_state (parseChain L V cid) v = (Inr chain, v1)"
    "run_state (load_chain_list L V ids (AList.update cid chain acc)) v1 = (Inr cs, u)"
    using Cons.prems(1) cid by (auto simp: Let_def split: prod.splits sum.splits)
  show ?case
    using Cons.IH [OF chain(2)] chains_ok_update [OF Cons.prems(2) parseChain_ok [OF chain(1)]] by simp
qed simp

lemma loadChains_ok: "run_state (loadChains L V) v = (Inr cs, u) \<Longrightarrow> chains_ok cs"
  using load_chain_list_ok [of L V _ "[]"] by (simp add: loadChains_def) (simp add: chains_ok_def)

section \<open>Loading\<close>

definition config_ok :: "'key crypto_lib \<Rightarrow> 'key config \<Rightarrow> bool" where
  "config_ok C cfg \<longleftrightarrow> dc_URL (cf_Database cfg) \<noteq> [] \<and> cf_Chains cfg \<noteq> [] \<and> chains_ok (cf_Chains cfg)
     \<and> cf_Keys cfg \<noteq> [] \<and> distinct (map fst (cf_Keys cfg))
     \<and> (\<forall>(a, k) \<in> set (cf_Keys cfg). PubkeyToAddress C k = a)"

text \<open>The end of \<open>Load\<close>, once the chains are loaded.\<close>

definition finish_load ::
    "server_config \<Rightarrow> database_config \<Rightarrow> (u64 \<times> chain_config) list
      \<Rightarrow> (go_error + 'key key_map) \<times> string list \<Rightarrow> ((go_error + 'key config) \<times> string list) outcome" where
  "finish_load server database cs = (\<lambda>(loaded, env1).
     (case loaded of
        Inl e \<Rightarrow> Ret (Inl (Err (''loading keys: '' @ err_text e)), env1)
      | Inr [] \<Rightarrow> Ret (Inl (Err ''no signer keys configured''), env1)
      | Inr (k # ks) \<Rightarrow> Ret (Inr \<lparr>cf_Server = server, cf_Database = database,
          cf_Chains = cs, cf_Keys = k # ks\<rparr>, env1)))"

lemma Load_stages:
  assumes "run_state (read_config_file V) (vp_AutomaticEnv V v0) = (None, v1)"
    and "run_state (parse_server V) v1 = (server, v2)" and "run_state (parse_database V) v2 = (database, v3)"
    and "run_state (loadChains L V) v3 = (Inr cs, v4)" and "dc_URL database \<noteq> []" and "cs \<noteq> []"
  shows "Load L C V v0 env = and_then (loadKeys L C env) (finish_load server database cs)"
  using assms by (cases cs) (simp_all add: Load_def Let_def finish_load_def)

lemma finish_load_ok:
  "finish_load server database cs (loaded, env1) = Ret (Inr cfg, env') \<Longrightarrow>
    loaded = Inr (cf_Keys cfg) \<and> cf_Keys cfg \<noteq> [] \<and> cf_Database cfg = database \<and> cf_Chains cfg = cs
    \<and> env1 = env'"
  by (auto simp: finish_load_def split: sum.splits list.splits)

lemma Load_cases:
  assumes "Load L C V v0 env = Ret (Inr cfg, env')"
  shows "\<exists>v u. run_state (loadChains L V) v = (Inr (cf_Chains cfg), u)
    \<and> loadKeys L C env = Ret (Inr (cf_Keys cfg), env')
    \<and> dc_URL (cf_Database cfg) \<noteq> [] \<and> cf_Chains cfg \<noteq> [] \<and> cf_Keys cfg \<noteq> []"
proof -
  obtain fe v1 where 1: "run_state (read_config_file V) (vp_AutomaticEnv V v0) = (fe, v1)"
    by (cases "run_state (read_config_file V) (vp_AutomaticEnv V v0)")
  obtain server v2 where 2: "run_state (parse_server V) v1 = (server, v2)"
    by (cases "run_state (parse_server V) v1")
  obtain database v3 where 3: "run_state (parse_database V) v2 = (database, v3)"
    by (cases "run_state (parse_database V) v2")
  obtain r v4 where 4: "run_state (loadChains L V) v3 = (r, v4)" by (cases "run_state (loadChains L V) v3")
  have fe: "fe = None" using assms 1 by (auto simp: Load_def split: option.splits)
  moreover have url: "dc_URL database \<noteq> []" using assms 1 2 3 fe by (auto simp: Load_def)
  moreover obtain cs where r: "r = Inr cs" "cs \<noteq> []"
    using assms 1 2 3 4 fe url by (cases r) (auto simp: Load_def split: list.splits)
  ultimately have "and_then (loadKeys L C env) (finish_load server database cs) = Ret (Inr cfg, env')"
    using Load_stages [of V v0 v1 server v2 database v3 L cs v4 C env] 1 2 3 4 assms by simp
  then obtain loaded env1 where k: "loadKeys L C env = Ret (loaded, env1)"
    "finish_load server database cs (loaded, env1) = Ret (Inr cfg, env')" by auto
  from finish_load_ok [OF k(2)] k(1) 4 r url show ?thesis by auto
qed

lemma Load_config_ok: "Load L C V v0 env = Ret (Inr cfg, env') \<Longrightarrow> config_ok C cfg"
proof -
  assume load: "Load L C V v0 env = Ret (Inr cfg, env')"
  obtain v u where c: "run_state (loadChains L V) v = (Inr (cf_Chains cfg), u)"
    and k: "loadKeys L C env = Ret (Inr (cf_Keys cfg), env')"
    and n: "dc_URL (cf_Database cfg) \<noteq> []" "cf_Chains cfg \<noteq> []" "cf_Keys cfg \<noteq> []"
    using Load_cases [OF load] by blast
  note keys = load_key_list_cases [OF k [unfolded loadKeys_def]]
  have "\<forall>(a, k) \<in> set (cf_Keys cfg). PubkeyToAddress C k = a" using keys(3) by fastforce
  with loadChains_ok [OF c] keys(1) n show ?thesis by (simp add: config_ok_def)
qed

section \<open>A store for the witnesses\<close>

text \<open>Values of a file, by key, over the defaults.\<close>

definition sample_viper :: "(string \<Rightarrow> string option) \<Rightarrow> (string \<Rightarrow> viper_value option) viper_lib" where
  "sample_viper file = \<lparr>vp_SetDefault = (\<lambda>k d v. v(k := Some d)),
     vp_GetString = (\<lambda>k v. case file k of Some s \<Rightarrow> s
       | None \<Rightarrow> (case v k of Some (VString s) \<Rightarrow> s | _ \<Rightarrow> [])),
     vp_GetInt = (\<lambda>k v. case v k of Some (VInt i) \<Rightarrow> i | _ \<Rightarrow> 0),
     vp_GetFloat64 = (\<lambda>k v. case v k of Some (VFloat x) \<Rightarrow> x | _ \<Rightarrow> 0),
     vp_GetBool = (\<lambda>k v. v k = Some (VBool True)),
     vp_GetStringSlice = (\<lambda>k v. [''a'']), vp_GetStringMap = (\<lambda>k v. if k = ''chains'' then [''1''] else []),
     vp_AutomaticEnv = id, vp_ReadInConfig = (\<lambda>p t v. (None, v)), vp_Stat = (\<lambda>p. False)\<rparr>"

lemma sample_viper_fields [simp]:
  "vp_GetStringSlice (sample_viper file) k v = [''a'']"
  "vp_GetStringMap (sample_viper file) k v = (if k = ''chains'' then [''1''] else [])"
  "file k = Some s \<Longrightarrow> vp_GetString (sample_viper file) k v = s"
  "vp_Stat (sample_viper file) p = False" "vp_AutomaticEnv (sample_viper file) = id"
  by (simp_all add: sample_viper_def)

definition url_file :: "string \<Rightarrow> string option" where
  "url_file k = (if k = ''database.url'' then Some ''postgres'' else None)"

definition sample_crypto :: "nat crypto_lib" where
  "sample_crypto = \<lparr>HexToECDSA = (\<lambda>s. Inr (length s)), PubkeyToAddress = of_nat\<rparr>"

definition sample_env :: "string list" where
  "sample_env = [''HOME=/'', ''TX_SENDER_KEYS_0x7=0x1234567'']"

text \<open>Every chain of that store loads: it has nodes and no tokens.\<close>

lemma sample_parseChain:
  "\<exists>chain u. run_state (parseChain L (sample_viper file) cid) v = (Inr chain, u)"
proof -
  have "chain_path cid @ ''.tokens'' \<noteq> ''chains''" by (simp add: chain_path_def)
  then show ?thesis by (simp add: parseChain_run Let_def case_prod_beta)
qed

lemma sample_entry:
  "key_of_entry sample_lib sample_crypto ''HOME=/'' = Ret None"
  "key_of_entry sample_lib sample_crypto ''TX_SENDER_KEYS_0x7=0x1234567'' = Ret (Some (Inr (7, 7)))"
  by code_simp+

lemma sample_loadKeys: "loadKeys sample_lib sample_crypto sample_env = Ret (Inr [(7, 7)], [''HOME=/''])"
proof -
  have "env_name ''HOME=/'' = ''HOME''" "env_name ''TX_SENDER_KEYS_0x7=0x1234567'' = ''TX_SENDER_KEYS_0x7''"
    by code_simp+
  then show ?thesis by (simp add: loadKeys_def sample_env_def sample_entry Unsetenv_def)
qed

lemma sample_loadChains:
  "\<exists>chain u. run_state (loadChains L (sample_viper file)) v = (Inr [(1, chain)], u)"
proof -
  have one: "ParseUint ''1'' = Some 1"
    by (simp add: ParseUint_def scan_nat_def is_digit_def digit_val_def)
  obtain chain u where "run_state (parseChain L (sample_viper file) 1) v = (Inr chain, u)"
    using sample_parseChain by blast
  then show ?thesis by (simp add: loadChains_def one)
qed

lemma sample_Load:
  "\<exists>cfg. Load sample_lib sample_crypto (sample_viper url_file) Map.empty sample_env = Ret (Inr cfg, [''HOME=/''])"
proof -
  let ?V = "sample_viper url_file"
  obtain v1 where 1: "run_state (read_config_file ?V) (vp_AutomaticEnv ?V Map.empty) = (None, v1)"
    by (simp add: read_config_file_def getter_defs)
  obtain server v2 where 2: "run_state (parse_server ?V) v1 = (server, v2)" by (cases "run_state (parse_server ?V) v1")
  obtain database v3 where 3: "run_state (parse_database ?V) v2 = (database, v3)"
    by (cases "run_state (parse_database ?V) v2")
  have url: "dc_URL database \<noteq> []"
    using 3 by (auto simp: parse_database_def getter_defs Let_def url_file_def split: prod.splits)
  obtain chain v4 where 4: "run_state (loadChains sample_lib ?V) v3 = (Inr [(1, chain)], v4)"
    using sample_loadChains by blast
  show ?thesis
    using Load_stages [OF 1 2 3 4 url] by (simp add: sample_loadKeys finish_load_def)
qed

text \<open>The settings of a chain that are left to their defaults.\<close>

definition unset :: "'v viper_lib \<Rightarrow> string \<Rightarrow> bool" where
  "unset V key \<longleftrightarrow> (\<forall>v s. vp_GetString V key (vp_SetDefault V key (VString s) v) = s)
     \<and> (\<forall>v i. vp_GetInt V key (vp_SetDefault V key (VInt i) v) = i)
     \<and> (\<forall>v x. vp_GetFloat64 V key (vp_SetDefault V key (VFloat x) v) = x)"

lemma run_unset:
  assumes "unset V key"
  shows "run_state (viperGetOrDefault V key s) v = (s, vp_SetDefault V key (VString s) v)"
    and "run_state (viperGetOrDefaultInt V key i) v = (i, vp_SetDefault V key (VInt i) v)"
    and "run_state (viperGetOrDefaultFloat V key x) v = (x, vp_SetDefault V key (VFloat x) v)"
    and "secs < 1000000000 \<Longrightarrow> run_state (viperGetOrDefaultDuration V key secs) v
      = (int secs * 1000000, vp_SetDefault V key (VString (Duration_String secs)) v)"
  using assms by (simp_all add: unset_def getter_defs parse_Duration_String us_of_ns_def)

definition default_settings :: "string list" where
  "default_settings = [''name'', ''block-time'', ''confirmation-blocks'', ''gas-limit-multiplier'',
     ''receipt-chunk-size'', ''stuck-threshold'', ''gas-bump-interval'', ''native-symbol'',
     ''native-decimals'']"

definition limit_settings :: "string list" where
  "limit_settings = [''min-max-fee'', ''max-max-fee'', ''min-priority-fee'', ''max-priority-fee'',
     ''native-max-transfer'']"

definition chain_key :: "u64 \<Rightarrow> string \<Rightarrow> string" where
  "chain_key cid s = chain_path cid @ ''.'' @ s"

definition default_chain :: "u64 \<Rightarrow> chain_config" where
  "default_chain cid = \<lparr>ch_ChainID = cid, ch_Name = ''chain-'' @ u64_dec cid,
     ch_RPCEndpoints = [], ch_BlockTime = 12000000, ch_ConfirmationBlocks = 12,
     ch_SupportsEIP1559 = True, ch_GasLimitMultiplier = f64_round (6 / 5), ch_MinMaxFee = None,
     ch_MaxMaxFee = None, ch_MinPriorityFee = None, ch_MaxPriorityFee = None,
     ch_ReceiptChunkSize = 50, ch_StuckThreshold = 180000000, ch_GasBumpInterval = 30000000,
     ch_NativeTokenSymbol = ''ETH'', ch_NativeTokenDecimals = 18, ch_NativeMaxTransfer = None,
     ch_TokenWhitelist = Map.empty\<rparr>"

lemma chain_fields_default:
  assumes "\<forall>s \<in> set default_settings. unset V (chain_key cid s)"
  shows "\<exists>v1. run_state (chain_fields V cid (chain_path cid)) v = (default_chain cid, v1)"
  using assms
  by (simp add: default_settings_def chain_key_def chain_fields_def run_unset default_chain_def)

lemma bigIntFromViper_run:
  "run_state (bigIntFromViper V key) v
    = (if vp_GetString V key v = [] then None else SetString10 (vp_GetString V key v), v)"
  by (simp add: bigIntFromViper_def)

section \<open>Properties\<close>

text \<open>C20: Every signing key is the key of the address it is filed under: a key is loaded from each
  variable TX_SENDER_KEYS_<address>, only when its derived address is that address; each address has
  one key; and no such variable is left in the environment of the process afterwards.\<close>

theorem loadKeys_verified:
  assumes "loadKeys L C env = Ret (Inr keys, env')"
  shows "distinct (map fst keys) \<and> (\<forall>(a, k) \<in> set keys. PubkeyToAddress C k = a)
    \<and> fst ` set keys = named_address L ` {e \<in> set env. names_key e}
    \<and> set env' = {e \<in> set env. \<not> names_key e}"
proof -
  note keys = load_key_list_cases [OF assms [unfolded loadKeys_def]]
  have "\<forall>(a, k) \<in> set keys. PubkeyToAddress C k = a" using keys(3) by fastforce
  moreover have "env_name e \<in> env_name ` {e \<in> set env. names_key e} \<longleftrightarrow> names_key e" if "e \<in> set env" for e
    using that by (metis (mono_tags, lifting) imageE image_eqI mem_Collect_eq names_key_def)
  then have "set env' = {e \<in> set env. \<not> names_key e}" unfolding keys(4) by blast
  ultimately show ?thesis using keys(1,2) by simp
qed

theorem loadKeys_verified_witness:
  "\<exists>keys env'. loadKeys sample_lib sample_crypto sample_env = Ret (Inr keys, env')
     \<and> (\<forall>(a, k) \<in> set keys. PubkeyToAddress sample_crypto k = a)"
  using loadKeys_verified [OF sample_loadKeys] sample_loadKeys by blast

text \<open>C21: A configuration that loads is well formed: it names a database, at least one chain and at least
  one signing key; every chain is filed once, under its own identifier, has at least one node, and
  lists each token under its capitalised symbol, never under the symbol of the native coin; every key
  is the key of its address.\<close>

theorem Load_well_formed:
  assumes "Load L C V v0 env = Ret (Inr cfg, env')"
  shows "config_ok C cfg"
  using assms by (rule Load_config_ok)

theorem Load_well_formed_witness:
  "\<exists>cfg. Load sample_lib sample_crypto (sample_viper url_file) Map.empty sample_env = Ret (Inr cfg, [''HOME=/''])
     \<and> config_ok sample_crypto cfg"
proof -
  obtain cfg where cfg: "Load sample_lib sample_crypto (sample_viper url_file) Map.empty sample_env
      = Ret (Inr cfg, [''HOME=/''])" using sample_Load by blast
  from Load_well_formed [OF this] cfg show ?thesis by blast
qed

text \<open>The defaults: a chain for which only nodes are configured gets the name chain-<id>, blocks of
  12 seconds, 12 confirmations, a gas multiplier of 1.2, chunks of 50 receipts, 180 seconds until a
  transaction is stuck, a bump every 30 seconds, the native coin ETH with 18 decimals, and no limits
  on fees or amounts.\<close>

lemma parseChain_defaults:
  assumes "\<forall>s \<in> set default_settings. unset V (chain_key cid s)"
    and "\<forall>s \<in> set limit_settings. \<forall>v. vp_GetString V (chain_key cid s) v = []"
    and "\<forall>v. vp_GetStringSlice V (chain_key cid ''rpc-urls'') v = urls" and "urls \<noteq> []"
    and "\<forall>v. vp_GetStringMap V (chain_key cid ''tokens'') v = []"
  shows "\<exists>u. run_state (parseChain L V cid) v = (Inr \<lparr>ch_ChainID = cid, ch_Name = ''chain-'' @ u64_dec cid,
     ch_RPCEndpoints = urls, ch_BlockTime = 12000000, ch_ConfirmationBlocks = 12,
     ch_SupportsEIP1559 = True, ch_GasLimitMultiplier = f64_round (6 / 5), ch_MinMaxFee = None,
     ch_MaxMaxFee = None, ch_MinPriorityFee = None, ch_MaxPriorityFee = None,
     ch_ReceiptChunkSize = 50, ch_StuckThreshold = 180000000, ch_GasBumpInterval = 30000000,
     ch_NativeTokenSymbol = ''ETH'', ch_NativeTokenDecimals = 18, ch_NativeMaxTransfer = None,
     ch_TokenWhitelist = Map.empty\<rparr>, u)"
proof -
  obtain v1 where fields: "run_state (chain_fields V cid (chain_path cid)) v = (default_chain cid, v1)"
    using chain_fields_default [OF assms(1)] by blast
  have limits: "run_state (chain_limits V (chain_path cid) c) u = (c\<lparr>ch_MinMaxFee := None, ch_MaxMaxFee := None,
      ch_MinPriorityFee := None, ch_MaxPriorityFee := None, ch_NativeMaxTransfer := None\<rparr>, u)" for c u
    using assms(2) by (simp add: limit_settings_def chain_key_def chain_limits_def bigIntFromViper_run)
  show ?thesis
    using assms(3-5) by (simp add: parseChain_run fields limits chain_key_def default_chain_def)
qed

lemma parseChain_defaults_witness:
  "\<exists>V chain u. run_state (parseChain sample_lib V 1) (Map.empty :: string \<Rightarrow> viper_value option) = (Inr chain, u)
     \<and> ch_RPCEndpoints chain = [''a''] \<and> ch_StuckThreshold chain = 180000000"
proof -
  define V where "V = sample_viper (\<lambda>k. if k \<in> chain_key 1 ` set limit_settings then Some [] else None)"
  have "inj (chain_key 1)" by (auto simp: inj_def chain_key_def)
  then have "chain_key 1 s \<notin> chain_key 1 ` set limit_settings" if "s \<notin> set limit_settings" for s
    using that by (simp add: inj_image_mem_iff)
  moreover have "s \<notin> set limit_settings" if "s \<in> set default_settings" for s
    using that by (auto simp: default_settings_def limit_settings_def)
  ultimately have "unset V (chain_key 1 s)" if "s \<in> set default_settings" for s
    using that by (simp add: unset_def V_def sample_viper_def)
  moreover have "vp_GetString V (chain_key 1 s) v = []" if "s \<in> set limit_settings" for s v
    using that by (simp add: V_def)
  moreover have "vp_GetStringMap V (chain_key 1 ''tokens'') v = []" for v
    by (simp add: V_def chain_key_def chain_path_def)
  moreover have "vp_GetStringSlice V k v = [''a'']" for k v by (simp add: V_def)
  ultimately obtain u where "run_state (parseChain sample_lib V 1) Map.empty
      = (Inr ((default_chain 1)\<lparr>ch_RPCEndpoints := [''a'']\<rparr>), u)"
    using parseChain_defaults [of V 1 "[''a'']" sample_lib Map.empty] by (auto simp: default_chain_def)
  moreover have "ch_RPCEndpoints ((default_chain 1)\<lparr>ch_RPCEndpoints := [''a'']\<rparr>) = [''a'']"
    "ch_StuckThreshold ((default_chain 1)\<lparr>ch_RPCEndpoints := [''a'']\<rparr>) = 180000000"
    by (simp_all add: default_chain_def)
  ultimately show ?thesis by blast
qed

text \<open>A limit that is not a plain decimal number is no limit: when the configured maximum of a native
  transfer does not parse, for instance because it is written in scientific notation, the chain loads
  without an error, and every amount up to the largest uint256 is accepted.\<close>

lemma unparsed_limit_is_no_limit:
  assumes "\<forall>v. vp_GetString V (chain_key cid ''native-max-transfer'') v = s" and "SetString10 s = None"
    and "run_state (parseChain K V cid) v = (Inr chain, u)"
    and "ToUpper (rq_Token req) = ToUpper (ch_NativeTokenSymbol chain)"
    and "ParseAmountToSmallestUnit (rq_Amount req) (ch_NativeTokenDecimals chain) = Inr n"
    and "0 < n" and "n \<le> MaxUint256"
  shows "resolveTransfer L req chain = Inr (\<lparr>pm_To = HexToAddress L (rq_Recipient req), pm_Value = Some n,
    pm_Data = None\<rparr>, [], ''native'', ch_NativeTokenDecimals chain)"
proof -
  have "ch_NativeMaxTransfer c' = None" if "run_state (chain_limits V (chain_path cid) c) w = (c', w')" for c c' w w'
    using that assms(1,2) by (auto simp: chain_limits_def bigIntFromViper_run Let_def chain_key_def)
  then have "ch_NativeMaxTransfer chain = None" using assms(3) by (elim parseChainE) simp
  then show ?thesis
    using assms(4-7) by (simp add: resolveTransfer_def check_amount_def)
qed

lemma unparsed_limit_is_no_limit_witness:
  "\<exists>V chain u r. run_state (parseChain sample_lib V 1) (Map.empty :: string \<Rightarrow> viper_value option) = (Inr chain, u)
     \<and> resolveTransfer sample_lib (sample_request ''eth'' ''1.5'') chain = Inr r"
proof -
  define V where "V = sample_viper [chain_key 1 ''native-max-transfer'' \<mapsto> ''1e18'']"
  obtain chain u where run: "run_state (parseChain sample_lib V 1) Map.empty = (Inr chain, u)"
    unfolding V_def using sample_parseChain by blast
  have "chain_key 1 s \<noteq> chain_key 1 ''native-max-transfer''" if "s \<in> set default_settings" for s
    using that by (auto simp: default_settings_def chain_key_def)
  then have "unset V (chain_key 1 s)" if "s \<in> set default_settings" for s
    using that by (simp add: unset_def V_def sample_viper_def)
  then obtain v1 where "run_state (chain_fields V 1 (chain_path 1)) Map.empty = (default_chain 1, v1)"
    using chain_fields_default [of V 1 Map.empty] by auto
  then have chain: "ch_NativeTokenSymbol chain = ''ETH''" "ch_NativeTokenDecimals chain = 18"
    using run by (elim parseChainE; auto simp: default_chain_def dest!: chain_limits_ok)+
  have n: "number_text ''1.5'' ''1'' ''5''" by (simp add: number_text_def is_digit_def)
  then have "TrimSpace ''1.5'' = ''1.5''" using number_text_ends [OF n] by (intro TrimSpace_id) simp
  from parse_trimmed [OF n this, of 18]
  have amount: "ParseAmountToSmallestUnit ''1.5'' 18 = Inr 1500000000000000000"
    by (simp add: dec_value_def digit_val_def)
  have "ToUpper ''eth'' = ''ETH''" "ToUpper ''ETH'' = ''ETH''" by code_simp+
  with unparsed_limit_is_no_limit [of V 1 "''1e18''" sample_lib Map.empty chain u
      "sample_request ''eth'' ''1.5''" 1500000000000000000 sample_lib] run chain amount
  have "resolveTransfer sample_lib (sample_request ''eth'' ''1.5'') chain = Inr (\<lparr>pm_To = HexToAddress sample_lib ''0x2'',
      pm_Value = Some 1500000000000000000, pm_Data = None\<rparr>, [], ''native'', 18)"
    by (simp add: V_def sample_request_def MaxUint256_def SetString10_def scan_nat_def is_digit_def)
  with run show ?thesis by blast
qed

text \<open>A bump interval of zero, which the configuration accepts, crashes the service: the ticker of the
  stuck detector panics on it.\<close>

lemma zero_interval_panics:
  assumes "\<forall>v. vp_GetString V (chain_key cid ''gas-bump-interval'') v = ''0s''"
    and "run_state (parseChain K V cid) v = (Inr chain, u)"
  shows "Run_detector rounds L (NewStuckDetector chain c sg (ch_GasBumpInterval chain)) w = Panic"
proof -
  have zero: "ParseDuration ''0s'' = Some 0"
  proof -
    have "Duration_String 0 = ''0s''" by code_simp
    with parse_Duration_String [of 0] show ?thesis by simp
  qed
  have "ch_GasBumpInterval c' = 0" if "run_state (chain_fields V cid (chain_path cid)) w = (c', w')" for c' w w'
    using that assms(1) by (auto simp: chain_fields_def getter_defs Let_def chain_key_def zero us_of_ns_def
        split: prod.splits)
  then have "ch_GasBumpInterval chain = 0"
    using assms(2) by (elim parseChainE) (auto dest!: chain_limits_ok)
  then show ?thesis by (simp add: Run_detector_def NewStuckDetector_def run_ticker_def)
qed

lemma zero_interval_panics_witness:
  "\<exists>chain u. run_state (parseChain sample_lib (sample_viper (\<lambda>k. Some ''0s'')) 1) Map.empty = (Inr chain, u)
     \<and> Run_detector 1 sample_lib (NewStuckDetector chain (Client 1) (LocalSigner sample_lib [(7, 3)])
         (ch_GasBumpInterval chain)) (sample_world one_up queued_db) = Panic"
proof -
  obtain chain u where run: "run_state (parseChain sample_lib (sample_viper (\<lambda>k. Some ''0s'')) 1) Map.empty
      = (Inr chain, u)" using sample_parseChain by blast
  have "\<forall>v. vp_GetString (sample_viper (\<lambda>k. Some ''0s'')) (chain_key 1 ''gas-bump-interval'') v = ''0s''" by simp
  from zero_interval_panics [OF this run] run show ?thesis by blast
qed

end
