(* ===== verification/ManagerFacts.thy ===== *)
theory ManagerFacts
  imports Manager PipelineFacts
begin

text \<open>
  What the manager guarantees: one pipeline per sender and chain, whose map entry wakes it; crash
  recovery that keeps the invariants as long as the nodes know every recorded nonce; and what
  happens when they do not, or when a crash left an attempt behind.
\<close>

section \<open>The goroutines\<close>

definition routine_pipelines :: "goroutine list \<Rightarrow> pipeline list" where
  "routine_pipelines gs =
     concat (map (\<lambda>g. case g of PipelineRoutine p \<Rightarrow> [p] | _ \<Rightarrow> []) gs)"

lemma routine_pipelines_append [simp]:
  "routine_pipelines (gs @ hs) = routine_pipelines gs @ routine_pipelines hs"
  "routine_pipelines [] = []" "routine_pipelines [PipelineRoutine p] = [p]"
  by (simp_all add: routine_pipelines_def)

lemma routine_pipelines_workers [simp]: "routine_pipelines (start_workers m cs) = []"
  by (induction m cs rule: start_workers.induct) (auto simp: routine_pipelines_def split: option.splits)

text \<open>The pair a pipeline serves, and the pairs of a chain.\<close>

definition serves :: "pipeline \<Rightarrow> address \<times> u64" where
  "serves p = (pl_sender p, pl_chainID p)"

lemma serves_NewPipeline [simp]: "serves (NewPipeline a chain c sg) = (a, ch_ChainID chain)"
  by (simp add: serves_def pl_chainID_def NewPipeline_def)

lemma start_senders_pipelines:
  "map serves (routine_pipelines (snd (start_senders L m cid chain c addrs acc)))
    = map serves (routine_pipelines (snd acc)) @ map (\<lambda>a. (a, ch_ChainID chain)) addrs"
  by (induction addrs arbitrary: acc) (simp_all add: Let_def)

text \<open>The entries of the map are filed under the key their pipeline listens to.\<close>

definition filed :: "'key eth_lib \<Rightarrow> (string \<times> pipeline) list \<Rightarrow> bool" where
  "filed L ps \<longleftrightarrow> (\<forall>(k, p) \<in> set ps. k = pipelineID L p)"

lemma filed_update: "filed L ps \<Longrightarrow> k = pipelineID L p \<Longrightarrow> filed L (AList.update k p ps)"
  using set_alist_update [of k p ps] by (auto simp: filed_def)

lemma pipelineID_NewPipeline [simp]:
  "pipelineID L (NewPipeline a chain c sg) = pipeline_key (Address_Hex L a) (ch_ChainID chain)"
  by (simp add: pipelineID_def pipeline_key_def senderHex_def pl_chainID_def NewPipeline_def)

lemma start_senders_filed:
  "filed L (fst acc) \<Longrightarrow> ch_ChainID chain = cid \<Longrightarrow>
    filed L (fst (start_senders L m cid chain c addrs acc))
    \<and> fst ` set (fst (start_senders L m cid chain c addrs acc))
        = fst ` set (fst acc) \<union> (\<lambda>a. pipeline_key (Address_Hex L a) cid) ` set addrs"
  by (induction addrs arbitrary: acc) (auto simp: Let_def filed_update dom_update)

section \<open>The client of Start\<close>

text \<open>The chains that get workers.\<close>

definition served_chains :: "manager \<Rightarrow> (u64 \<times> chain_config) list \<Rightarrow> u64 set" where
  "served_chains m cs = fst ` set cs \<inter> dom (map_of (mg_clients m))"

lemma served_chains_simps [simp]:
  "served_chains m [] = {}"
  "map_of (mg_clients m) cid = None \<Longrightarrow> served_chains m ((cid, chain) # cs) = served_chains m cs"
  "map_of (mg_clients m) cid = Some c \<Longrightarrow>
     served_chains m ((cid, chain) # cs) = insert cid (served_chains m cs)"
  by (auto simp: served_chains_def dom_def)

lemma times_pairs: "(\<lambda>a. (a, c)) ` A = A \<times> {c}"
  by auto

locale manager_env = s: tx_signer "mg_signer m" for m :: manager
begin

lemma start_pipelines_serve:
  assumes "start_pipelines L m cs acc w = (acc', v)"
    and "\<forall>(cid, chain) \<in> set cs. ch_ChainID chain = cid" and "distinct (map fst cs)"
    and "distinct (map serves (routine_pipelines (snd acc)))"
    and "\<forall>p \<in> set (routine_pipelines (snd acc)). snd (serves p) \<notin> fst ` set cs"
  shows "distinct (map serves (routine_pipelines (snd acc')))
    \<and> serves ` set (routine_pipelines (snd acc')) = serves ` set (routine_pipelines (snd acc))
        \<union> {a. sg_HasAddress (mg_signer m) a} \<times> served_chains m cs"
  using assms
proof (induction cs arbitrary: acc w)
  case Nil
  then show ?case by simp
next
  case (Cons e cs)
  obtain cid chain where e: "e = (cid, chain)" by (cases e)
  show ?case
  proof (cases "map_of (mg_clients m) cid")
    case None
    with Cons.prems e have "start_pipelines L m cs acc w = (acc', v)" by simp
    then have "distinct (map serves (routine_pipelines (snd acc')))
      \<and> serves ` set (routine_pipelines (snd acc')) = serves ` set (routine_pipelines (snd acc))
        \<union> {a. sg_HasAddress (mg_signer m) a} \<times> served_chains m cs"
      using Cons.prems(2-5) e by (intro Cons.IH) simp_all
    with e None show ?thesis by simp
  next
    case (Some c)
    let ?as = "sg_Addresses (mg_signer m) w"
    define acc1 where "acc1 = start_senders L m cid chain c ?as acc"
    have run: "start_pipelines L m cs acc1 (tick w) = (acc', v)"
      using Cons.prems(1) e Some by (simp add: acc1_def)
    have ch: "ch_ChainID chain = cid" using Cons.prems(2) e by simp
    have added: "map serves (routine_pipelines (snd acc1))
        = map serves (routine_pipelines (snd acc)) @ map (\<lambda>a. (a, cid)) ?as"
      using start_senders_pipelines [of L m cid chain c ?as acc] by (simp add: acc1_def ch)
    have "serves ` set (routine_pipelines (snd acc1)) = set (map serves (routine_pipelines (snd acc1)))"
      by simp
    then have set: "serves ` set (routine_pipelines (snd acc1)) = serves ` set (routine_pipelines (snd acc))
        \<union> {a. sg_HasAddress (mg_signer m) a} \<times> {cid}"
      by (simp only: added set_append set_map s.addresses_own times_pairs)
    have "x \<notin> set (map (\<lambda>a. (a, cid)) ?as)" if "x \<in> set (map serves (routine_pipelines (snd acc)))" for x
      using that Cons.prems(5) e by auto
    then have "distinct (map serves (routine_pipelines (snd acc1)))"
      unfolding added distinct_append using Cons.prems(4) s.addresses_distinct [of w]
      by (auto simp only: distinct_map inj_on_def prod.inject)
    moreover have "\<forall>p \<in> set (routine_pipelines (snd acc1)). snd (serves p) \<notin> fst ` set cs"
    proof
      fix p assume "p \<in> set (routine_pipelines (snd acc1))"
      then have "serves p \<in> serves ` set (routine_pipelines (snd acc1))" by (rule imageI)
      then have "serves p \<in> serves ` set (routine_pipelines (snd acc)) \<or> snd (serves p) = cid"
        unfolding set by auto
      then show "snd (serves p) \<notin> fst ` set cs"
      proof
        assume "serves p \<in> serves ` set (routine_pipelines (snd acc))"
        then obtain q where q: "serves p = serves q" "q \<in> set (routine_pipelines (snd acc))" ..
        with Cons.prems(5) have "snd (serves q) \<notin> fst ` set (e # cs)" by blast
        with q(1) show ?thesis by simp
      qed (use Cons.prems(3) e in simp)
    qed
    ultimately have "distinct (map serves (routine_pipelines (snd acc')))
      \<and> serves ` set (routine_pipelines (snd acc')) = serves ` set (routine_pipelines (snd acc1))
        \<union> {a. sg_HasAddress (mg_signer m) a} \<times> served_chains m cs"
      using Cons.prems(2,3) e by (intro Cons.IH [OF run]) simp_all
    with set e Some show ?thesis by auto
  qed
qed

lemma start_pipelines_filed:
  assumes "start_pipelines L m cs acc w = (acc', v)"
    and "\<forall>(cid, chain) \<in> set cs. ch_ChainID chain = cid" and "filed L (fst acc)"
  shows "filed L (fst acc') \<and> fst ` set (fst acc') = fst ` set (fst acc)
    \<union> (\<lambda>(a, cid). pipeline_key (Address_Hex L a) cid)
        ` ({a. sg_HasAddress (mg_signer m) a} \<times> served_chains m cs)"
  using assms
proof (induction cs arbitrary: acc w)
  case Nil
  then show ?case by simp
next
  case (Cons e cs)
  obtain cid chain where e: "e = (cid, chain)" by (cases e)
  show ?case
  proof (cases "map_of (mg_clients m) cid")
    case None
    with Cons.prems e have "start_pipelines L m cs acc w = (acc', v)" by simp
    from Cons.IH [OF this] Cons.prems e None show ?thesis by auto
  next
    case (Some c)
    define acc1 where "acc1 = start_senders L m cid chain c (sg_Addresses (mg_signer m) w) acc"
    have run: "start_pipelines L m cs acc1 (tick w) = (acc', v)"
      using Cons.prems(1) e Some by (simp add: acc1_def)
    have "filed L (fst acc1) \<and> fst ` set (fst acc1) = fst ` set (fst acc)
        \<union> (\<lambda>a. pipeline_key (Address_Hex L a) cid) ` {a. sg_HasAddress (mg_signer m) a}"
      using start_senders_filed [OF Cons.prems(3), of chain cid m c "sg_Addresses (mg_signer m) w"]
        Cons.prems(2) e s.addresses_own [of w] by (simp add: acc1_def)
    moreover from this have "filed L (fst acc') \<and> fst ` set (fst acc') = fst ` set (fst acc1)
      \<union> (\<lambda>(a, cid). pipeline_key (Address_Hex L a) cid)
          ` ({a. sg_HasAddress (mg_signer m) a} \<times> served_chains m cs)"
      using Cons.prems(2) e by (intro Cons.IH [OF run]) simp_all
    ultimately show ?thesis using e Some by (auto simp: image_iff)
  qed
qed

end

text \<open>What the API can wake: exactly the pipelines that run.\<close>

lemma notify_filed:
  assumes "filed L (mg_pipelines m)"
  shows "NotifyPipeline L m sender cid w =
    (if pipeline_key sender cid \<in> fst ` set (mg_pipelines m)
     then w\<lparr>w_notify := (w_notify w)(pipeline_key sender cid := True)\<rparr> else w)"
proof (cases "map_of (mg_pipelines m) (pipeline_key sender cid)")
  case None
  then have "pipeline_key sender cid \<notin> fst ` set (mg_pipelines m)" by (simp add: map_of_eq_None_iff)
  with None show ?thesis by (simp add: NotifyPipeline_def)
next
  case (Some p)
  then have in_ps: "(pipeline_key sender cid, p) \<in> set (mg_pipelines m)" by (rule map_of_SomeD)
  then have "pipelineID L p = pipeline_key sender cid" using assms by (auto simp: filed_def)
  with Some in_ps show ?thesis by (auto simp: NotifyPipeline_def Notify_def image_iff)
qed

interpretation service: manager_env "NewManager clients (LocalSigner L keys) configs"
  by (simp add: manager_env_def NewManager_def local.tx_signer_axioms)

section \<open>Recovery\<close>

text \<open>
  Recovery runs before any goroutine is started and before the server listens: the database is not
  written by anybody else, although it may still refuse statements.
\<close>

definition alone :: "world \<Rightarrow> bool" where
  "alone w \<longleftrightarrow> (\<forall>t d. w_others w t d = d)"

lemma alone_now [simp]: "alone w \<Longrightarrow> db_now w = w_db w"
  by (simp add: alone_def db_now_def)

text \<open>Every node of a chain reports a pending nonce above the nonces recorded as used.\<close>

definition nodes_know :: "'key eth_lib \<Rightarrow> u64 list \<Rightarrow> world \<Rightarrow> bool" where
  "nodes_know L cids w \<longleftrightarrow> (\<forall>cid \<in> set cids. \<forall>url \<in> ep_url ` set (w_endpoints w cid). \<forall>t a k.
     rpc_PendingNonceAt (w_rpc w) url t a = Inr k \<longrightarrow>
     (\<forall>r \<in> set (d_transactions (w_db w)). \<forall>n. r_status r \<noteq> TxStatusPending \<longrightarrow>
        r_sender r = ToLower (Address_Hex L a) \<longrightarrow> r_chain_id r = int (unat cid) \<longrightarrow>
        r_nonce r = Some n \<longrightarrow> n < int (unat k)))"

definition recovering :: "'key eth_lib \<Rightarrow> u64 list \<Rightarrow> world \<Rightarrow> bool" where
  "recovering L cids w \<longleftrightarrow> alone w \<and> sys_ok (w_db w) \<and> nodes_know L cids w"

definition same_nodes :: "world \<Rightarrow> world \<Rightarrow> bool" where
  "same_nodes w v \<longleftrightarrow> w_rpc v = w_rpc w \<and> w_others v = w_others w
     \<and> (\<forall>c. ep_url ` set (w_endpoints v c) = ep_url ` set (w_endpoints w c))"

lemma same_env_nodes: "same_env w v \<Longrightarrow> same_nodes w v"
  by (simp add: same_env_def same_nodes_def)

lemma nodes_knowD:
  "nodes_know L cids w \<Longrightarrow> cid \<in> set cids \<Longrightarrow> url \<in> ep_url ` set (w_endpoints w cid) \<Longrightarrow>
    rpc_PendingNonceAt (w_rpc w) url t a = Inr k \<Longrightarrow> r \<in> set (d_transactions (w_db w)) \<Longrightarrow>
    r_status r \<noteq> TxStatusPending \<Longrightarrow> r_sender r = ToLower (Address_Hex L a) \<Longrightarrow>
    r_chain_id r = int (unat cid) \<Longrightarrow> r_nonce r = Some n \<Longrightarrow> n < int (unat k)"
  unfolding nodes_know_def by blast

lemma recovering_step:
  assumes "recovering L cids w" and "same_nodes w v" and "sys_ok (w_db v)"
    and "\<And>r. r \<in> set (d_transactions (w_db v)) \<Longrightarrow> r_nonce r \<noteq> None \<Longrightarrow>
      r \<in> set (d_transactions (w_db w))"
  shows "recovering L cids v"
proof -
  have "nodes_know L cids v" unfolding nodes_know_def
  proof (intro ballI allI impI)
    fix cid url t a k r n
    assume "cid \<in> set cids" and "url \<in> ep_url ` set (w_endpoints v cid)"
      and "rpc_PendingNonceAt (w_rpc v) url t a = Inr k" and "r \<in> set (d_transactions (w_db v))"
      and "r_status r \<noteq> TxStatusPending" and "r_sender r = ToLower (Address_Hex L a)"
      and "r_chain_id r = int (unat cid)" and n: "r_nonce r = Some n"
    moreover from this have "r \<in> set (d_transactions (w_db w))" using assms(4) by simp
    moreover have "w_rpc v = w_rpc w" "ep_url ` set (w_endpoints v cid) = ep_url ` set (w_endpoints w cid)"
      using assms(2) by (simp_all add: same_nodes_def)
    moreover have "nodes_know L cids w" using assms(1) by (simp add: recovering_def)
    ultimately show "n < int (unat k)" by (metis nodes_knowD)
  qed
  with assms show ?thesis by (simp add: recovering_def alone_def same_nodes_def)
qed

text \<open>A row that is reset has no nonce any more; the others stay as they are.\<close>

lemma sys_ok_reset:
  assumes "sys_ok d"
  shows "sys_ok (d\<lparr>d_transactions := map (reset_row now) (d_transactions d)\<rparr>)" (is "sys_ok ?d")
proof -
  have row: "row_ok ?d (reset_row now r)" if "row_ok d r" for r
    using that by (auto simp: row_ok_def reset_row_def recorded_def submitted_statuses_def)
  have below: "nonce_below cs r \<Longrightarrow> nonce_below cs (reset_row now r)"
    and same: "same_nonce (reset_row now r) (reset_row now r') \<Longrightarrow> same_nonce r r'" for cs r r'
    by (auto simp: nonce_below_def same_nonce_def reset_row_def split: if_splits)
  have n: "nonces_ok d" using assms by (simp add: sys_ok_def)
  have "nonces_ok ?d"
    by (rule nonces_okI) (auto intro: below nonces_ok_below [OF n] nonces_ok_unique [OF n same])
  then show ?thesis
    using assms row db_ok_reset [of d now]
    by (simp add: sys_ok_def lifecycle_ok_def numbering_ok_def has_attempt_def)
qed

text \<open>The cursor may be set anywhere above the nonces of its sender.\<close>

definition above_all :: "string \<times> int \<Rightarrow> int \<Rightarrow> db \<Rightarrow> bool" where
  "above_all key n d \<longleftrightarrow> (\<forall>r \<in> set (d_transactions d). \<forall>k.
     (r_sender r, r_chain_id r) = key \<longrightarrow> r_nonce r = Some k \<longrightarrow> k < n)"

lemma nonces_ok_cursors:
  assumes "nonces_ok d" and "d_transactions d' = d_transactions d" and "above_all key n d"
    and "\<And>c. c \<in> set (d_cursors d) \<Longrightarrow> \<exists>c' \<in> set (d_cursors d'). c_key c' = c_key c
      \<and> (c_next_nonce c \<le> c_next_nonce c' \<or> c_key c = key \<and> n \<le> c_next_nonce c')"
  shows "nonces_ok d'"
proof (rule nonces_okI)
  fix r assume r: "r \<in> set (d_transactions d')"
  show "nonce_below (d_cursors d') r" unfolding nonce_below_def
  proof (intro allI impI)
    fix k assume k: "r_nonce r = Some k"
    obtain c where c: "0 \<le> k" "c \<in> set (d_cursors d)" "c_key c = (r_sender r, r_chain_id r)"
      "k < c_next_nonce c" using nonces_ok_below [OF assms(1)] r k assms(2) by (auto simp: nonce_below_def)
    obtain c' where c': "c' \<in> set (d_cursors d')" "c_key c' = c_key c"
      "c_next_nonce c \<le> c_next_nonce c' \<or> c_key c = key \<and> n \<le> c_next_nonce c'"
      using assms(4) [OF c(2)] by blast
    have "k < c_next_nonce c'"
      using c'(3)
    proof
      assume "c_key c = key \<and> n \<le> c_next_nonce c'"
      moreover have "k < n" if "c_key c = key"
        using assms(2,3) r k that c(3) by (auto simp: above_all_def)
      ultimately show ?thesis by auto
    qed (use c(4) in simp)
    with c c' show "0 \<le> k \<and> (\<exists>c \<in> set (d_cursors d'). c_key c = (r_sender r, r_chain_id r)
        \<and> k < c_next_nonce c)" by auto
  qed
qed (use assms(2) nonces_ok_unique [OF assms(1)] in simp)

lemma sys_ok_cursors:
  assumes "sys_ok d" and "db_ok d'" and "nonces_ok d'" and "d_transactions d' = d_transactions d"
    and "d_attempts d' = d_attempts d"
  shows "sys_ok d'"
  using assms by (simp add: sys_ok_def lifecycle_ok_def row_ok_def recorded_def numbering_ok_def
      has_attempt_def)

lemma sys_ok_set_cursor:
  assumes "sys_ok d" and "bigint n = Inr m" and "above_all key m d"
  shows "sys_ok (upd_cursor key (\<lambda>c. c\<lparr>c_next_nonce := m, c_updated_at := t\<rparr>) d)" (is "sys_ok ?d")
proof (rule sys_ok_cursors [OF assms(1)])
  show "db_ok ?d" using assms(1,2) db_ok_set_cursor by (simp add: sys_ok_def)
  show "nonces_ok ?d"
  proof (rule nonces_ok_cursors [OF _ _ assms(3)])
    fix c assume "c \<in> set (d_cursors d)"
    then show "\<exists>c' \<in> set (d_cursors ?d). c_key c' = c_key c
        \<and> (c_next_nonce c \<le> c_next_nonce c' \<or> c_key c = key \<and> m \<le> c_next_nonce c')"
      by (cases "c_key c = key") (auto simp: bex_upd_by c_key_def intro!: bexI [of _ c])
  qed (use assms(1) in \<open>simp_all add: sys_ok_def\<close>)
qed simp_all

lemma sys_ok_init_cursor:
  assumes "sys_ok d" and "bigint n = Inr m" and "above_all key m d"
  shows "sys_ok (upsert_cursor key m t d)" (is "sys_ok ?d")
proof (rule sys_ok_cursors [OF assms(1)])
  show "db_ok ?d" using assms(1,2) db_ok_init_cursor by (simp add: sys_ok_def)
  show "nonces_ok ?d"
  proof (rule nonces_ok_cursors [OF _ _ assms(3)])
    fix c assume "c \<in> set (d_cursors d)"
    then show "\<exists>c' \<in> set (d_cursors ?d). c_key c' = c_key c
        \<and> (c_next_nonce c \<le> c_next_nonce c' \<or> c_key c = key \<and> m \<le> c_next_nonce c')"
      by (cases "c_key c = key") (auto simp: upsert_cursor_def bex_upd_by c_key_def intro!: bexI [of _ c])
  qed (use assms(1) in \<open>simp_all add: sys_ok_def upsert_cursor_def\<close>)
qed (simp_all add: upsert_cursor_def)

text \<open>The node's answer lies above the nonces of the sender.\<close>

lemma first_healthy_member: "first_healthy i eps = Some (j, url) \<Longrightarrow> url \<in> ep_url ` set eps"
  by (induction eps arbitrary: i) (auto split: if_splits)

lemma set_healthy_urls [simp]: "ep_url ` set (set_healthy b i eps) = ep_url ` set eps"
proof (cases "i < length eps")
  case True
  have "map ep_url (eps[i := (eps ! i)\<lparr>ep_healthy := b\<rparr>]) = (map ep_url eps)[i := ep_url (eps ! i)]"
    by (simp add: map_update)
  also have "\<dots> = map ep_url eps" using True by (simp add: list_update_same_conv)
  finally show ?thesis using True by (simp add: set_healthy_def) (metis image_set)
qed (simp add: set_healthy_def)

lemma set_healthy_url: "x \<in> set (set_healthy b i eps) \<Longrightarrow> ep_url x \<in> ep_url ` set eps"
  using set_healthy_urls [of b i eps] by blast

lemma rpc_call_nodes: "rpc_call mark cid f w = (res, v) \<Longrightarrow> same_nodes w v \<and> w_db v = w_db w"
  by (auto simp: rpc_call_def same_nodes_def markUnhealthy_def upd_endpoints_def dest!: set_healthy_url
      split: sum.splits if_splits)

lemma pending_nonce_call:
  assumes "PendingNonceAt cid a w = (res, v)"
  shows "same_nodes w v \<and> w_db v = w_db w
    \<and> (\<forall>k. res = Inr k \<longrightarrow> (\<exists>url \<in> ep_url ` set (w_endpoints w cid).
          rpc_PendingNonceAt (w_rpc w) url (w_tick w) a = Inr k))"
  using assms unfolding PendingNonceAt_def rpc_call_def getClient_def
  by (auto simp: same_nodes_def markUnhealthy_def upd_endpoints_def dest!: first_healthy_member set_healthy_url
      split: sum.splits option.splits if_splits)

lemma answer_above:
  assumes "recovering L cids w" and "cid \<in> set cids" and "PendingNonceAt cid a w = (Inr k, v)"
    and "\<forall>r \<in> set (d_transactions (w_db w)). r_status r \<noteq> TxStatusPending"
  shows "above_all (ToLower (Address_Hex L a), int (unat cid)) (int (unat k)) (w_db w)"
proof -
  obtain url where "url \<in> ep_url ` set (w_endpoints w cid)"
    "rpc_PendingNonceAt (w_rpc w) url (w_tick w) a = Inr k"
    using pending_nonce_call [OF assms(3)] by blast
  then show ?thesis
    using nodes_knowD [of L cids w cid] assms(1,2,4) by (auto simp: above_all_def recovering_def)
qed

section \<open>Recovery keeps the invariants\<close>

definition none_pending :: "world \<Rightarrow> bool" where
  "none_pending w \<longleftrightarrow> (\<forall>r \<in> set (d_transactions (w_db w)). r_status r \<noteq> TxStatusPending)"

lemma recovering_stmt:
  assumes "recovering L cids w" and "none_pending w" and "same_env w v" and "sys_ok (w_db v)"
    and "d_transactions (w_db v) = d_transactions (w_db w)"
  shows "recovering L cids v \<and> none_pending v"
  using assms recovering_step [OF assms(1) same_env_nodes [OF assms(3)]]
  by (simp add: none_pending_def)

lemma cursor_call_env:
  "InitNonceCursor s c n w = (e, v) \<Longrightarrow> same_env w v" "SetNonceCursor s c n w = (e, v) \<Longrightarrow> same_env w v"
  "GetNonceCursor s c w = (oc, v) \<Longrightarrow> same_env w v" "ResetPendingToQueued w = (cnt, v) \<Longrightarrow> same_env w v"
  by (auto simp: InitNonceCursor_def SetNonceCursor_def GetNonceCursor_def ResetPendingToQueued_def
      Let_def dest!: no_rows_is_nil_eq dest: same_env_exec same_env_query same_env_run_stmt)

lemma start_nonce_pending [simp]: "start_nonce n oc = n"
  by (simp add: start_nonce_def split: option.split)

lemma initNonce_recovers:
  assumes "initNonceForSender L a cid (Client cid) w = (r, v)"
    and "recovering L cids w" and "none_pending w" and "cid \<in> set cids"
  shows "recovering L cids v \<and> none_pending v"
proof -
  let ?s = "ToLower (Address_Hex L a)"
  obtain pn w1 where 1: "PendingNonceAt cid a w = (pn, w1)" by (cases "PendingNonceAt cid a w")
  have w1: "recovering L cids w1 \<and> none_pending w1" "w_db w1 = w_db w"
    using pending_nonce_call [OF 1] assms(2,3) recovering_step [OF assms(2), of w1]
    by (auto simp: none_pending_def recovering_def)
  show ?thesis
  proof (cases pn)
    case (Inl e)
    with assms(1) 1 w1 show ?thesis by (simp add: initNonceForSender_def Client_def)
  next
    case (Inr k)
    note above = answer_above [OF assms(2,4) 1 [unfolded Inr]] assms(3) [unfolded none_pending_def]
    obtain oc w2 where 2: "GetNonceCursor ?s cid w1 = (oc, w2)" by (cases "GetNonceCursor ?s cid w1")
    have db2: "w_db w2 = w_db w1" using db_effects 2 w1 by (auto simp: recovering_def)
    then have w2: "recovering L cids w2 \<and> none_pending w2"
      using w1(1) cursor_call_env(3) [OF 2]
      by (intro recovering_stmt [of L cids w1]) (auto simp: recovering_def)
    show ?thesis
    proof (cases oc)
      case (Inl e)
      with assms(1) 1 2 w2 Inr show ?thesis by (simp add: initNonceForSender_def Client_def)
    next
      case oc: (Inr cur)
      obtain e w3 where 3: "(if cur = None then InitNonceCursor ?s cid k w2
          else SetNonceCursor ?s cid k w2) = (e, w3)" by fastforce
      have env: "same_env w2 w3" using 3 cursor_call_env(1,2) by (auto split: if_splits)
      have ok: "sys_ok (w_db w2)" "db_now w2 = w_db w2" using w2 by (auto simp: recovering_def)
      have "w_db w3 = w_db w2 \<or> (\<exists>chain m t. bigint cid = Inr chain \<and> bigint k = Inr m
          \<and> w_db w3 \<in> {upsert_cursor (?s, chain) m t (w_db w2), upd_cursor (?s, chain)
              (\<lambda>c. c\<lparr>c_next_nonce := m, c_updated_at := t\<rparr>) (w_db w2)})"
        using 3 ok(2) by (auto split: if_splits dest!: InitNonceCursor_effect SetNonceCursor_effect)
      then have "sys_ok (w_db w3) \<and> d_transactions (w_db w3) = d_transactions (w_db w2)"
      proof (elim disjE exE conjE)
        fix chain m t
        assume b: "bigint cid = Inr chain" "bigint k = Inr m"
          and d: "w_db w3 \<in> {upsert_cursor (?s, chain) m t (w_db w2), upd_cursor (?s, chain)
              (\<lambda>c. c\<lparr>c_next_nonce := m, c_updated_at := t\<rparr>) (w_db w2)}"
        have "chain = int (unat cid)" "m = int (unat k)" using b bigint_range by blast+
        with above w1(2) db2 have "above_all (?s, chain) m (w_db w2)" by simp
        with d ok(1) b(2) show ?thesis
          using sys_ok_set_cursor sys_ok_init_cursor by (auto simp: upsert_cursor_def)
      qed (use ok in simp)
      then have "recovering L cids w3 \<and> none_pending w3"
        using w2 env by (intro recovering_stmt [of L cids w2]) auto
      moreover have "v = w3" using assms(1) 1 2 3 Inr oc
        by (simp add: initNonceForSender_def Client_def split: option.splits if_splits)
      ultimately show ?thesis by simp
    qed
  qed
qed

lemma init_chains_recovers:
  assumes "init_chains L a cs w = (r, v)" and "recovering L cids w" and "none_pending w"
    and "\<forall>(cid, c) \<in> set cs. cid \<in> set cids \<and> c = Client cid"
  shows "recovering L cids v \<and> none_pending v"
  using assms
proof (induction cs arbitrary: w)
  case Nil
  then show ?case by simp
next
  case (Cons e cs)
  then obtain cid where e: "e = (cid, Client cid)" "cid \<in> set cids" by auto
  obtain r1 w1 where 1: "initNonceForSender L a cid (Client cid) w = (r1, w1)"
    by (cases "initNonceForSender L a cid (Client cid) w")
  note w1 = initNonce_recovers [OF 1 Cons.prems(2,3) e(2)]
  show ?case
  proof (cases r1)
    case None
    then have "init_chains L a cs w1 = (r, v)" using Cons.prems(1) e 1 by simp
    with w1 Cons.prems(4) show ?thesis by (intro Cons.IH) auto
  qed (use Cons.prems(1) e 1 w1 in simp)
qed

lemma init_senders_recovers:
  assumes "init_senders L cs addrs w = (r, v)" and "recovering L cids w" and "none_pending w"
    and "\<forall>(cid, c) \<in> set cs. cid \<in> set cids \<and> c = Client cid"
  shows "recovering L cids v \<and> none_pending v"
  using assms
proof (induction addrs arbitrary: w)
  case Nil
  then show ?case by simp
next
  case (Cons a addrs)
  obtain r1 w1 where 1: "init_chains L a (range_order cs w) w = (r1, w1)"
    by (cases "init_chains L a (range_order cs w) w")
  have w1: "recovering L cids w1 \<and> none_pending w1"
    using init_chains_recovers [OF 1 Cons.prems(2,3)] Cons.prems(4) by simp
  show ?case
  proof (cases r1)
    case None
    then have "init_senders L cs addrs w1 = (r, v)" using Cons.prems(1) 1 by simp
    with w1 Cons.prems(4) show ?thesis by (intro Cons.IH) auto
  qed (use Cons.prems(1) 1 w1 in simp)
qed

text \<open>The manager main.go builds: a pool of endpoints for each configured chain.\<close>

abbreviation manager_of :: "'key eth_lib \<Rightarrow> 'key key_map \<Rightarrow> (u64 \<times> chain_config) list \<Rightarrow> manager" where
  "manager_of L keys configs \<equiv>
     NewManager (map (\<lambda>(cid, chain). (cid, Client cid)) configs) (LocalSigner L keys) configs"

lemma reset_recovers:
  assumes "ResetPendingToQueued w = (cnt, v)" and "recovering L cids w"
  shows "recovering L cids v \<and> (\<forall>n. cnt = Inr n \<longrightarrow> none_pending v)"
proof -
  have now: "db_now w = w_db w" using assms(2) by (simp add: recovering_def)
  have ok: "sys_ok (w_db w)" using assms(2) by (simp add: recovering_def)
  let ?rows = "\<lambda>t. map (reset_row t) (d_transactions (w_db w))"
  have db: "w_db v = w_db w \<or> w_db v = (w_db w)\<lparr>d_transactions := ?rows (time_now w)\<rparr>"
    using Reset_effect [OF assms(1)] now by simp
  have "w_db v = (w_db w)\<lparr>d_transactions := ?rows (time_now w)\<rparr>" if "cnt = Inr n" for n
    using assms(1) that now by (auto simp: ResetPendingToQueued_def Let_def dest: run_stmt_ok)
  then have "\<forall>n. cnt = Inr n \<longrightarrow> none_pending v"
    by (auto simp: none_pending_def reset_row_def)
  moreover have "r \<in> set (d_transactions (w_db w))"
    if "r \<in> set (d_transactions (w_db v))" "r_nonce r \<noteq> None" for r
    using db that by (auto simp: reset_row_def)
  moreover have "sys_ok (w_db v)" using db ok sys_ok_reset by auto
  ultimately show ?thesis
    using recovering_step [OF assms(2) same_env_nodes [OF cursor_call_env(4) [OF assms(1)]]] by blast
qed

lemma InitNonces_recovers:
  assumes "recovering L cids w" and "\<forall>(cid, c) \<in> set clients. cid \<in> set cids \<and> c = Client cid"
    and "InitNonces L (NewManager clients (LocalSigner L keys) configs) w = (r, v)"
  shows "recovering L cids v \<and> (r = None \<longrightarrow> none_pending v)"
proof -
  obtain cnt w1 where 1: "ResetPendingToQueued w = (cnt, w1)" by (cases "ResetPendingToQueued w")
  note w1 = reset_recovers [OF 1 assms(1)]
  show ?thesis
  proof (cases cnt)
    case (Inl e)
    with assms(3) 1 w1 show ?thesis by (auto simp: InitNonces_def)
  next
    case (Inr n)
    have "init_senders L clients (sg_Addresses (LocalSigner L keys) w1) w1 = (r, v)"
      using assms(3) 1 Inr by (simp add: InitNonces_def NewManager_def)
    from init_senders_recovers [OF this _ _ assms(2)] w1 Inr show ?thesis by simp
  qed
qed

section \<open>What Start starts\<close>

definition poller_chains :: "goroutine list \<Rightarrow> u64 list" where
  "poller_chains gs =
     concat (map (\<lambda>g. case g of PollerRoutine rp \<Rightarrow> [rp_chainID rp] | _ \<Rightarrow> []) gs)"

definition detector_chains :: "goroutine list \<Rightarrow> u64 list" where
  "detector_chains gs =
     concat (map (\<lambda>g. case g of DetectorRoutine sd \<Rightarrow> [sd_chainID sd] | _ \<Rightarrow> []) gs)"

lemma worker_chains_append [simp]:
  "poller_chains (gs @ hs) = poller_chains gs @ poller_chains hs"
  "detector_chains (gs @ hs) = detector_chains gs @ detector_chains hs"
  "poller_chains [] = []" "detector_chains [] = []"
  "poller_chains [PipelineRoutine p] = []" "detector_chains [PipelineRoutine p] = []"
  by (simp_all add: poller_chains_def detector_chains_def)

lemma worker_chains_senders [simp]:
  "poller_chains (snd (start_senders L m cid chain c addrs acc)) = poller_chains (snd acc)"
  "detector_chains (snd (start_senders L m cid chain c addrs acc)) = detector_chains (snd acc)"
  by (induction addrs arbitrary: acc) (simp_all add: Let_def)

lemma worker_chains_pipelines:
  "start_pipelines L m cs acc w = (acc', v) \<Longrightarrow>
    poller_chains (snd acc') = poller_chains (snd acc)
    \<and> detector_chains (snd acc') = detector_chains (snd acc)"
  by (induction L m cs acc w rule: start_pipelines.induct) (auto split: option.splits)

lemma worker_chains_workers:
  "\<forall>(cid, chain) \<in> set cs. ch_ChainID chain = cid \<Longrightarrow>
    poller_chains (start_workers m cs) = filter (\<lambda>cid. cid \<in> dom (map_of (mg_clients m))) (map fst cs)
    \<and> detector_chains (start_workers m cs) = poller_chains (start_workers m cs)"
  by (induction m cs rule: start_workers.induct)
    (auto simp: poller_chains_def detector_chains_def NewReceiptPoller_def NewStuckDetector_def
      sd_chainID_def dom_def split: option.splits)

lemma distinct_range_keys: "distinct (map fst kvs) \<Longrightarrow> distinct (map fst (range_order kvs w))"
  by (metis mset_eq_imp_distinct_iff mset_map range_order_mset)

lemma served_chains_range [simp]: "served_chains m (range_order cs w) = served_chains m cs"
  by (simp add: served_chains_def)

text \<open>The outcome of \<open>Start\<close> on a fresh manager.\<close>

context manager_env
begin

lemma Start_effect:
  assumes "Start L m w = (gs, m', v)" and "mg_pipelines m = []"
    and "\<forall>(cid, chain) \<in> set (mg_chains m). ch_ChainID chain = cid"
    and "distinct (map fst (mg_chains m))"
    and "{a. sg_HasAddress (mg_signer m) a} \<times> served_chains m (mg_chains m) = pairs"
  shows "distinct (map serves (routine_pipelines gs)) \<and> serves ` set (routine_pipelines gs) = pairs
    \<and> filed L (mg_pipelines m')
    \<and> fst ` set (mg_pipelines m') = (\<lambda>(a, cid). pipeline_key (Address_Hex L a) cid) ` pairs
    \<and> distinct (poller_chains gs) \<and> set (poller_chains gs) = served_chains m (mg_chains m)
    \<and> detector_chains gs = poller_chains gs"
proof -
  let ?cs = "range_order (mg_chains m) w"
  obtain ps g1 w1 where 1: "start_pipelines L m ?cs (mg_pipelines m, []) (tick w) = ((ps, g1), w1)"
    by (metis prod.collapse)
  let ?ws = "range_order (mg_chains m) w1"
  have out: "gs = g1 @ start_workers m ?ws" "mg_pipelines m' = ps"
    using assms(1) 1 by (auto simp: Start_def)
  have cs: "\<forall>(cid, chain) \<in> set ?cs. ch_ChainID chain = cid" "distinct (map fst ?cs)"
    "\<forall>(cid, chain) \<in> set ?ws. ch_ChainID chain = cid" "distinct (map fst ?ws)"
    using assms(3,4) distinct_range_keys by simp_all
  have "distinct (map serves (routine_pipelines g1)) \<and> serves ` set (routine_pipelines g1) = pairs"
    using start_pipelines_serve [OF 1 cs(1,2)] assms(5) by simp
  moreover have "filed L ps \<and> fst ` set ps = (\<lambda>(a, cid). pipeline_key (Address_Hex L a) cid) ` pairs"
    using start_pipelines_filed [OF 1 cs(1)] assms(2,5) by (simp add: filed_def)
  moreover have "poller_chains g1 = []" "detector_chains g1 = []"
    using worker_chains_pipelines [OF 1] by simp_all
  ultimately show ?thesis
    using worker_chains_workers [OF cs(3)] cs(4) out by (auto simp: served_chains_def)
qed

end

lemma NewManager_fields [simp]:
  "mg_chains (NewManager cs sg configs) = configs" "mg_signer (NewManager cs sg configs) = sg"
  "mg_clients (NewManager cs sg configs) = cs" "mg_pipelines (NewManager cs sg configs) = []"
  by (simp_all add: NewManager_def)

lemma manager_pairs: "{a. sg_HasAddress (LocalSigner L keys) a}
    \<times> served_chains (manager_of L keys configs) configs = fst ` set keys \<times> fst ` set configs"
  and manager_served: "served_chains (manager_of L keys configs) configs = fst ` set configs"
proof -
  have "{a. sg_HasAddress (LocalSigner L keys) a} = fst ` set keys"
    by (auto simp: LocalSigner_def HasAddress_def map_of_eq_None_iff simp del: not_None_eq)
  moreover have "dom (map_of (map (\<lambda>(cid, chain). (cid, Client cid)) configs)) = fst ` set configs"
    by (force simp: dom_map_of_conv_image_fst)
  then show "served_chains (manager_of L keys configs) configs = fst ` set configs"
    by (simp add: served_chains_def)
  ultimately show "{a. sg_HasAddress (LocalSigner L keys) a}
    \<times> served_chains (manager_of L keys configs) configs = fst ` set keys \<times> fst ` set configs"
    by (simp only:)
qed

lemma manager_effect:
  assumes "Start L (manager_of L keys configs) w = (gs, m', v)"
    and "\<forall>(cid, chain) \<in> set configs. ch_ChainID chain = cid" and "distinct (map fst configs)"
  shows "distinct (map serves (routine_pipelines gs))"
    and "serves ` set (routine_pipelines gs) = fst ` set keys \<times> fst ` set configs"
    and "filed L (mg_pipelines m')"
    and "fst ` set (mg_pipelines m') = (\<lambda>(a, cid). pipeline_key (Address_Hex L a) cid)
        ` (fst ` set keys \<times> fst ` set configs)"
    and "distinct (poller_chains gs)" and "set (poller_chains gs) = fst ` set configs"
    and "detector_chains gs = poller_chains gs"
  using service.Start_effect [OF assms(1), of "fst ` set keys \<times> fst ` set configs"] assms(2,3)
    manager_pairs [of L keys configs] by (simp_all add: manager_served)

section \<open>An attempt that outlived a crash\<close>

lemma one_stmt_sent: "one_stmt w v \<Longrightarrow> w_sent v = w_sent w"
  by (simp add: one_stmt_def same_env_def)

lemma sent_log [simp]: "w_sent (logTransition i src dst act reason w) = w_sent w"
  using one_stmt_calls(14) [THEN one_stmt_sent] by (metis logTransition_def prod.collapse)

lemma sent_fail [simp]: "w_sent (failTx tx code reason act w) = w_sent w"
  using one_stmt_calls(10) [THEN one_stmt_sent] sent_log
  unfolding failTx_def Let_def by (metis prod.collapse)

lemma sent_assign: "AssignNonceAndMarkPending i s c w = (m, v) \<Longrightarrow> w_sent v = w_sent w"
  using Assign_worlds [of i s c w m v] one_stmt_query [of "\<lambda>d. Inr d" w]
  by (cases "begin_tx w")
    (auto simp: tx_world_def still_def same_env_def begin_tx_def one_stmt_def)

lemma second_first_attempt:
  assumes "CreateAttempt a w = (e, v)" and "has_attempt (at_TransactionID a) (at_AttemptNumber a) (db_now w)"
  shows "e \<noteq> None \<and> w_sent v = w_sent w"
proof -
  have "insert_attempt a (db_now w) \<noteq> Inr d" for d
  proof
    assume "insert_attempt a (db_now w) = Inr d"
    then obtain row where "attempt_row_of a = Inr row" "a_key row \<notin> a_key ` set (d_attempts (db_now w))"
      by (elim insert_attemptE)
    with attempt_row_of_fields [of a row] assms(2) show False
      by (force simp: has_attempt_def a_key_def image_iff)
  qed
  then have "e \<noteq> None" using assms(1) exec_ok [of "insert_attempt a" w v] by (auto simp: CreateAttempt_def)
  with one_stmt_sent [OF one_stmt_calls(11) [OF assms(1)]] show ?thesis by simp
qed

context pipeline_env
begin

lemma sign_and_send_blocked:
  assumes "sign_and_send L p tx nonce gas act w = v" and "good x w" and "has_attempt (tx_ID tx) 1 (w_db w)"
  shows "w_sent v = w_sent w"
proof (cases "buildAndSign L p tx nonce gas")
  case (Inl e)
  with assms(1) show ?thesis by (auto simp: sign_and_send_def)
next
  case (Inr sr)
  obtain stx raw where sr: "sr = (stx, raw)" by (cases sr)
  define a where "a = new_attempt (fst (ulid_make w)) (tx_ID tx) 1 (Hash_Hex L (Tx_Hash L stx)) gas raw
    (time_now (tick w))"
  obtain e u where call: "CreateAttempt a (tick w) = (e, u)" by (cases "CreateAttempt a (tick w)")
  have "rely x (tick w)" "sys_ok (w_db (tick w))" using assms(2) by (simp_all add: good_def rely_def)
  then have "has_attempt (at_TransactionID a) (at_AttemptNumber a) (db_now (tick w))"
    using rely_db_now [of x "tick w" "has_attempt (tx_ID tx) 1"] assms(3)
    by (simp add: a_def new_attempt_def)
  from second_first_attempt [OF call this] obtain er where "e = Some er" "w_sent u = w_sent w" by auto
  moreover have "v = (case e of Some _ \<Rightarrow> u | None \<Rightarrow> broadcast_and_mark p tx nonce
      (Hash_Hex L (Tx_Hash L stx)) stx act u)"
    using assms(1) Inr sr call
    by (simp add: sign_and_send_def Let_def case_prod_beta a_def ulid_make_def split: option.splits)
  ultimately show ?thesis by simp
qed

lemma processTx_blocked:
  assumes "processTx L p tx (pipelineID L p) w = v" and "good (pipelineID L p) w"
    and "working L p tx None (w_db w)" and "has_attempt (tx_ID tx) 1 (w_db w)"
  shows "w_sent v = w_sent w"
proof -
  let ?x = "pipelineID L p"
  define w1 where "w1 = logTransition (tx_ID tx) (status_text TxStatusQueued)
    (status_text TxStatusPending) ?x ''claimed by pipeline'' w"
  note proc = assms(1) [unfolded processTx_def Let_def, folded w1_def]
  have 1: "goes ?x (accounted L) w w1 \<and> working L p tx None (w_db w1)"
    using logTransition_goes [OF w1_def [symmetric] assms(2) stable_working assms(3)] by simp
  obtain m w2 where assign: "AssignNonceAndMarkPending (tx_ID tx) (senderHex L p) (pl_chainID p) w1
      = (m, w2)" by (cases "AssignNonceAndMarkPending (tx_ID tx) (senderHex L p) (pl_chainID p) w1")
  have "goes ?x (accounted L) w1 w2" using assign_goes [OF assign] 1 goes_good by blast
  then have w2: "goes ?x (accounted L) w w2" using 1 goes_trans by blast
  have s2: "w_sent w2 = w_sent w" using sent_assign [OF assign] by (simp add: w1_def)
  have att: "has_attempt (tx_ID tx) 1 (w_db w2)"
    using goes_keep [OF w2 assms(2) kept_monotone(3) assms(4)] .
  show ?thesis
  proof (cases m)
    case (Inl e)
    with proc assign s2 show ?thesis by auto
  next
    case (Inr nonce)
    obtain g w3 where est: "Estimate L (pl_client p) (pl_chain p) (pl_sender p)
        (HexToAddress L (tx_ToAddress tx)) (tx_Data tx) (tx_Value tx) (tx_Priority tx) w2 = (g, w3)"
      by (cases "Estimate L (pl_client p) (pl_chain p) (pl_sender p)
        (HexToAddress L (tx_ToAddress tx)) (tx_Data tx) (tx_Value tx) (tx_Priority tx) w2")
    have q: "quiet w2 w3" using c.quiet_Estimate [OF est] .
    have w3: "good ?x w3"
      using still_step [OF quiet_still [OF q] goes_good [OF w2]] goes_good by blast
    have same: "w_db w3 = w_db w2" "w_sent w3 = w_sent w"
      using quiet_db [OF q] q s2 by (auto simp: quiet_def)
    show ?thesis
    proof (cases g)
      case (Inl e)
      with proc assign est \<open>m = Inr nonce\<close> same show ?thesis by auto
    next
      case (Inr gas)
      then have "sign_and_send L p tx nonce gas ?x w3 = v" using proc assign est \<open>m = Inr nonce\<close> by simp
      from sign_and_send_blocked [OF this w3] att same show ?thesis by simp
    qed
  qed
qed

end

section \<open>Properties\<close>

text \<open>Start runs one pipeline for every sender and chain, never two for the same pair, and one
  receipt poller and one stuck detector for every chain.\<close>

lemma Start_one_of_each:
  assumes "Start L (manager_of L keys configs) w = (gs, m', v)"
    and "\<forall>(cid, chain) \<in> set configs. ch_ChainID chain = cid" and "distinct (map fst configs)"
  shows "distinct (map serves (routine_pipelines gs))
    \<and> serves ` set (routine_pipelines gs) = fst ` set keys \<times> fst ` set configs
    \<and> distinct (poller_chains gs) \<and> set (poller_chains gs) = fst ` set configs
    \<and> detector_chains gs = poller_chains gs"
  using manager_effect [OF assms] by (intro conjI)

lemma Start_one_of_each_witness:
  "\<exists>gs m' v. Start sample_lib (manager_of sample_lib [(7, 3), (8, 4)] [(1, sample_chain)])
     (sample_world one_up queued_db) = (gs, m', v)
     \<and> serves ` set (routine_pipelines gs) = {(7, 1), (8, 1)}"
proof -
  let ?m = "manager_of sample_lib [(7, 3), (8, 4)] [(1, sample_chain)]"
  obtain gs m' v where run: "Start sample_lib ?m (sample_world one_up queued_db) = (gs, m', v)"
    by (cases "Start sample_lib ?m (sample_world one_up queued_db)")
  have "ch_ChainID sample_chain = 1" by (simp add: sample_chain_def)
  then have "serves ` set (routine_pipelines gs) = fst ` set [(7, 3 :: nat), (8, 4)] \<times> fst ` set [(1, sample_chain)]"
    using Start_one_of_each [OF run] by simp
  then have "serves ` set (routine_pipelines gs) = {(7, 1), (8, 1)}" by simp
  with run show ?thesis by blast
qed

text \<open>The API wakes the pipeline of a sender and chain, and no other: after Start, a notification
  raises exactly the flag that pipeline waits on, for every sender the signer has a key for, however
  the sender's address is capitalised; for other senders or chains it does nothing.\<close>

lemma Start_then_notify:
  assumes "Start L (manager_of L keys configs) w = (gs, m', v)"
    and "\<forall>(cid, chain) \<in> set configs. ch_ChainID chain = cid" and "distinct (map fst configs)"
  shows "NotifyPipeline L m' sender cid u =
    (if \<exists>p \<in> set (routine_pipelines gs). pipelineID L p = pipeline_key sender cid
     then u\<lparr>w_notify := (w_notify u)(pipeline_key sender cid := True)\<rparr> else u)"
proof -
  note eff = manager_effect [OF assms]
  have "pipelineID L ` set (routine_pipelines gs)
      = (\<lambda>(a, cid). pipeline_key (Address_Hex L a) cid) ` serves ` set (routine_pipelines gs)"
    by (force simp: image_iff serves_def pipelineID_def pipeline_key_def senderHex_def)
  also have "\<dots> = fst ` set (mg_pipelines m')" by (simp only: eff(2,4))
  finally show ?thesis
    unfolding notify_filed [OF eff(3)] by (simp add: image_iff eq_commute)
qed

lemma Start_then_notify_witness:
  "\<exists>gs m' v. Start sample_lib (manager_of sample_lib [(7, 3)] [(1, sample_chain)])
     (sample_world one_up queued_db) = (gs, m', v)
     \<and> w_notify (NotifyPipeline sample_lib m' ''0X7'' 1 v) ''0x7-1''"
proof -
  let ?m = "manager_of sample_lib [(7, 3)] [(1, sample_chain)]"
  obtain gs m' v where run: "Start sample_lib ?m (sample_world one_up queued_db) = (gs, m', v)"
    by (cases "Start sample_lib ?m (sample_world one_up queued_db)")
  have ids: "\<forall>(cid, chain) \<in> set [(1, sample_chain)]. ch_ChainID chain = cid"
    by (simp add: sample_chain_def)
  have "serves ` set (routine_pipelines gs) = fst ` set [(7, 3 :: nat)] \<times> fst ` set [(1, sample_chain)]"
    using manager_effect(2) [OF run ids] by simp
  then have "(7, 1) \<in> serves ` set (routine_pipelines gs)" by simp
  then obtain p where p: "p \<in> set (routine_pipelines gs)" "pl_sender p = 7" "pl_chainID p = 1"
    by (auto simp: serves_def)
  have key: "pipeline_key ''0X7'' 1 = ''0x7-1''" by code_simp
  have "pipelineID sample_lib p = ''0x7-1''"
    using p(2,3) sample_ids(2) by (simp add: pipelineID_def senderHex_def)
  with p(1) key show ?thesis
    using Start_then_notify [OF run ids, of "''0X7''" 1 v] run by auto
qed

text \<open>C19: Recovery at startup keeps the invariants on which unique nonces rest, on success and on
  every error, as long as the nodes report pending nonces above all those recorded as used; after a
  success no transaction is pending any more.\<close>

theorem recovery_keeps_invariants:
  assumes "alone w" and "sys_ok (w_db w)" and "nodes_know L (map fst configs) w"
    and "InitNonces L (manager_of L keys configs) w = (r, v)"
  shows "sys_ok (w_db v) \<and> (r = None \<longrightarrow> none_pending v)"
proof -
  have w: "recovering L (map fst configs) w" using assms(1-3) by (simp add: recovering_def)
  have "\<forall>(cid, c) \<in> set (map (\<lambda>(cid, chain). (cid, Client cid)) configs). cid \<in> set (map fst configs) \<and> c = Client cid"
    by force
  from InitNonces_recovers [OF w this assms(4)] show ?thesis by (auto simp: recovering_def)
qed

definition restart_world :: "u64 \<Rightarrow> world" where
  "restart_world n = (sample_world one_up submitted_db)
     \<lparr>w_rpc := sample_nodes\<lparr>rpc_PendingNonceAt := \<lambda>_ _ _. Inr n\<rparr>\<rparr>"

lemma restart_world_fields [simp]:
  "calm (restart_world n)" "w_db (restart_world n) = submitted_db"
  "w_endpoints (restart_world n) cid = one_up" "alone (restart_world n)"
  "rpc_PendingNonceAt (w_rpc (restart_world n)) url t a = Inr n"
  by (simp_all add: restart_world_def calm_def alone_def sample_nodes_def)

theorem recovery_keeps_invariants_witness:
  "\<exists>r v. InitNonces sample_lib (manager_of sample_lib [(7, 3)] [(1, sample_chain)]) (restart_world 6) = (r, v)
     \<and> sys_ok (w_db v)"
proof -
  let ?w = "restart_world 6" and ?m = "manager_of sample_lib [(7, 3)] [(1, sample_chain)]"
  obtain r v where run: "InitNonces sample_lib ?m ?w = (r, v)" by (cases "InitNonces sample_lib ?m ?w")
  have "sys_ok (w_db ?w)" using reachable_sys_ok [OF reach_submitted] fresh_sys_ok fresh_start_db by simp
  moreover have "nodes_know sample_lib (map fst [(1, sample_chain)]) ?w"
    by (auto simp: nodes_know_def sample_submitted)
  ultimately show ?thesis using recovery_keeps_invariants [OF _ _ _ run] run by auto
qed

lemma calm_initNonce:
  assumes "calm w" and "PendingNonceAt cid a w = (Inr k, u)"
    and "initNonceForSender L a cid (Client cid) w = (None, v)"
  shows "\<exists>chain. bigint cid = Inr chain \<and> chain = int (unat cid) \<and> calm v
    \<and> cursor_value (ToLower (Address_Hex L a)) cid (w_db v) = Some (int (unat k))"
proof -
  let ?s = "ToLower (Address_Hex L a)"
  have "quiet w u" using assms(2) quiet_rpc_call by (simp add: PendingNonceAt_def)
  then have u: "calm u" using assms(1) by (simp add: quiet_def rpc_frame_def calm_def)
  have run: "(case GetNonceCursor ?s cid u of
       (Inl e, w2) \<Rightarrow> (Some (Err (''get nonce cursor: '' @ err_text e)), w2)
     | (Inr cur, w2) \<Rightarrow>
        (case if cur = None then InitNonceCursor ?s cid k w2 else SetNonceCursor ?s cid k w2 of
           (Some e, w3) \<Rightarrow> (Some (Err (''set nonce cursor: '' @ err_text e)), w3)
         | (None, w3) \<Rightarrow> (None, w3))) = (None, v)"
    using assms(3) unfolding initNonceForSender_def Let_def start_nonce_pending
    by (simp add: Client_def assms(2))
  obtain chain where chain: "bigint cid = Inr chain"
    using run u by (cases "bigint cid")
      (auto simp: GetNonceCursor_def calm_runs no_rows_is_nil_def bigint_def split: if_splits)
  have ch: "chain = int (unat cid)" using bigint_range [OF chain] by simp
  have "calm v \<and> cursor_value ?s cid (w_db v) = Some (int (unat k))"
  proof (cases "row_by c_key (?s, chain) (d_cursors (w_db u))")
    case None
    have "InitNonceCursor ?s cid k (after_stmt (w_db u) u) = (None, v)"
      using run u None chain
      by (auto simp: GetNonceCursor_def calm_runs no_rows_is_nil_def split: option.splits prod.splits)
    then obtain n where n: "bigint k = Inr n" "calm v"
      "w_db v = upsert_cursor (?s, chain) n (time_now (after_stmt (w_db u) u)) (w_db u)"
      using u chain by (auto simp: InitNonceCursor_def Let_def calm_runs split: sum.splits)
    then show ?thesis using None bigint_range [OF n(1)]
      by (auto simp: upsert_cursor_def cursor_value_def ch row_by_append c_key_def)
  next
    case (Some c)
    have "SetNonceCursor ?s cid k (after_stmt (w_db u) u) = (None, v)"
      using run u Some chain
      by (auto simp: GetNonceCursor_def calm_runs no_rows_is_nil_def split: option.splits prod.splits)
    then obtain n t where n: "bigint k = Inr n" "calm v" "w_db v = upd_cursor (?s, chain)
        (\<lambda>c. c\<lparr>c_next_nonce := n, c_updated_at := t\<rparr>) (w_db u)"
      using u chain by (auto simp: SetNonceCursor_def Let_def calm_runs split: sum.splits)
    then show ?thesis using Some bigint_range [OF n(1)]
      by (auto simp: cursor_value_def ch row_by_upd_by c_key_def)
  qed
  with chain ch show ?thesis by blast
qed

text \<open>C25: At a restart the nodes have the last word: the next nonce a sender is given is the pending
  nonce its node reported, whatever the database recorded as used. (The comment in the code and the
  architecture document promise the maximum of the two.)\<close>

theorem restart_follows_node:
  assumes "calm w" and "PendingNonceAt cid a w = (Inr k, u)" and "ToLower (Address_Hex L a) = s"
    and "initNonceForSender L a cid (Client cid) w = (None, v)" and "unat k + 1 < 2 ^ 63"
  shows "cursor_value s cid (w_db v) = Some (int (unat k))
    \<and> fst (AssignNonceAndMarkPending i s cid v) = Inr k"
proof -
  obtain chain where chain: "bigint cid = Inr chain" "chain = int (unat cid)"
    and v: "calm v" "cursor_value s cid (w_db v) = Some (int (unat k))"
    using calm_initNonce [OF assms(1,2,4)] assms(3) by auto
  obtain m v' where a: "AssignNonceAndMarkPending i s cid v = (m, v')"
    by (cases "AssignNonceAndMarkPending i s cid v")
  have "int (unat k + 1) < int (2 ^ 63)" using assms(5) by (simp only: of_nat_less_iff)
  then have "int (unat k) + 1 < 2 ^ 63" by simp
  from assign_calm [OF v(1) chain(1) v(2) of_nat_0_le_iff this a]
  have "m = Inr (word_of_int (int (unat k)))" by (rule conjunct1)
  then have "m = Inr k" by simp
  with a v(2) show ?thesis by simp
qed

lemma submitted_cursors: "d_cursors submitted_db
    = [\<lparr>c_sender = ''0x7'', c_chain_id = 1, c_next_nonce = 6, c_updated_at = 0\<rparr>]"
  by (simp add: submitted_db_def assigned_db_def claimed_db_def c_key_def)

theorem restart_follows_node_witness:
  "\<exists>v. initNonceForSender sample_lib 7 1 (Client 1) (restart_world 5) = (None, v)
     \<and> r_nonce sample_final = Some 5
     \<and> fst (AssignNonceAndMarkPending ''t2'' ''0x7'' 1 v) = Inr 5"
proof -
  let ?w = "restart_world 5"
  obtain u where u: "PendingNonceAt 1 7 ?w = (Inr 5, u)"
    by (auto simp: PendingNonceAt_def rpc_call_def getClient_def one_up_def)
  have s: "ToLower (Address_Hex sample_lib 7) = ''0x7''"
    using sample_ids(1) by (simp add: senderHex_def)
  have "quiet ?w u" using u quiet_rpc_call by (simp add: PendingNonceAt_def)
  then have cu: "calm u" "w_db u = submitted_db"
    using restart_world_fields(1,2) by (simp_all add: quiet_def rpc_frame_def calm_def)
  have "fst (initNonceForSender sample_lib 7 1 (Client 1) ?w) = None"
    by (simp add: initNonceForSender_def Client_def u s cu GetNonceCursor_def calm_runs
        no_rows_is_nil_def submitted_cursors c_key_def bigint_def SetNonceCursor_def Let_def)
  then obtain v where "initNonceForSender sample_lib 7 1 (Client 1) ?w = (None, v)"
    by (cases "initNonceForSender sample_lib 7 1 (Client 1) ?w") auto
  then show ?thesis using restart_follows_node [OF restart_world_fields(1) u s, of v "''t2''"] by auto
qed

text \<open>C26: An attempt that outlived a crash blocks its transaction: a claimed transaction that already
  has a first attempt, because the process stopped between storing it and marking the transaction
  as submitted, is not broadcast by the pipeline again, whatever the others do.\<close>

theorem stored_attempt_blocks_pipeline:
  assumes "processTx L (worker_of L keys sender chain) tx x w = v"
    and "pipelineID L (worker_of L keys sender chain) = x" and "rely x w" and "sys_ok (w_db w)"
    and "working L (worker_of L keys sender chain) tx None (w_db w)"
    and "has_attempt (tx_ID tx) 1 (w_db w)"
  shows "w_sent v = w_sent w"
  using worker.processTx_blocked [of L] assms unfolding good_def by blast

definition crashed_db :: db where
  "crashed_db = assigned_db\<lparr>d_attempts := [sample_attempt_row 1]\<rparr>"

definition reclaimed_db :: db where
  "reclaimed_db = upd_tx ''t1'' (claim_row ''0x7-1'' 0)
     (crashed_db\<lparr>d_transactions := map (reset_row 0) (d_transactions crashed_db)\<rparr>)"

lemma reclaimed_rows: "d_transactions reclaimed_db
    = [claim_row ''0x7-1'' 0 (reset_row 0 (nonce_row 5 0 (claim_row ''p'' 0 sample_row)))]"
  by (simp add: reclaimed_db_def crashed_db_def sample_assigned)
    (simp add: reset_row_def nonce_row_def claim_row_def)

lemma sys_ok_reclaimed: "sys_ok reclaimed_db"
proof -
  let ?d = "crashed_db\<lparr>d_transactions := map (reset_row 0) (d_transactions crashed_db)\<rparr>"
  let ?r = "reset_row 0 (nonce_row 5 0 (claim_row ''p'' 0 sample_row))"
  have "sys_ok crashed_db"
    using reachable_sys_ok [OF reach_attempted] fresh_sys_ok fresh_start_db by (simp add: crashed_db_def)
  then have "sys_ok ?d" by (rule sys_ok_reset)
  moreover have r: "?r \<in> set (d_transactions ?d)" "r_status ?r = TxStatusQueued" "r_id ?r = ''t1''"
    by (simp_all add: crashed_db_def sample_assigned) (simp_all add: reset_row_def nonce_row_def claim_row_def)
  ultimately show ?thesis
    using sys_step_ok [OF step_claim [OF r(1,2), of "''0x7-1''" 0]] r(3) by (simp add: reclaimed_db_def)
qed

theorem stored_attempt_blocks_pipeline_witness:
  "w_sent (processTx sample_lib sample_worker sample_claimed_tx ''0x7-1'' (sample_world one_up reclaimed_db)) = []"
proof -
  let ?w = "sample_world one_up reclaimed_db"
  have "working sample_lib sample_worker sample_claimed_tx None (w_db ?w)"
    by (simp add: working_def owned_def my_row_def reclaimed_rows)
      (simp add: reset_row_def nonce_row_def claim_row_def sample_row_def)
  moreover have "has_attempt (tx_ID sample_claimed_tx) 1 (w_db ?w)"
    by (simp add: has_attempt_def reclaimed_db_def crashed_db_def sample_attempt_row_def)
  ultimately have "w_sent (processTx sample_lib sample_worker sample_claimed_tx ''0x7-1'' ?w) = w_sent ?w"
    using stored_attempt_blocks_pipeline [of sample_lib 7 sample_chain "[(7, 3)]" sample_claimed_tx _ ?w,
        folded sample_worker_def, OF refl sample_ids(2) sample_rely] sys_ok_reclaimed
    by (simp del: sample_ids sample_claimed_tx_simps)
  then show ?thesis by simp
qed

end
