(* ===== verification/ServiceFacts.thy ===== *)
theory ServiceFacts
  imports Service ConfigFacts ManagerFacts
begin

text \<open>
  What comes up: a service that starts serves every sender on every configured chain with verified
  keys, well-formed chains and a recovered database.
\<close>

section \<open>Stages\<close>

text \<open>What startup leaves alone before recovery: the database, and all of the environment but the
  endpoints.\<close>

definition prepared :: "world \<Rightarrow> world \<Rightarrow> bool" where
  "prepared w v \<longleftrightarrow> w_db v = w_db w \<and> w_others v = w_others w \<and> w_rpc v = w_rpc w"

lemma prepared_trans: "prepared u v \<Longrightarrow> prepared v w \<Longrightarrow> prepared u w"
  by (simp add: prepared_def)

lemma exec_nothing:
  assumes "exec (\<lambda>d. Inr d) w = (e, v)" and "alone w"
  shows "prepared w v"
proof -
  have "w_db v = db_now w" using exec_effect [OF assms(1), of "\<lambda>d. d = db_now w"] by simp
  with same_env_exec [OF assms(1)] assms(2) show ?thesis by (simp add: prepared_def same_env_def)
qed

lemma alone_prepared: "prepared w v \<Longrightarrow> alone w \<Longrightarrow> alone v"
  by (simp add: prepared_def alone_def)

lemma migration_prepares: "migration f w = (e, v) \<Longrightarrow> alone w \<Longrightarrow> prepared w v"
  by (auto simp: migration_def split: prod.splits option.splits dest: exec_nothing)

lemma Migrate_prepares: "Migrate w = (e, v) \<Longrightarrow> alone w \<Longrightarrow> prepared w v"
  by (auto simp: Migrate_def split: prod.splits option.splits dest: migration_prepares alone_prepared
      intro: prepared_trans)

text \<open>The clients: one for every chain, over endpoints that are configured for it.\<close>

definition pools_of :: "(u64 \<times> chain_config) list \<Rightarrow> world \<Rightarrow> bool" where
  "pools_of cs w \<longleftrightarrow> (\<forall>(cid, chain) \<in> set cs. w_endpoints w cid \<noteq> []
     \<and> ep_url ` set (w_endpoints w cid) \<subseteq> set (ch_RPCEndpoints chain))"

lemma NewClient_pool:
  "NewClient dial cid urls = Inr eps \<Longrightarrow> eps \<noteq> [] \<and> ep_url ` set eps \<subseteq> set urls"
  by (auto simp: NewClient_def Let_def split: if_splits)

lemma init_clients_ok:
  assumes "init_clients dial cs clients w = (Inr out, v)" and "distinct (map fst cs)"
    and "\<forall>(cid, c) \<in> set clients. c = Client cid"
  shows "prepared w v \<and> pools_of cs v \<and> (\<forall>cid. cid \<notin> fst ` set cs \<longrightarrow> w_endpoints v cid = w_endpoints w cid)
    \<and> fst ` set out = fst ` set clients \<union> fst ` set cs \<and> (\<forall>(cid, c) \<in> set out. c = Client cid)"
  using assms
proof (induction cs arbitrary: clients w)
  case Nil
  then show ?case by (simp add: prepared_def pools_of_def)
next
  case (Cons x cs)
  obtain cid chain where x: "x = (cid, chain)" by (cases x)
  obtain eps where eps: "NewClient dial cid (ch_RPCEndpoints chain) = Inr eps"
    using Cons.prems(1) x by (auto split: sum.splits)
  define u where "u = upd_endpoints cid (\<lambda>_. eps) w"
  have u: "prepared w u" "w_endpoints u cid = eps" "c \<noteq> cid \<Longrightarrow> w_endpoints u c = w_endpoints w c" for c
    by (simp_all add: u_def upd_endpoints_def prepared_def)
  have run: "init_clients dial cs (AList.update cid (Client cid) clients) u = (Inr out, v)"
    using Cons.prems(1) x eps by (simp add: u_def)
  have "\<forall>(i, c) \<in> set (AList.update cid (Client cid) clients). c = Client i"
    using Cons.prems(3) set_alist_update [of cid "Client cid" clients] by auto
  note IH = Cons.IH [OF run _ this]
  have dist: "distinct (map fst cs)" "cid \<notin> fst ` set cs" using Cons.prems(2) x by simp_all
  then have "w_endpoints v cid = eps" using IH u(2) by simp
  with IH dist NewClient_pool [OF eps] have "pools_of (x # cs) v" by (simp add: pools_of_def x)
  with IH dist u x prepared_trans [OF u(1)] show ?case by (auto simp: dom_update)
qed

lemma fee_call:
  assumes "ec_LatestBaseFee (Client cid) w = (r, v)"
  shows "same_nodes w v \<and> w_db v = w_db w"
  using assms rpc_call_nodes [of True cid rpc_LatestBaseFee w]
  by (auto simp: Client_def LatestBaseFee_def split: prod.splits sum.splits option.splits)

text \<open>Detection changes nothing but the flag.\<close>

definition unflagged :: "(u64 \<times> chain_config) list \<Rightarrow> (u64 \<times> chain_config) list" where
  "unflagged cs = map (\<lambda>(cid, c). (cid, c\<lparr>ch_SupportsEIP1559 := True\<rparr>)) cs"

lemma unflagged_keys: "unflagged ds = unflagged cs \<Longrightarrow> map fst ds = map fst cs"
proof -
  have "map fst (unflagged es) = map fst es" for es by (auto simp: unflagged_def)
  then show "unflagged ds = unflagged cs \<Longrightarrow> ?thesis" by metis
qed

lemma unflagged_ids:
  assumes "unflagged ds = unflagged cs" and "\<forall>(cid, c) \<in> set cs. ch_ChainID c = cid"
  shows "\<forall>(cid, c) \<in> set ds. ch_ChainID c = cid"
proof -
  have "(\<forall>(cid, c) \<in> set (unflagged es). ch_ChainID c = cid) \<longleftrightarrow> (\<forall>(cid, c) \<in> set es. ch_ChainID c = cid)" for es
    by (force simp: unflagged_def)
  with assms show ?thesis by metis
qed

lemma unflagged_set_flag:
  "unflagged (map (\<lambda>(cid, c). (cid, if cid = k then c\<lparr>ch_SupportsEIP1559 := b\<rparr> else c)) cs) = unflagged cs"
  by (auto simp: unflagged_def)

lemma same_nodes_trans: "same_nodes u v \<Longrightarrow> same_nodes v w \<Longrightarrow> same_nodes u w"
  by (simp add: same_nodes_def)

lemma detect_fees_ok:
  assumes "detect_fees ks cs w = (ds, v)" and "\<forall>(cid, c) \<in> set ks. c = Client cid"
  shows "unflagged ds = unflagged cs \<and> same_nodes w v \<and> w_db v = w_db w"
  using assms
proof (induction ks arbitrary: cs w)
  case Nil
  then show ?case by (simp add: same_nodes_def)
next
  case (Cons k ks)
  obtain cid where k: "k = (cid, Client cid)" using Cons.prems(2) by (cases k) auto
  obtain r u where call: "ec_LatestBaseFee (Client cid) w = (r, u)" by (cases "ec_LatestBaseFee (Client cid) w")
  define cs' where "cs' = map (\<lambda>(i, c). (i, if i = cid then c\<lparr>ch_SupportsEIP1559 :=
    (case r of Inl _ \<Rightarrow> False | Inr _ \<Rightarrow> True)\<rparr> else c)) cs"
  have "detect_fees ks cs' u = (ds, v)" using Cons.prems(1) k call by (simp add: cs'_def)
  from Cons.IH [OF this] Cons.prems(2) fee_call [OF call] same_nodes_trans [of w u v]
  show ?case by (simp add: cs'_def unflagged_set_flag)
qed

section \<open>Startup\<close>

text \<open>The nodes of the configured chains report pending nonces above all that are recorded as used.\<close>

definition nodes_caught_up :: "'key eth_lib \<Rightarrow> (u64 \<times> chain_config) list \<Rightarrow> world \<Rightarrow> bool" where
  "nodes_caught_up L cs w \<longleftrightarrow> (\<forall>(cid, chain) \<in> set cs. \<forall>url \<in> set (ch_RPCEndpoints chain). \<forall>t a k.
     rpc_PendingNonceAt (w_rpc w) url t a = Inr k \<longrightarrow>
     (\<forall>r \<in> set (d_transactions (w_db w)). \<forall>n. r_status r \<noteq> TxStatusPending \<longrightarrow>
        r_sender r = ToLower (Address_Hex L a) \<longrightarrow> r_chain_id r = int (unat cid) \<longrightarrow>
        r_nonce r = Some n \<longrightarrow> n < int (unat k)))"

lemma caught_up_know:
  assumes "nodes_caught_up L cs w" and "pools_of cs v" and "w_rpc v = w_rpc w" and "w_db v = w_db w"
  shows "nodes_know L (map fst cs) v"
  unfolding nodes_know_def
proof (intro ballI allI impI)
  fix cid url t a k r n
  assume cid: "cid \<in> set (map fst cs)" and url: "url \<in> ep_url ` set (w_endpoints v cid)"
    and k: "rpc_PendingNonceAt (w_rpc v) url t a = Inr k" and r: "r \<in> set (d_transactions (w_db v))"
      "r_status r \<noteq> TxStatusPending" "r_sender r = ToLower (Address_Hex L a)"
      "r_chain_id r = int (unat cid)" "r_nonce r = Some n"
  from cid obtain chain where chain: "(cid, chain) \<in> set cs" by auto
  with assms(2) url have "url \<in> set (ch_RPCEndpoints chain)" by (force simp: pools_of_def)
  with chain assms(1) k r assms(3,4) show "n < int (unat k)" unfolding nodes_caught_up_def by fastforce
qed

lemma pools_of_range [simp]: "pools_of (range_order cs u) w = pools_of cs w"
  by (simp add: pools_of_def)

lemma start_pipelines_db: "start_pipelines L m cs acc w = (acc', v) \<Longrightarrow> w_db v = w_db w"
  by (induction L m cs acc w rule: start_pipelines.induct) (auto split: option.splits)

lemma Start_db: "Start L m w = (gs, m', v) \<Longrightarrow> w_db v = w_db w"
  by (auto simp: Start_def split: prod.splits dest: start_pipelines_db)

lemma start_service_ok:
  assumes "start_service L dial cfg w = (Inr sv, v)" and "config_ok C cfg"
  shows "(alone w \<and> sys_ok (w_db w) \<and> nodes_caught_up L (cf_Chains cfg) w \<longrightarrow> sys_ok (w_db v) \<and> none_pending v)
    \<and> distinct (map serves (routine_pipelines (sv_goroutines sv)))
    \<and> serves ` set (routine_pipelines (sv_goroutines sv))
        = fst ` set (cf_Keys cfg) \<times> fst ` set (cf_Chains cfg)
    \<and> distinct (poller_chains (sv_goroutines sv))
    \<and> set (poller_chains (sv_goroutines sv)) = fst ` set (cf_Chains cfg)
    \<and> detector_chains (sv_goroutines sv) = poller_chains (sv_goroutines sv)"
proof -
  let ?cs = "range_order (cf_Chains cfg) w"
  have cs: "distinct (map fst (cf_Chains cfg))" "\<forall>(cid, c) \<in> set (cf_Chains cfg). ch_ChainID c = cid"
    using assms(2) by (auto simp: config_ok_def chains_ok_def chain_ok_def)
  obtain clients w1 where 1: "init_clients dial ?cs [] w = (Inr clients, w1)"
    using assms(1) by (auto simp: start_service_def split: prod.splits sum.splits)
  have "prepared w w1 \<and> pools_of ?cs w1 \<and> fst ` set clients = fst ` set ?cs
      \<and> (\<forall>(cid, c) \<in> set clients. c = Client cid)"
    using init_clients_ok [OF 1 distinct_range_keys [OF cs(1)]] by simp
  then have w1: "prepared w w1" "pools_of (cf_Chains cfg) w1"
    "fst ` set clients = fst ` set (cf_Chains cfg)" "\<forall>(cid, c) \<in> set clients. c = Client cid" by simp_all
  obtain configs w2 where 2: "detect_fees (range_order clients w1) (cf_Chains cfg) w1 = (configs, w2)"
    by (cases "detect_fees (range_order clients w1) (cf_Chains cfg) w1")
  have w2: "unflagged configs = unflagged (cf_Chains cfg)" "same_nodes w1 w2" "w_db w2 = w_db w1"
    using detect_fees_ok [OF 2] w1(4) by simp_all
  let ?m = "NewManager clients (LocalSigner L (cf_Keys cfg)) configs"
  obtain w3 where 3: "InitNonces L ?m w2 = (None, w3)"
    using assms(1) 1 2 by (auto simp: start_service_def Let_def split: prod.splits option.splits)
  obtain gs mgr where 4: "Start L ?m w3 = (gs, mgr, v)" and sv: "sv_goroutines sv = gs"
    using assms(1) 1 2 3 by (auto simp: start_service_def Let_def split: prod.splits)
  have w3: "sys_ok (w_db w3) \<and> none_pending w3"
    if "alone w" "sys_ok (w_db w)" "nodes_caught_up L (cf_Chains cfg) w"
  proof -
    have "nodes_know L (map fst (cf_Chains cfg)) w1"
      using caught_up_know [OF that(3) w1(2)] w1(1) by (simp add: prepared_def)
    then have "recovering L (map fst (cf_Chains cfg)) w1"
      using that(1,2) w1(1) by (simp add: recovering_def prepared_def alone_def)
    then have "recovering L (map fst (cf_Chains cfg)) w2"
      by (rule recovering_step) (use w2 that(2) w1(1) in \<open>simp_all add: prepared_def\<close>)
    moreover have "\<forall>(cid, c) \<in> set clients. cid \<in> set (map fst (cf_Chains cfg)) \<and> c = Client cid"
      using w1(3,4) by (auto simp: image_iff) force
    ultimately have "sys_ok (w_db w3)" "none_pending w3"
      using InitNonces_recovers 3 by (fastforce simp: recovering_def)+
    then show ?thesis by simp
  qed
  have keys: "map fst configs = map fst (cf_Chains cfg)" using unflagged_keys [OF w2(1)] .
  then have dom: "fst ` set configs = fst ` set (cf_Chains cfg)" by (metis list.set_map)
  have "dom (map_of clients) = fst ` set configs" using w1(3) dom by (simp add: dom_map_of_conv_image_fst)
  then have served: "served_chains ?m configs = fst ` set (cf_Chains cfg)" by (simp add: served_chains_def dom)
  have own: "{a. sg_HasAddress (LocalSigner L (cf_Keys cfg)) a} = fst ` set (cf_Keys cfg)"
    by (auto simp: LocalSigner_def HasAddress_def map_of_eq_None_iff simp del: not_None_eq)
  note eff = service.Start_effect [OF 4, of "fst ` set (cf_Keys cfg) \<times> fst ` set (cf_Chains cfg)"]
  have "w_db v = w_db w3" using Start_db [OF 4] .
  with w3 eff sv served own keys cs unflagged_ids [OF w2(1) cs(2)] show ?thesis
    by (simp add: none_pending_def)
qed

section \<open>A startup for the witness\<close>

lemma range_order_single [simp]: "range_order [x] w = [x]"
proof -
  have "mset (range_order [x] w) = {#x#}" by simp
  then show ?thesis by (metis mset_single_iff mset_eq_length length_0_conv length_Suc_conv
      mset.simps(1,2) add_mset_eq_single)
qed

lemma sample_rpc:
  "run_state (parseChain L (sample_viper file) cid) v = (Inr chain, u) \<Longrightarrow> ch_RPCEndpoints chain = [''a'']"
  by (elim parseChainE) (auto dest!: chain_limits_ok)

lemma sample_config:
  "\<exists>cfg chain. Load sample_lib sample_crypto (sample_viper url_file) Map.empty sample_env = Ret (Inr cfg, [''HOME=/''])
     \<and> cf_Keys cfg = [(7, 7)] \<and> cf_Chains cfg = [(1, chain)] \<and> ch_RPCEndpoints chain = [''a'']"
proof -
  obtain cfg where cfg: "Load sample_lib sample_crypto (sample_viper url_file) Map.empty sample_env
      = Ret (Inr cfg, [''HOME=/''])" using sample_Load by blast
  obtain v u where "run_state (loadChains sample_lib (sample_viper url_file)) v = (Inr (cf_Chains cfg), u)"
    "loadKeys sample_lib sample_crypto sample_env = Ret (Inr (cf_Keys cfg), [''HOME=/''])"
    using Load_cases [OF cfg] by blast
  moreover have one: "ParseUint ''1'' = Some 1"
    by (simp add: ParseUint_def scan_nat_def is_digit_def digit_val_def)
  ultimately obtain chain v1 where "run_state (parseChain sample_lib (sample_viper url_file) 1) v = (Inr chain, v1)"
    "cf_Chains cfg = [(1, chain)]" "cf_Keys cfg = [(7, 7)]"
    by (auto simp: loadChains_def one sample_loadKeys Let_def split: prod.splits sum.splits)
  with cfg sample_rpc show ?thesis by blast
qed

lemma sample_recovery:
  assumes "calm w" and "w_rpc w = w_rpc (restart_world 6)" and "w_endpoints w 1 = one_up"
    and "w_db w = submitted_db"
  shows "\<exists>v. InitNonces sample_lib (NewManager [(1, Client 1)] (LocalSigner sample_lib [(7, 7)]) configs) w = (None, v)"
proof -
  define u where "u = after_stmt (submitted_db\<lparr>d_transactions := map (reset_row (time_now w)) (d_transactions submitted_db)\<rparr>) w"
  have reset: "\<exists>n. ResetPendingToQueued w = (Inr n, u)"
    using assms(1,4) by (simp add: ResetPendingToQueued_def calm_runs u_def Let_def)
  have u: "calm u" "w_rpc u = w_rpc (restart_world 6)" "w_endpoints u 1 = one_up"
    "d_cursors (w_db u) = d_cursors submitted_db"
    using assms by (simp_all add: u_def)
  obtain w1 where w1: "PendingNonceAt 1 7 u = (Inr 6, w1)"
    using u(2,3) by (auto simp: PendingNonceAt_def rpc_call_def getClient_def one_up_def)
  have "quiet u w1" using w1 quiet_rpc_call by (simp add: PendingNonceAt_def)
  then have c1: "calm w1" "w_db w1 = w_db u"
    using u(1) by (simp_all add: quiet_def rpc_frame_def calm_def)
  have s: "ToLower (Address_Hex sample_lib 7) = ''0x7''"
    using sample_ids(1) by (simp add: senderHex_def)
  have "fst (initNonceForSender sample_lib 7 1 (Client 1) u) = None"
    by (simp add: initNonceForSender_def Client_def w1 s c1 u(4) GetNonceCursor_def calm_runs
        no_rows_is_nil_def submitted_cursors c_key_def bigint_def SetNonceCursor_def Let_def)
  moreover have "sg_Addresses (LocalSigner sample_lib [(7, 7 :: nat)]) u = [7]"
    by (simp add: LocalSigner_def Addresses_def)
  ultimately show ?thesis
    using reset by (cases "initNonceForSender sample_lib 7 1 (Client 1) u")
      (auto simp: InitNonces_def NewManager_def)
qed

lemma sample_Migrate: "calm w \<Longrightarrow> \<exists>v. Migrate w = (None, v)"
  by (simp add: Migrate_def migration_def calm_runs)

lemma sample_start:
  assumes "calm w" and "w_rpc w = w_rpc (restart_world 6)" and "w_db w = submitted_db"
    and "cf_Keys cfg = [(7, 7)]" and "cf_Chains cfg = [(1, chain)]" and "ch_RPCEndpoints chain = [''a'']"
  shows "\<exists>sv v. start_service sample_lib (\<lambda>url. None) cfg w = (Inr sv, v)"
proof -
  let ?eps = "[\<lparr>ep_url = ''a'', ep_healthy = True\<rparr>]"
  define w1 where "w1 = upd_endpoints 1 (\<lambda>_. ?eps) w"
  have 1: "init_clients (\<lambda>url. None) [(1, chain)] [] w = (Inr [(1, Client 1)], w1)"
    using assms(6) by (simp add: NewClient_def w1_def)
  have w1: "calm w1" "w_rpc w1 = w_rpc w" "w_endpoints w1 1 = one_up" "w_db w1 = w_db w"
    using assms(1) by (simp_all add: w1_def upd_endpoints_def one_up_def)
  have "ec_LatestBaseFee (Client 1) w1 = (Inr 2000, tick w1)"
    using w1(2,3) assms(2) by (simp add: Client_def LatestBaseFee_def rpc_call_def getClient_def one_up_def
        restart_world_def sample_nodes_def)
  then obtain configs where 2: "detect_fees [(1, Client 1)] [(1, chain)] w1 = (configs, tick w1)" by simp
  obtain w3 where 3: "InitNonces sample_lib (NewManager [(1, Client 1)] (LocalSigner sample_lib [(7, 7)]) configs)
      (tick w1) = (None, w3)"
    using sample_recovery [of "tick w1" configs] w1 assms(2,3) by auto
  obtain gs mgr v where "Start sample_lib (NewManager [(1, Client 1)] (LocalSigner sample_lib [(7, 7)]) configs) w3
      = (gs, mgr, v)" by (metis prod.exhaust)
  then show ?thesis
    by (simp add: start_service_def assms(4,5) 1 2 3 Let_def del: init_clients.simps detect_fees.simps)
qed

definition any_pool :: pgx_lib where
  "any_pool = \<lparr>pg_ParseConfig = (\<lambda>_. None), pg_NewWithConfig = (\<lambda>_. None)\<rparr>"

section \<open>Properties\<close>

text \<open>C6: What comes up is complete: whenever the service starts, it runs exactly one pipeline for each
  signing key on each configured chain and one poller and one detector for each chain, and every key
  is the verified key of its address. If besides no one else writes meanwhile, the database kept the
  invariants, and every configured node reports pending nonces above all that are recorded (which the
  code does not check), then the invariants hold and no transaction is pending.\<close>

theorem service_comes_up:
  assumes "run_service L C V G dial v0 env w = Ret (Inr sv, v)"
    and "Load L C V v0 env = Ret (Inr cfg, env')"
  shows "distinct (map serves (routine_pipelines (sv_goroutines sv)))
    \<and> serves ` set (routine_pipelines (sv_goroutines sv))
        = fst ` set (cf_Keys cfg) \<times> fst ` set (cf_Chains cfg)
    \<and> distinct (poller_chains (sv_goroutines sv))
    \<and> set (poller_chains (sv_goroutines sv)) = fst ` set (cf_Chains cfg)
    \<and> detector_chains (sv_goroutines sv) = poller_chains (sv_goroutines sv)
    \<and> (\<forall>(a, k) \<in> set (cf_Keys cfg). PubkeyToAddress C k = a)
    \<and> (alone w \<and> sys_ok (w_db w) \<and> nodes_caught_up L (cf_Chains cfg) w \<longrightarrow> sys_ok (w_db v) \<and> none_pending v)"
proof -
  obtain w1 where 1: "connect G (cf_Database cfg) w = (None, w1)"
    using assms by (auto simp: run_service_def split: prod.splits option.splits)
  then have p1: "prepared w w1"
    by (auto simp: connect_def Ping_def prepared_def split: db_outcome.splits option.splits prod.splits)
  obtain w2 where 2: "Migrate w1 = (None, w2)"
    using assms 1 by (auto simp: run_service_def split: prod.splits option.splits)
  have run: "start_service L dial cfg w2 = (Inr sv, v)" using assms 1 2 by (simp add: run_service_def)
  have cfg: "config_ok C cfg" using Load_config_ok [OF assms(2)] .
  note ok = start_service_ok [OF run cfg]
  have "sys_ok (w_db v) \<and> none_pending v"
    if "alone w" "sys_ok (w_db w)" "nodes_caught_up L (cf_Chains cfg) w"
  proof -
    have p: "prepared w w2"
      using prepared_trans [OF p1 Migrate_prepares [OF 2 alone_prepared [OF p1 that(1)]]] .
    have "nodes_caught_up L (cf_Chains cfg) w2" using that(3) p by (simp add: nodes_caught_up_def prepared_def)
    then show ?thesis using ok alone_prepared [OF p that(1)] that(2) p by (simp add: prepared_def)
  qed
  then show ?thesis using ok cfg by (simp add: config_ok_def)
qed

theorem service_comes_up_witness:
  "\<exists>sv v. run_service sample_lib sample_crypto (sample_viper url_file) any_pool (\<lambda>url. None) Map.empty sample_env
       (restart_world 6) = Ret (Inr sv, v)
     \<and> serves ` set (routine_pipelines (sv_goroutines sv)) = {(7, 1)} \<and> sys_ok (w_db v) \<and> none_pending v"
proof -
  let ?w = "restart_world 6"
  obtain cfg chain where load: "Load sample_lib sample_crypto (sample_viper url_file) Map.empty sample_env
      = Ret (Inr cfg, [''HOME=/''])" and cfg: "cf_Keys cfg = [(7, 7)]" "cf_Chains cfg = [(1, chain)]"
      "ch_RPCEndpoints chain = [''a'']" using sample_config by blast
  have ping: "connect any_pool (cf_Database cfg) ?w = (None, tick ?w)"
    by (simp add: connect_def any_pool_def Ping_def restart_world_def)
  obtain w2 where mig: "Migrate (tick ?w) = (None, w2)" using sample_Migrate [of "tick ?w"] by auto
  have "alone (tick ?w)" using restart_world_fields(4) by (simp add: alone_def)
  note p = Migrate_prepares [OF mig this]
  have "calm w2"
    using mig by (auto simp: Migrate_def migration_def calm_runs split: if_splits)
  then obtain sv v where sv: "start_service sample_lib (\<lambda>url. None) cfg w2 = (Inr sv, v)"
    using sample_start [of w2 cfg chain] p cfg by (auto simp: prepared_def)
  have run: "run_service sample_lib sample_crypto (sample_viper url_file) any_pool (\<lambda>url. None) Map.empty sample_env ?w
      = Ret (Inr sv, v)" by (simp add: run_service_def load ping mig sv)
  have "sys_ok (w_db ?w)" using reachable_sys_ok [OF reach_submitted] fresh_sys_ok fresh_start_db by simp
  moreover have "nodes_caught_up sample_lib (cf_Chains cfg) ?w"
    by (auto simp: nodes_caught_up_def cfg sample_submitted)
  ultimately show ?thesis
    using service_comes_up [OF run load] restart_world_fields(4) run cfg by auto
qed

end
