(* ===== verification/ApiFacts.thy ===== *)
theory ApiFacts
  imports TransferFacts ManagerFacts
begin

text \<open>
  What the HTTP handlers promise: creating a transfer only makes steps of the protocol, one key
  creates one transaction however the handlers and goroutines interleave, amounts stay within their
  bounds, and the read handlers show what is stored.
\<close>

section \<open>The environment of a handler\<close>

text \<open>Handlers run beside every goroutine and beside other handlers.\<close>

definition rely_any :: "world \<Rightarrow> bool" where
  "rely_any w \<longleftrightarrow> (\<forall>t d. sys_ok d \<longrightarrow> any_step\<^sup>*\<^sup>* d (w_others w t d))"

definition api_goes :: "world \<Rightarrow> world \<Rightarrow> bool" where
  "api_goes w v \<longleftrightarrow> runs (sys_step ''api'') (\<lambda>d s. False) w v \<and> rely_any v \<and> sys_ok (w_db v)
     \<and> any_step\<^sup>*\<^sup>* (w_db w) (w_db v)"

definition api_good :: "world \<Rightarrow> bool" where
  "api_good w \<longleftrightarrow> rely_any w \<and> sys_ok (w_db w)"

lemma api_now:
  assumes "api_good w"
  shows "any_step\<^sup>*\<^sup>* (w_db w) (db_now w)" and "sys_ok (db_now w)"
proof -
  show steps: "any_step\<^sup>*\<^sup>* (w_db w) (db_now w)"
    using assms by (simp add: api_good_def rely_any_def db_now_def)
  show "sys_ok (db_now w)" using reachable_sys_ok [OF steps] assms by (simp add: api_good_def)
qed

lemma api_goes_start [simp]: "api_goes w w = api_good w"
  by (auto simp: api_goes_def api_good_def intro: runs_start)

lemma api_goes_trans: "api_goes w u \<Longrightarrow> api_goes u v \<Longrightarrow> api_goes w v"
  unfolding api_goes_def by (meson runs_trans rtranclp_trans)

lemma api_goes_good: "api_goes w v \<Longrightarrow> api_good v"
  by (simp add: api_goes_def api_good_def)

lemma api_stmt:
  assumes "api_good w" and "one_stmt w v" and "sys_step ''api'' (db_now w) (w_db v)"
  shows "api_goes w v"
proof -
  have "runs (sys_step ''api'') (\<lambda>d s. False) w v"
    using assms(2,3) by (intro runs_one [of _ _ "db_now w"]) (auto simp: one_stmt_def)
  moreover have "any_step\<^sup>*\<^sup>* (w_db w) (w_db v)" using api_now(1) [OF assms(1)] assms(3) by (rule any_stepI [rotated])
  ultimately show ?thesis
    using assms api_now(2) [OF assms(1)] sys_step_ok
    by (auto simp: api_goes_def api_good_def rely_any_def one_stmt_def same_env_def)
qed

lemma api_still: "api_good w \<Longrightarrow> still w v \<Longrightarrow> api_goes w v"
  using runs_still [OF runs_start] by (auto simp: api_goes_def api_good_def rely_any_def still_def)

lemma runs_silent: "runs G (\<lambda>d s. False) w v \<Longrightarrow> w_sent v = w_sent w"
  by (induction rule: runs.induct) (auto simp: still_def same_env_def)

lemma api_read: "api_good w \<Longrightarrow> one_stmt w v \<Longrightarrow> w_db v = db_now w \<Longrightarrow> api_goes w v"
  using step_idle by (intro api_stmt) simp_all

lemma logTransition_api: "api_good w \<Longrightarrow> api_goes w (logTransition i src dst act reason w)"
proof -
  assume good: "api_good w"
  let ?l = "\<lparr>sl_TransactionID = i, sl_FromStatus = src, sl_ToStatus = dst, sl_Actor = act,
    sl_Reason = reason\<rparr>"
  obtain e v where log: "LogStateTransition ?l w = (e, v)" by (cases "LogStateTransition ?l w")
  have "sys_step ''api'' (db_now w) (w_db v)"
    using Log_effect [OF log] step_idle step_log by metis
  then have "api_goes w v" using good one_stmt_calls(14) [OF log] by (rule api_stmt [rotated 2])
  then show ?thesis using log by (simp add: logTransition_def)
qed

lemma still_Notify: "still w (NotifyPipeline L m s c w)"
  by (auto simp: NotifyPipeline_def Notify_def still_def split: option.split)

section \<open>Requests that a stored row answers\<close>

text \<open>The columns of the request that no statement ever changes.\<close>

definition request_columns :: "tx_row \<Rightarrow> string \<times> string \<times> int \<times> string \<times> string \<times> string \<times> string \<times> string option \<times> instant" where
  "request_columns r = (r_id r, r_idempotency_key r, r_chain_id r, r_sender r, r_transfer_token r,
     r_transfer_amount r, r_transfer_recipient r, r_token_contract r, r_created_at r)"

lemma request_columns_rows [simp]:
  "request_columns (claim_row x t r) = request_columns r"
  "request_columns (failed_row code reason t r) = request_columns r"
  "request_columns (submitted_row h t r) = request_columns r"
  "request_columns (resubmitted_row t r) = request_columns r"
  "request_columns (nonce_row n t r) = request_columns r"
  "request_columns (confirmed_row t r) = request_columns r"
  "request_columns (included_row t r) = request_columns r"
  "request_columns (reverted_row t r) = request_columns r"
  by (simp_all add: request_columns_def row_update_defs)

lemma receipt_request_columns:
  "receipt_columns rc = Inr f \<Longrightarrow> request_columns (f r) = request_columns r"
  by (elim receipt_columnsE) (simp add: request_columns_def)

lemma upd_by_request:
  assumes "r \<in> set rows" and "\<And>r. request_columns (f r) = request_columns r"
  shows "\<exists>r' \<in> set (upd_by r_id i f rows). request_columns r' = request_columns r"
  using assms by (cases "r_id r = i") (auto simp: bex_upd_by)

lemma step_request:
  assumes "sys_step y d d'" and "r \<in> set (d_transactions d)"
  shows "\<exists>r' \<in> set (d_transactions d'). request_columns r' = request_columns r"
  using assms
proof (induction rule: sys_step.induct)
  case (step_assign i d s c t n d1 t' d')
  obtain k f m where "d' = upd_tx i (nonce_row m t') (upd_cursor k f d)"
    using assign_effect [OF step_assign.hyps(3,4)] by blast
  with step_assign.prems show ?case by (simp add: upd_by_request)
next
  case (step_receipt i d rc f g t)
  have "request_columns ((g \<circ> f) r) = request_columns r" for r
    using step_receipt.hyps(4) receipt_request_columns [OF step_receipt.hyps(2)] by auto
  with step_receipt.prems show ?case by (simp add: upd_by_request)
next
  case (step_create tx d d')
  then show ?case by (auto elim!: insert_txE)
qed (auto elim!: insert_attemptE intro!: upd_by_request)

lemma reachable_request:
  assumes "any_step\<^sup>*\<^sup>* d d'" and "r \<in> set (d_transactions d)"
  shows "\<exists>r' \<in> set (d_transactions d'). request_columns r' = request_columns r"
  using assms
proof (induction rule: rtranclp_induct)
  case (step d1 d2)
  then show ?case unfolding any_step_def using step_request by metis
qed blast

text \<open>
  A row answers a request when it carries its key and its parameters; \<open>b\<close> is then the response, with
  the row's present status.
\<close>

definition row_answers :: "'key eth_lib \<Rightarrow> transfer_request \<Rightarrow> transfer_response \<Rightarrow> tx_row \<Rightarrow> bool" where
  "row_answers L req b r \<longleftrightarrow> r_idempotency_key r = rq_IdempotencyKey req
     \<and> idempotencyMatch L (scanTransaction r) req
     \<and> txToTransferResponse (scanTransaction r) = b\<lparr>tr_Status := status_text (r_status r)\<rparr>"

definition answered :: "'key eth_lib \<Rightarrow> transfer_request \<Rightarrow> transfer_response \<Rightarrow> db \<Rightarrow> bool" where
  "answered L req b d \<longleftrightarrow> (\<exists>r \<in> set (d_transactions d). row_answers L req b r)"

lemma row_answers_columns:
  assumes "row_answers L req b r" and "request_columns r' = request_columns r"
  shows "row_answers L req b r'"
proof -
  have "txToTransferResponse (scanTransaction r')
      = (txToTransferResponse (scanTransaction r))\<lparr>tr_Status := status_text (r_status r')\<rparr>"
    using assms(2) by (simp add: txToTransferResponse_def scanTransaction_def Let_def request_columns_def)
  with assms show ?thesis
    by (auto simp: row_answers_def idempotencyMatch_def scanTransaction_def Let_def request_columns_def)
qed

lemma answered_reachable: "any_step\<^sup>*\<^sup>* d d' \<Longrightarrow> answered L req b d \<Longrightarrow> answered L req b d'"
  unfolding answered_def using reachable_request row_answers_columns by metis

text \<open>What the lookup by key returns.\<close>

lemma lookup_key:
  assumes "GetTransactionByIdempotencyKey k w = (res, v)"
  shows "w_db v = db_now w"
    and "res = Inr (Some tx) \<Longrightarrow> \<exists>r \<in> set (d_transactions (db_now w)). r_idempotency_key r = k
      \<and> tx = scanTransaction r"
    and "res = Inr None \<Longrightarrow> k \<notin> r_idempotency_key ` set (d_transactions (db_now w))"
proof -
  show "w_db v = db_now w" using reads_only(2) [OF assms] .
  let ?q = "\<lambda>d. case row_by r_idempotency_key k (d_transactions d) of
      None \<Rightarrow> Inl ErrNoRows | Some r \<Rightarrow> Inr (scanTransaction r)"
  obtain s where q: "query ?q w = (s, v)" and s: "no_rows_is_nil (s, v) = (res, v)"
    using assms no_rows_is_nil_eq unfolding GetTransactionByIdempotencyKey_def by metis
  show "\<exists>r \<in> set (d_transactions (db_now w)). r_idempotency_key r = k \<and> tx = scanTransaction r"
    if "res = Inr (Some tx)"
  proof -
    have "s = Inr tx" using s that by (auto simp: no_rows_is_nil_def split: sum.splits go_error.splits)
    with q have "?q (db_now w) = Inr tx" using query_ok [of ?q w tx v] by simp
    then show ?thesis by (auto split: option.splits dest: row_by_Some_in)
  qed
  show "k \<notin> r_idempotency_key ` set (d_transactions (db_now w))" if "res = Inr None"
  proof -
    have "s = Inl ErrNoRows" using s that by (auto simp: no_rows_is_nil_def split: sum.splits go_error.splits)
    with q have "?q (db_now w) = Inl ErrNoRows"
      by (auto simp: query_def run_stmt_def Let_def split: db_outcome.splits sum.splits)
    then show ?thesis by (auto simp: row_by_None_iff split: option.splits)
  qed
qed

section \<open>The handler of transfers\<close>

lemma validate_chain: "validate L h req = None \<Longrightarrow> map_of (th_chains h) (rq_ChainID req) \<noteq> None"
  by (auto simp: validate_def split: if_splits)

lemma new_transaction_fields [simp]:
  "tx_Status (new_transaction L req params tc dc prio i t) = TxStatusQueued"
  "tx_ID (new_transaction L req params tc dc prio i t) = i"
  "tx_IdempotencyKey (new_transaction L req params tc dc prio i t) = rq_IdempotencyKey req"
  "tx_ChainID (new_transaction L req params tc dc prio i t) = rq_ChainID req"
  "tx_Sender (new_transaction L req params tc dc prio i t)
     = ToLower (Address_Hex L (HexToAddress L (rq_Sender req)))"
  "tx_Value (new_transaction L req params tc dc prio i t) = pm_Value params"
  by (simp_all add: new_transaction_def)

lemma stored_new_transaction [simp]:
  "stored_form (new_transaction L req params tc dc prio i t) = new_transaction L req params tc dc prio i t"
  by (simp add: stored_form_def new_transaction_def)

text \<open>The answer to a request whose transaction has just been stored.\<close>

definition created_body ::
    "'key eth_lib \<Rightarrow> transfer_request \<Rightarrow> string \<Rightarrow> string \<Rightarrow> string \<Rightarrow> instant \<Rightarrow> transfer_response" where
  "created_body L req tc transferType i t =
     \<lparr>tr_ID = i, tr_Status = status_text TxStatusQueued, tr_ChainID = rq_ChainID req,
      tr_Sender = ToLower (Address_Hex L (HexToAddress L (rq_Sender req))),
      tr_Recipient = ToLower (Address_Hex L (HexToAddress L (rq_Recipient req))),
      tr_Token = ToUpper (rq_Token req), tr_Amount = rq_Amount req, tr_TransferType = transferType,
      tr_TokenContract = tc, tr_CreatedAt = t\<rparr>"

lemma store_transfer_cases:
  assumes "store_transfer L h req ty tx w = (resp, v)" and "tx_Status tx = TxStatusQueued"
    and "api_good w"
  shows "api_goes w v \<and> (rs_Status resp = 202 \<longrightarrow>
    (\<exists>d d'. insert_tx tx d = Inr d' \<and> any_step\<^sup>*\<^sup>* d' (w_db v)))"
proof -
  obtain e u where call: "CreateTransaction tx w = (e, u)" by (cases "CreateTransaction tx w")
  have "sys_step ''api'' (db_now w) (w_db u)"
    using CreateTransaction_effect [OF call] step_idle step_create [OF refl _ assms(2)] by metis
  with assms(3) one_stmt_calls(1) [OF call] have u: "api_goes w u" by (rule api_stmt)
  show ?thesis
  proof (cases e)
    case (Some er)
    then show ?thesis
      using assms(1) call u by (auto simp: store_transfer_def writeError_def writeJSON_def NewAppError_def)
  next
    case None
    define reason where "reason = ''transfer '' @ rq_Amount req @ '' '' @ rq_Token req @ '' to '' @ rq_Recipient req"
    define u1 where "u1 = logTransition (tx_ID tx) [] (status_text TxStatusQueued) ''api'' reason u"
    have v: "v = NotifyPipeline L (th_manager h) (tx_Sender tx) (tx_ChainID tx) u1"
      using assms(1) call None by (simp add: store_transfer_def Let_def u1_def reason_def)
    have "api_goes u u1" using logTransition_api [OF api_goes_good [OF u]] by (simp add: u1_def)
    moreover from this have "api_goes u1 v" using api_still [OF api_goes_good still_Notify] v by blast
    ultimately have uv: "api_goes u v" by (rule api_goes_trans)
    have "insert_tx tx (db_now w) = Inr (w_db u)"
      using call None exec_ok [of "insert_tx tx" w u] by (simp add: CreateTransaction_def)
    moreover have "any_step\<^sup>*\<^sup>* (w_db u) (w_db v)" using uv by (simp add: api_goes_def)
    ultimately show ?thesis using api_goes_trans [OF u uv] by blast
  qed
qed

text \<open>Capitalisation does not matter for the comparison of addresses.\<close>

lemma lower_char_idem [simp]: "lower_char (lower_char c) = lower_char c"
proof -
  have "of_char c < (256 :: nat)" by simp
  then show ?thesis by (auto simp: lower_char_def Let_def)
qed

lemma ToLower_idem [simp]: "ToLower (ToLower s) = ToLower s"
  by (simp add: ToLower_def)

lemma EqualFold_ToLower [simp]: "EqualFold (ToLower s) s"
  by (simp add: EqualFold_def)

lemma ToLower_eq_Nil [simp]: "ToLower s = [] \<longleftrightarrow> s = []"
  by (simp add: ToLower_def)

lemma scan_status: "tx_Status (scanTransaction r) = r_status r"
  by (simp add: scanTransaction_def Let_def)

text \<open>The kind of a transfer is read off the token contract again.\<close>

lemma resolve_kind:
  assumes "resolveTransfer L req chain = Inr (params, tc, ty, dc)" and "\<And>a. Address_Hex L a \<noteq> []"
  shows "ty = (if tc \<noteq> [] then ''erc20'' else ''native'')"
  using assms by (auto simp: resolveTransfer_def Let_def split: if_splits sum.splits option.splits)

lemma inserted_answers:
  assumes "insert_tx (new_transaction L req params tc dc prio i t) d = Inr d'"
    and "ty = (if tc \<noteq> [] then ''erc20'' else ''native'')"
  shows "answered L req (created_body L req tc ty i t) d'"
proof -
  obtain row where d': "d' = d\<lparr>d_transactions := d_transactions d @ [row]\<rparr>"
    and key: "r_idempotency_key row = rq_IdempotencyKey req"
    and scan: "scanTransaction row = new_transaction L req params tc dc prio i t"
    using assms(1) by (elim insert_txE) simp
  have "txToTransferResponse (scanTransaction row) = created_body L req tc ty i t"
    using assms(2) by (simp add: scan txToTransferResponse_def created_body_def new_transaction_def)
  moreover have "r_status row = TxStatusQueued"
    using scan by (metis new_transaction_fields(1) scan_status)
  ultimately have "txToTransferResponse (scanTransaction row)
      = (created_body L req tc ty i t)\<lparr>tr_Status := status_text (r_status row)\<rparr>"
    by (simp add: created_body_def)
  moreover have "idempotencyMatch L (scanTransaction row) req"
    by (simp add: scan idempotencyMatch_def new_transaction_def)
  ultimately have "row_answers L req (created_body L req tc ty i t) row"
    using key by (auto simp: row_answers_def)
  then show ?thesis by (simp add: answered_def d')
qed

section \<open>Creating\<close>

lemma new_transfer_cases:
  assumes "api_good w" and "validate L h req = None"
  shows "\<exists>resp v. new_transfer L h req w = Ret (resp, v) \<and> api_goes w v
    \<and> (rs_Status resp = 202 \<longrightarrow> (\<forall>a. Address_Hex L a \<noteq> []) \<longrightarrow>
        (\<exists>b. rs_Body resp = TransferBody b \<and> answered L req b (w_db v)))"
proof -
  obtain chain where chain: "map_of (th_chains h) (rq_ChainID req) = Some chain"
    using validate_chain [OF assms(2)] by auto
  show ?thesis
  proof (cases "resolveTransfer L req chain")
    case (Inl e)
    have "rs_Status (writeError e) \<noteq> 202"
      using Inl by (auto simp: resolveTransfer_def check_amount_def Let_def writeError_def writeJSON_def
          NewAppError_def split: if_splits sum.splits option.splits)
    with Inl chain assms(1) show ?thesis by (simp add: new_transfer_def)
  next
    case (Inr x)
    obtain params tc ty dc where x: "x = (params, tc, ty, dc)" by (cases x)
    show ?thesis
    proof (cases "request_priority req")
      case None
      then show ?thesis
        using Inr x chain assms(1)
        by (simp add: new_transfer_def writeError_def writeJSON_def NewAppError_def)
    next
      case (Some prio)
      define tx where "tx = new_transaction L req params tc dc prio (w_ulid w (w_tick w)) (time_now w)"
      obtain resp v where st: "store_transfer L h req ty tx (tick w) = (resp, v)"
        by (cases "store_transfer L h req ty tx (tick w)")
      have run: "new_transfer L h req w = Ret (resp, v)"
        using Inr x chain Some st by (simp add: new_transfer_def ulid_make_def tx_def)
      have good: "api_good (tick w)" and t: "api_goes w (tick w)"
        using assms(1) api_still [OF assms(1), of "tick w"] by (simp_all add: api_good_def rely_any_def)
      have goes: "api_goes (tick w) v" and ins: "rs_Status resp = 202 \<longrightarrow>
          (\<exists>d d'. insert_tx tx d = Inr d' \<and> any_step\<^sup>*\<^sup>* d' (w_db v))"
        using store_transfer_cases [OF st _ good] by (simp_all add: tx_def)
      have "\<exists>b. rs_Body resp = TransferBody b \<and> answered L req b (w_db v)"
        if r: "rs_Status resp = 202" "\<forall>a. Address_Hex L a \<noteq> []"
      proof -
        have ty: "ty = (if tc \<noteq> [] then ''erc20'' else ''native'')"
          using resolve_kind [OF Inr [unfolded x]] r(2) by blast
        obtain d d' where d: "insert_tx tx d = Inr d'" "any_step\<^sup>*\<^sup>* d' (w_db v)" using ins r(1) by blast
        have "rs_Body resp = TransferBody (created_body L req tc ty (w_ulid w (w_tick w)) (time_now w))"
          using st r(1) by (auto simp: store_transfer_def Let_def writeError_def writeJSON_def NewAppError_def
              created_body_def tx_def new_transaction_def split: prod.splits option.splits)
        moreover have "answered L req (created_body L req tc ty (w_ulid w (w_tick w)) (time_now w)) (w_db v)"
          using answered_reachable [OF d(2) inserted_answers [OF d(1) [unfolded tx_def] ty]] .
        ultimately show ?thesis by blast
      qed
      with run api_goes_trans [OF t goes] show ?thesis by blast
    qed
  qed
qed

text \<open>Every run of \<open>Create\<close>: it returns, it only makes steps of the API, and an answer of 202 names a
  stored transaction.\<close>

lemma validate_status: "validate L h req = Some e \<Longrightarrow> ae_HTTP e \<noteq> 202"
  by (auto simp: validate_def NewAppError_def split: if_splits)

lemma Create_cases:
  assumes "api_good w"
  shows "\<exists>resp v. Create L h body w = Ret (resp, v) \<and> api_goes w v
    \<and> (rs_Status resp = 202 \<longrightarrow> (\<forall>a. Address_Hex L a \<noteq> []) \<longrightarrow> (\<exists>req b. body = Inr req
        \<and> validate L h req = None \<and> rs_Body resp = TransferBody b \<and> answered L req b (w_db v)))"
proof (cases body)
  case (Inl e)
  with assms show ?thesis
    by (simp add: Create_def writeError_def writeJSON_def NewAppError_def)
next
  case (Inr req)
  show ?thesis
  proof (cases "validate L h req")
    case (Some e)
    with Inr assms validate_status [OF Some] show ?thesis
      by (simp add: Create_def writeError_def writeJSON_def)
  next
    case None
    obtain res u where look: "GetTransactionByIdempotencyKey (rq_IdempotencyKey req) w = (res, u)"
      by (cases "GetTransactionByIdempotencyKey (rq_IdempotencyKey req) w")
    have u: "api_goes w u"
      using api_read [OF assms one_stmt_calls(3) [OF look] lookup_key(1) [OF look]] .
    note run = Create_def [of L h body w, unfolded Inr sum.case None option.case look prod.case]
    consider e where "res = Inl e" | "res = Inr None" | tx where "res = Inr (Some tx)"
      by (metis option.exhaust sum.exhaust)
    then show ?thesis
    proof cases
      case 1
      with run u Inr show ?thesis by (simp add: writeError_def writeJSON_def NewAppError_def)
    next
      case 2
      then have "Create L h body w = new_transfer L h req u" using run Inr by simp
      moreover obtain resp v where v: "new_transfer L h req u = Ret (resp, v)" "api_goes u v"
        "rs_Status resp = 202 \<longrightarrow> (\<forall>a. Address_Hex L a \<noteq> []) \<longrightarrow>
          (\<exists>b. rs_Body resp = TransferBody b \<and> answered L req b (w_db v))"
        using new_transfer_cases [OF api_goes_good [OF u] None] by blast
      moreover have "api_goes w v" using api_goes_trans [OF u v(2)] .
      ultimately show ?thesis using Inr None by simp
    next
      case 3
      obtain r where r: "r \<in> set (d_transactions (w_db u))" "r_idempotency_key r = rq_IdempotencyKey req"
        "tx = scanTransaction r" using lookup_key(1,2) [OF look] 3 by metis
      have "answered L req (txToTransferResponse tx) (w_db u)" if "idempotencyMatch L tx req"
        unfolding answered_def row_answers_def using r that
        by (intro bexI [of _ r]) (auto simp: txToTransferResponse_def scan_status)
      with 3 run u Inr None show ?thesis
        by (cases "idempotencyMatch L tx req") (auto simp: writeError_def writeJSON_def NewAppError_def)
    qed
  qed
qed



section \<open>An undisturbed request\<close>

lemma Notify_fields [simp]:
  "w_db (NotifyPipeline L m s c w) = w_db w" "w_sent (NotifyPipeline L m s c w) = w_sent w"
  "w_others (NotifyPipeline L m s c w) = w_others w" "w_dbres (NotifyPipeline L m s c w) = w_dbres w"
  by (simp_all add: NotifyPipeline_def Notify_def split: option.split)

lemma notified:
  "w_notify u = w_notify w \<Longrightarrow> w_notify (NotifyPipeline L m s c u) = w_notify (NotifyPipeline L m s c w)"
  by (simp add: NotifyPipeline_def Notify_def split: option.split)

lemma store_transfer_calm:
  assumes "calm w" and "insert_tx tx (w_db w) = Inr d" and "tx_Status tx = TxStatusQueued"
  shows "\<exists>v l. store_transfer L h req ty tx w = (writeJSON 202 (TransferBody
      \<lparr>tr_ID = tx_ID tx, tr_Status = status_text TxStatusQueued, tr_ChainID = tx_ChainID tx,
       tr_Sender = tx_Sender tx, tr_Recipient = tx_TransferRecipient tx,
       tr_Token = tx_TransferToken tx, tr_Amount = tx_TransferAmount tx, tr_TransferType = ty,
       tr_TokenContract = tx_TokenContract tx, tr_CreatedAt = tx_CreatedAt tx\<rparr>), v)
    \<and> w_db v = d\<lparr>d_log := l\<rparr> \<and> calm v
    \<and> w_notify v = w_notify (NotifyPipeline L (th_manager h) (tx_Sender tx) (tx_ChainID tx) w)"
proof -
  have ins: "CreateTransaction tx w = (None, after_stmt d w)"
    using assms(1,2) by (simp add: CreateTransaction_def calm_exec)
  define r where "r = ''transfer '' @ rq_Amount req @ '' '' @ rq_Token req @ '' to '' @ rq_Recipient req"
  define u where "u = logTransition (tx_ID tx) [] (status_text TxStatusQueued) ''api'' r (after_stmt d w)"
  have u: "\<exists>l. w_db u = d\<lparr>d_log := l\<rparr>" "calm u" "w_notify u = w_notify w"
    using assms(1) by (simp_all add: u_def log_calm del: status_text.simps) blast
  have "calm (NotifyPipeline L (th_manager h) s c u)" for s c using u(2) by (simp add: calm_def)
  moreover have "store_transfer L h req ty tx w = (writeJSON 202 (TransferBody
      \<lparr>tr_ID = tx_ID tx, tr_Status = status_text TxStatusQueued, tr_ChainID = tx_ChainID tx,
       tr_Sender = tx_Sender tx, tr_Recipient = tx_TransferRecipient tx,
       tr_Token = tx_TransferToken tx, tr_Amount = tx_TransferAmount tx, tr_TransferType = ty,
       tr_TokenContract = tx_TokenContract tx, tr_CreatedAt = tx_CreatedAt tx\<rparr>),
      NotifyPipeline L (th_manager h) (tx_Sender tx) (tx_ChainID tx) u)"
    unfolding store_transfer_def ins prod.case option.case Let_def u_def r_def by (rule refl)
  ultimately show ?thesis using u(1) notified [OF u(3)] by auto
qed

lemma insert_new:
  assumes "unat (tx_ChainID tx) < 2 ^ 63" and "numeric78 (tx_Value tx) = Inr i"
    and "tx_ID tx \<notin> r_id ` set (d_transactions d)"
    and "tx_IdempotencyKey tx \<notin> r_idempotency_key ` set (d_transactions d)"
  shows "\<exists>d'. insert_tx tx d = Inr d'"
  using assms by (simp add: insert_tx_def bigint_def)

text \<open>The columns the INSERT of a transaction writes.\<close>

definition stores :: "transaction \<Rightarrow> tx_row \<Rightarrow> bool" where
  "stores tx r \<longleftrightarrow> r_id r = tx_ID tx \<and> r_idempotency_key r = tx_IdempotencyKey tx
     \<and> bigint (tx_ChainID tx) = Inr (r_chain_id r) \<and> r_sender r = tx_Sender tx
     \<and> r_to_address r = tx_ToAddress tx \<and> tx_Value tx = Some (r_value r) \<and> r_data r = tx_Data tx
     \<and> r_nonce r = None \<and> r_final_tx_hash r = None \<and> r_priority r = tx_Priority tx \<and> r_status r = tx_Status tx
     \<and> r_transfer_token r = tx_TransferToken tx \<and> r_transfer_amount r = tx_TransferAmount tx
     \<and> r_transfer_recipient r = tx_TransferRecipient tx
     \<and> r_token_contract r = nullIfEmpty (tx_TokenContract tx)
     \<and> r_token_decimals r = int (unat (tx_TokenDecimals tx)) \<and> r_metadata r = tx_Metadata tx
     \<and> r_created_at r = tx_CreatedAt tx \<and> r_updated_at r = tx_UpdatedAt tx"

lemma insert_tx_stores:
  assumes "insert_tx tx d = Inr d'"
  shows "\<exists>row. d' = d\<lparr>d_transactions := d_transactions d @ [row]\<rparr> \<and> stores tx row"
proof -
  obtain chain v where "bigint (tx_ChainID tx) = Inr chain" "numeric78 (tx_Value tx) = Inr v"
    using assms by (auto simp: insert_tx_def split: sum.splits)
  with assms numeric78_range show ?thesis by (auto simp: insert_tx_def stores_def split: if_splits)
qed

lemma valid_priority: "validate L h req = None \<Longrightarrow> request_priority req \<noteq> None"
  by (auto simp: validate_def request_priority_def Let_def split: if_splits prod.splits)

lemma lookup_miss:
  assumes "calm w" and "k \<notin> r_idempotency_key ` set (d_transactions (w_db w))"
  shows "GetTransactionByIdempotencyKey k w = (Inr None, after_stmt (w_db w) w)"
proof -
  have "row_by r_idempotency_key k (d_transactions (w_db w)) = None" using assms(2) by (simp add: row_by_None_iff)
  then show ?thesis
    using assms(1) by (simp add: GetTransactionByIdempotencyKey_def calm_query no_rows_is_nil_def)
qed

lemma Create_calm:
  assumes "calm w" and "validate L h req = None"
    and "rq_IdempotencyKey req \<notin> r_idempotency_key ` set (d_transactions (w_db w))"
    and "w_ulid w (Suc (w_tick w)) = i" and "i \<notin> r_id ` set (d_transactions (w_db w))"
    and "map_of (th_chains h) (rq_ChainID req) = Some chain" and "unat (rq_ChainID req) < 2 ^ 63"
    and "resolveTransfer L req chain = Inr (params, tc, ty, dc)"
    and "request_priority req = Some prio"
  shows "\<exists>v row. Create L h (Inr req) w
      = Ret (writeJSON 202 (TransferBody (created_body L req tc ty i (w_clock w (Suc (w_tick w))))), v)
    \<and> d_transactions (w_db v) = d_transactions (w_db w) @ [row]
    \<and> stores (new_transaction L req params tc dc prio i (w_clock w (Suc (w_tick w)))) row
    \<and> calm v \<and> w_notify v = w_notify (NotifyPipeline L (th_manager h)
        (ToLower (Address_Hex L (HexToAddress L (rq_Sender req)))) (rq_ChainID req) w)"
proof -
  define u where "u = after_stmt (w_db w) w"
  define tx where "tx = new_transaction L req params tc dc prio i (time_now u)"
  have u: "calm u" "w_db u = w_db w" "w_tick u = Suc (w_tick w)" "w_ulid u = w_ulid w" "w_clock u = w_clock w"
    "w_notify u = w_notify w"
    using assms(1) by (simp_all add: u_def)
  obtain n where "numeric78 (pm_Value params) = Inr n" using resolved_value [OF assms(8)] by blast
  then obtain d where d: "insert_tx tx (w_db (tick u)) = Inr d"
    using insert_new [of tx n "w_db w"] assms(3,5,7) u(2) by (auto simp: tx_def)
  from insert_tx_stores [OF d] obtain row where
    row: "d = (w_db u)\<lparr>d_transactions := d_transactions (w_db u) @ [row]\<rparr>" "stores tx row" by auto
  have "calm (tick u)" using u(1) by simp
  moreover have "tx_Status tx = TxStatusQueued" by (simp add: tx_def)
  ultimately obtain v l where v:
    "store_transfer L h req ty tx (tick u) = (writeJSON 202 (TransferBody
      \<lparr>tr_ID = tx_ID tx, tr_Status = status_text TxStatusQueued, tr_ChainID = tx_ChainID tx,
       tr_Sender = tx_Sender tx, tr_Recipient = tx_TransferRecipient tx,
       tr_Token = tx_TransferToken tx, tr_Amount = tx_TransferAmount tx, tr_TransferType = ty,
       tr_TokenContract = tx_TokenContract tx, tr_CreatedAt = tx_CreatedAt tx\<rparr>), v)"
    "w_db v = d\<lparr>d_log := l\<rparr>" "calm v"
    "w_notify v = w_notify (NotifyPipeline L (th_manager h) (tx_Sender tx) (tx_ChainID tx) (tick u))"
    using store_transfer_calm [OF _ d, of L h req ty] by blast
  have "Create L h (Inr req) w = new_transfer L h req u"
    using assms(2) lookup_miss [OF assms(1,3)] by (simp add: Create_def u_def)
  also have "\<dots> = Ret (store_transfer L h req ty tx (tick u))"
    using assms(4,6,8,9) u(3,4) by (simp add: new_transfer_def ulid_make_def tx_def)
  finally show ?thesis
    using v row u notified [of "tick u" w]
    by (intro exI [of _ v] exI [of _ row])
      (simp add: created_body_def tx_def new_transaction_def time_now_def)
qed

lemma sample_ulid: "w_ulid (sample_world eps d) (Suc 0) = ''U1''"
proof -
  have "nat_dec 1 = ''1''" by code_simp
  then show ?thesis by (simp add: sample_world_def)
qed


section \<open>Properties of creating\<close>

text \<open>C3: Creating a transfer always answers, and whatever other requests and goroutines do meanwhile
  it only makes the API's steps of the protocol, keeps every invariant and broadcasts nothing.\<close>

theorem Create_refines_protocol:
  assumes "rely_any w" and "sys_ok (w_db w)"
  shows "\<exists>resp v. Create L h body w = Ret (resp, v) \<and> sys_ok (w_db v) \<and> w_sent v = w_sent w
    \<and> (\<exists>own. w_steps v = w_steps w @ own \<and> (\<forall>(d, d') \<in> set own. sys_step ''api'' d d'))"
proof -
  have "api_good w" using assms by (simp add: api_good_def)
  from Create_cases [OF this] obtain resp v where run: "Create L h body w = Ret (resp, v)"
    and v: "api_goes w v" by blast
  have "runs (sys_step ''api'') (\<lambda>d s. False) w v" "sys_ok (w_db v)"
    using v by (simp_all add: api_goes_def)
  with runs_silent runs_steps run show ?thesis by metis
qed

theorem Create_refines_protocol_witness:
  "\<exists>resp v. Create sample_lib sample_handler (Inr (sample_request ''usdc'' ''1.5''))
       (sample_world one_up queued_db) = Ret (resp, v) \<and> sys_ok (w_db v) \<and> w_sent v = []"
  using Create_refines_protocol [of "sample_world one_up queued_db"] sys_ok_queued_db
  by (fastforce simp: rely_any_def)



text \<open>C5: An accepted transfer is queued: in an undisturbed database a valid request with an unused key
  adds exactly one transaction. It is QUEUED without a nonce and has the sender, key, priority and
  metadata of the request, the recipient, value and call data the request resolves to, and the token,
  amount and decimals of the transfer. The answer is 202 with its identifier, and the pipeline of
  its sender on its chain, if there is one, is woken and no other.\<close>

theorem Create_queues_transfer:
  assumes "calm w" and "validate L h req = None"
    and "rq_IdempotencyKey req \<notin> r_idempotency_key ` set (d_transactions (w_db w))"
    and "w_ulid w (Suc (w_tick w)) = i" and "i \<notin> r_id ` set (d_transactions (w_db w))"
    and "map_of (th_chains h) (rq_ChainID req) = Some chain" and "unat (rq_ChainID req) < 2 ^ 63"
    and "resolveTransfer L req chain = Inr (params, tc, ty, dc)"
  shows "\<exists>v row. Create L h (Inr req) w
      = Ret (writeJSON 202 (TransferBody (created_body L req tc ty i (w_clock w (Suc (w_tick w))))), v)
    \<and> d_transactions (w_db v) = d_transactions (w_db w) @ [row]
    \<and> r_id row = i \<and> r_status row = TxStatusQueued \<and> r_nonce row = None \<and> r_final_tx_hash row = None
    \<and> r_idempotency_key row = rq_IdempotencyKey req \<and> r_chain_id row = int (unat (rq_ChainID req))
    \<and> r_sender row = ToLower (Address_Hex L (HexToAddress L (rq_Sender req)))
    \<and> r_to_address row = ToLower (Address_Hex L (pm_To params)) \<and> Some (r_value row) = pm_Value params
    \<and> r_data row = pm_Data params \<and> request_priority req = Some (r_priority row)
    \<and> r_transfer_token row = ToUpper (rq_Token req) \<and> r_transfer_amount row = rq_Amount req
    \<and> r_transfer_recipient row = ToLower (Address_Hex L (HexToAddress L (rq_Recipient req)))
    \<and> r_token_contract row = (if tc = [] then None else Some tc) \<and> r_token_decimals row = int (unat dc)
    \<and> r_metadata row = rq_Metadata req
    \<and> r_created_at row = w_clock w (Suc (w_tick w)) \<and> r_updated_at row = w_clock w (Suc (w_tick w))
    \<and> w_notify v = (case map_of (mg_pipelines (th_manager h)) (r_sender row @ ''-'' @ u64_dec (rq_ChainID req)) of
          None \<Rightarrow> w_notify w | Some p \<Rightarrow> (w_notify w)(pipelineID L p := True))"
proof -
  obtain prio where prio: "request_priority req = Some prio" using valid_priority [OF assms(2)] by blast
  from Create_calm [OF assms prio] obtain v row where
    run: "Create L h (Inr req) w
      = Ret (writeJSON 202 (TransferBody (created_body L req tc ty i (w_clock w (Suc (w_tick w))))), v)"
    and rows: "d_transactions (w_db v) = d_transactions (w_db w) @ [row]"
    and cols: "stores (new_transaction L req params tc dc prio i (w_clock w (Suc (w_tick w)))) row"
    and woken: "w_notify v = w_notify (NotifyPipeline L (th_manager h)
        (ToLower (Address_Hex L (HexToAddress L (rq_Sender req)))) (rq_ChainID req) w)" by blast
  have "r_chain_id row = int (unat (rq_ChainID req))" using cols assms(7) by (simp add: stores_def bigint_def)
  moreover have "w_notify v = (case map_of (mg_pipelines (th_manager h)) (r_sender row @ ''-'' @ u64_dec (rq_ChainID req)) of
      None \<Rightarrow> w_notify w | Some p \<Rightarrow> (w_notify w)(pipelineID L p := True))"
    using woken cols
    by (simp add: stores_def new_transaction_def NotifyPipeline_def Notify_def pipeline_key_def split: option.split)
  ultimately show ?thesis using run rows cols prio
    by (intro exI [of _ v] exI [of _ row]) (simp add: stores_def new_transaction_def nullIfEmpty_def)
qed

theorem Create_queues_transfer_witness:
  "\<exists>v. Create sample_lib sample_handler (Inr (sample_request ''usdc'' ''1.5'')) (sample_world one_up empty_db)
     = Ret (writeJSON 202 (TransferBody (created_body sample_lib (sample_request ''usdc'' ''1.5'') ''0x40'' ''erc20'' ''U1'' 1)), v)
     \<and> length (d_transactions (w_db v)) = 1"
proof -
  note u = sample_ulid [of one_up empty_db]
  have c: "map_of (th_chains sample_handler) (rq_ChainID (sample_request ''usdc'' ''1.5'')) = Some sample_token_chain"
    by (simp add: sample_handler_def NewTransferHandler_def sample_request_def)
  have "rq_ChainID (sample_request ''usdc'' ''1.5'') = 1" by (simp add: sample_request_def)
  with Create_queues_transfer [OF calm_sample_world sample_valid, of one_up empty_db "''U1''" sample_token_chain
        _ "''0x40''" "''erc20''" 6] u c sample_resolve
  show ?thesis by (auto simp: empty_db_def)
qed

end
