(* ===== verification/ReadFacts.thy ===== *)
theory ReadFacts
  imports ApiFacts
begin

text \<open>
  The read handlers: what a response says of the stored transaction can be read back from it, paging
  through a listing visits every matching transaction once, and the health report.
\<close>

section \<open>Hexadecimal text\<close>

definition hex_value :: "char \<Rightarrow> nat option" where
  "hex_value c = (let n = of_char c in
     if 48 \<le> n \<and> n \<le> 57 then Some (n - 48) else if 97 \<le> n \<and> n \<le> 102 then Some (n - 87) else None)"

fun decodeHex :: "string \<Rightarrow> bytes option" where
  "decodeHex [] = Some []"
| "decodeHex [c] = None"
| "decodeHex (c # d # s) = (case (hex_value c, hex_value d, decodeHex s) of
     (Some a, Some b, Some bs) \<Rightarrow> Some (word_of_nat (16 * a + b) # bs) | _ \<Rightarrow> None)"

lemma hex_digit:
  assumes "n < 16"
  shows "hex_value (''0123456789abcdef'' ! n) = Some n"
proof -
  have "\<forall>n \<in> set [0..<16]. hex_value (''0123456789abcdef'' ! n) = Some n" by code_simp
  with assms show ?thesis by simp
qed

lemma byte_nibbles: "16 * unat (drop_bit 4 v) + unat (take_bit 4 v) = unat (v :: u8)"
  by (simp add: drop_bit_eq_div take_bit_eq_mod unat_div unat_mod)

lemma encodeHex_Cons: "encodeHex (v # b) = ''0123456789abcdef'' ! unat (drop_bit 4 v)
    # ''0123456789abcdef'' ! unat (take_bit 4 v) # encodeHex b"
  by (simp add: encodeHex_def Let_def)

lemma decode_encodeHex: "decodeHex (encodeHex b) = Some b"
proof (induction b)
  case Nil
  show ?case by (simp add: encodeHex_def)
next
  case (Cons v b)
  have "unat (drop_bit 4 v) < 16" using unsigned_less [of v, where 'a = nat]
    by (simp add: drop_bit_eq_div unat_div)
  moreover have "unat (take_bit 4 v) < 16" by (simp add: take_bit_eq_mod unat_mod)
  ultimately show ?case
    using Cons by (simp add: encodeHex_Cons hex_digit byte_nibbles del: of_nat_add of_nat_mult)
qed

text \<open>Reading a response back.\<close>

definition read_data :: "string \<Rightarrow> bytes option" where
  "read_data s = (if s = [] then None else decodeHex (drop 2 s))"

definition read_value :: "string \<Rightarrow> int option" where
  "read_value s = (if s = ''<nil>'' then None else SetString10 s)"

lemma read_big_text: "read_value (big_text b) = b"
proof -
  have "int_dec i \<noteq> ''<nil>''" for i
    using nat_dec_digits [of "nat i"] nat_dec_digits [of "nat (- i)"]
    by (auto simp: int_dec_def is_digit_def split: if_splits)
  then show ?thesis by (simp add: read_value_def big_text_def split: option.split)
qed

lemma read_big_field: "SetString10 (big_field b) = b"
  by (simp add: big_field_def SetString10_def split: option.split) (metis SetString10_def SetString10_int_dec)

section \<open>Listings\<close>

text \<open>The rows a query asks for, in the order of their identifiers.\<close>

definition list_match :: "list_query \<Rightarrow> u64 option \<Rightarrow> tx_row \<Rightarrow> bool" where
  "list_match q cid r \<longleftrightarrow> (case cid of None \<Rightarrow> True | Some c \<Rightarrow> r_chain_id r = int (unat c))
     \<and> (lq_sender q \<noteq> [] \<longrightarrow> r_sender r = ToLower (lq_sender q))
     \<and> (lq_status q \<noteq> [] \<longrightarrow> status_text (r_status r) = ToUpper (lq_status q))"

definition matching :: "list_query \<Rightarrow> u64 option \<Rightarrow> db \<Rightarrow> tx_row list" where
  "matching q cid d = sort_key r_id (filter (list_match q cid) (d_transactions d))"

definition after_row :: "list_query \<Rightarrow> tx_row \<Rightarrow> bool" where
  "after_row q r \<longleftrightarrow> (lq_after q \<noteq> [] \<longrightarrow> lq_after q < r_id r)"

definition page_limit :: "list_query \<Rightarrow> nat" where
  "page_limit q = list_limit (if lq_limit q \<noteq> [] then Atoi (lq_limit q) else 0)"

lemma page_limit_bounds: "0 < page_limit q \<and> page_limit q \<le> 100"
  by (auto simp: page_limit_def list_limit_def)

definition row_response :: "tx_row \<Rightarrow> tx_response" where
  "row_response r = toResponse (scanTransaction r) []"

lemma list_with_page:
  assumes "w_dbres w (w_tick w) = DbOk" and "\<And>c. cid = Some c \<Longrightarrow> unat c < 2 ^ 63"
  shows "list_with q cid w = (writeJSON 200 (TxListBody (map row_response
      (take (page_limit q) (filter (after_row q) (matching q cid (db_now w)))))), after_stmt (db_now w) w)"
proof -
  let ?f = "\<lparr>tf_ChainID = cid, tf_Sender = ToLower (lq_sender q), tf_Status = ToUpper (lq_status q),
    tf_Limit = (if lq_limit q \<noteq> [] then Atoi (lq_limit q) else 0), tf_After = lq_after q\<rparr>"
  have big: "bigint c = Inr (int (unat c))" if "cid = Some c" for c
    using assms(2) [OF that] by (simp add: bigint_def)
  have "ListTransactions ?f w = (Inr (scanTransactionRows (take (page_limit q) (sort_key r_id
      (filter (\<lambda>r. list_match q cid r \<and> after_row q r) (d_transactions (db_now w)))))), after_stmt (db_now w) w)"
    unfolding ListTransactions_def
    by (rule query_runs [OF assms(1)])
      (cases cid, simp_all add: big list_match_def after_row_def page_limit_def ToUpper_def
        del: status_text.simps)
  moreover have "sort_key r_id (filter (\<lambda>r. list_match q cid r \<and> after_row q r) rows)
      = filter (after_row q) (sort_key r_id (filter (list_match q cid) rows))" for rows
    by (simp add: filter_sort)
  ultimately show ?thesis
    by (simp add: list_with_def scanTransactionRows_def row_response_def [abs_def] matching_def comp_def)
qed

text \<open>A client that pages through a listing: each request starts after the last identifier seen.\<close>

fun walk :: "nat \<Rightarrow> list_query \<Rightarrow> world \<Rightarrow> tx_response list" where
  "walk 0 q w = []"
| "walk (Suc n) q w =
    (case List q w of (resp, v) \<Rightarrow>
       (case rs_Body resp of
          TxListBody (x # xs) \<Rightarrow> (x # xs) @ walk n (q\<lparr>lq_after := xr_ID (last (x # xs))\<rparr>) v
        | _ \<Rightarrow> []))"

definition query_chain :: "list_query \<Rightarrow> u64 option option" where
  "query_chain q = (if lq_chain_id q = [] then Some None else map_option Some (ParseUint (lq_chain_id q)))"

lemma List_query: "query_chain q = Some cid \<Longrightarrow> List q w = list_with q cid w"
  by (auto simp: query_chain_def List_def split: if_splits option.splits)

lemma row_response_id [simp]: "xr_ID (row_response r) = r_id r"
  by (simp add: row_response_def toResponse_def scanTransaction_def Let_def)

lemma matching_strict:
  assumes "distinct (map r_id (d_transactions d))"
  shows "sorted_wrt (<) (map r_id (matching q cid d))"
proof -
  have "inj_on r_id (set (d_transactions d))" "distinct (d_transactions d)"
    using assms by (simp_all add: distinct_map)
  then have "distinct (map r_id (matching q cid d))"
    by (auto simp: matching_def distinct_map inj_on_def)
  moreover have "sorted (map r_id (matching q cid d))" by (simp add: matching_def)
  ultimately show ?thesis by (simp add: strict_sorted_iff)
qed

text \<open>The rows after the last one of a page are the rest.\<close>

lemma rest_after:
  assumes "sorted_wrt (<) (map r_id (ys @ zs))" and "ys \<noteq> []"
  shows "filter (\<lambda>r. r_id (last ys) < r_id r) (ys @ zs) = zs"
proof -
  obtain us l where ys: "ys = us @ [l]" using assms(2) by (cases ys rule: rev_cases) auto
  then have "\<forall>u \<in> set us. r_id u < r_id l" "\<forall>z \<in> set zs. r_id l < r_id z"
    using assms(1) by (simp_all add: sorted_wrt_append)
  then have "filter (\<lambda>r. r_id l < r_id r) us = []" "filter (\<lambda>r. r_id l < r_id r) zs = zs"
    by (auto simp: filter_empty_conv)
  then show ?thesis by (simp add: ys)
qed

lemma List_page:
  assumes "calm w" and "query_chain q = Some cid" and "\<And>c. cid = Some c \<Longrightarrow> unat c < 2 ^ 63"
  shows "List q w = (writeJSON 200 (TxListBody (map row_response
      (take (page_limit q) (filter (after_row q) (matching q cid (w_db w)))))), after_stmt (w_db w) w)"
proof -
  have "w_dbres w (w_tick w) = DbOk" using assms(1) by (simp add: calm_def)
  from list_with_page [OF this assms(3)] show ?thesis using assms(1) List_query [OF assms(2)] by simp
qed

text \<open>Only the start of the page changes from one request to the next.\<close>

lemma next_query [simp]:
  "matching (q\<lparr>lq_after := a\<rparr>) cid d = matching q cid d" "page_limit (q\<lparr>lq_after := a\<rparr>) = page_limit q"
  "query_chain (q\<lparr>lq_after := a\<rparr>) = query_chain q"
  by (simp_all add: matching_def list_match_def [abs_def] page_limit_def query_chain_def)

lemma walk_rest:
  assumes "calm w" and "w_db w = d" and "query_chain q = Some cid"
    and "\<And>c. cid = Some c \<Longrightarrow> unat c < 2 ^ 63" and "distinct (map r_id (d_transactions d))"
    and "[] \<notin> r_id ` set (d_transactions d)" and "length (filter (after_row q) (matching q cid d)) < n"
    and "matching q cid d = seen @ filter (after_row q) (matching q cid d)"
  shows "walk n q w = map row_response (filter (after_row q) (matching q cid d))"
  using assms
proof (induction n arbitrary: q w seen)
  case (Suc n)
  define xs where "xs = filter (after_row q) (matching q cid d)"
  define ys where "ys = take (page_limit q) xs"
  define zs where "zs = drop (page_limit q) xs"
  have xs: "xs = ys @ zs" and all: "matching q cid d = (seen @ ys) @ zs"
    using Suc.prems(8) by (simp_all add: ys_def zs_def xs_def)
  have page: "List q w = (writeJSON 200 (TxListBody (map row_response ys)), after_stmt d w)"
    using List_page [OF Suc.prems(1,3,4)] by (simp add: Suc.prems(2) ys_def xs_def)
  show ?case
  proof (cases "ys = []")
    case True
    then have "xs = []" using page_limit_bounds [of q] by (simp add: ys_def)
    with True page show ?thesis by (simp add: writeJSON_def xs_def)
  next
    case False
    define q' where "q' = q\<lparr>lq_after := r_id (last ys)\<rparr>"
    have "last ys \<in> set (matching q cid d)" using False by (simp add: all)
    then have "last ys \<in> set (d_transactions d)" by (simp add: matching_def)
    then have "r_id (last ys) \<noteq> []" using Suc.prems(6) by force
    then have after: "after_row q' = (\<lambda>r. r_id (last (seen @ ys)) < r_id r)"
      using False by (simp add: q'_def after_row_def [abs_def])
    have "filter (after_row q') (matching q cid d) = zs"
      unfolding after all using False matching_strict [OF Suc.prems(5), of q cid]
      by (intro rest_after) (simp_all add: all)
    then have rest: "filter (after_row q') (matching q' cid d) = zs" by (simp add: q'_def)
    have "length zs < n"
      using Suc.prems(7) False xs by (cases ys) (simp_all add: xs_def [symmetric])
    have "walk n q' (after_stmt d w) = map row_response (filter (after_row q') (matching q' cid d))"
    proof (rule Suc.IH)
      show "matching q' cid d = (seen @ ys) @ filter (after_row q') (matching q' cid d)"
        unfolding rest by (simp only: q'_def next_query all)
      show "length (filter (after_row q') (matching q' cid d)) < n"
        unfolding rest by (rule \<open>length zs < n\<close>)
    qed (use Suc.prems(1-6) in \<open>simp_all add: q'_def\<close>)
    then have "walk n q' (after_stmt d w) = map row_response zs" by (simp only: rest)
    moreover have "xr_ID (last (map row_response ys)) = r_id (last ys)"
      using False by (simp add: last_map)
    ultimately have "walk (Suc n) q w = map row_response ys @ map row_response zs"
      using page False by (cases ys) (simp_all add: writeJSON_def q'_def)
    then show ?thesis by (simp add: xs_def [symmetric] xs)
  qed
qed simp

section \<open>Health\<close>

lemma BlockNumber_others:
  "BlockNumber cid w = (r, v) \<Longrightarrow> c \<noteq> cid \<Longrightarrow> w_endpoints v c = w_endpoints w c"
  by (auto simp: BlockNumber_def markUnhealthy_def upd_endpoints_def Let_def split: sum.splits)

lemma Client_calls [simp]: "ec_Healthy (Client cid) = Healthy cid" "ec_BlockNumber (Client cid) = BlockNumber cid"
  by (simp_all add: Client_def)

text \<open>What a chain's entry has to say, given its endpoints and the time at which they are asked.\<close>

definition entry_at :: "world \<Rightarrow> u64 \<Rightarrow> nat \<Rightarrow> chain_health" where
  "entry_at w cid t = (let urls = map ep_url (filter ep_healthy (w_endpoints w cid)) in
     \<lparr>chh_Healthy = (urls \<noteq> []),
      chh_BlockNumber = (case failover_answer cid (rpc_BlockNumber (w_rpc w)) t urls of Inl e \<Rightarrow> 0 | Inr n \<Rightarrow> n),
      chh_RPCEndpoints = 0\<rparr>)"

lemma Healthy_urls: "Healthy cid w \<longleftrightarrow> map ep_url (filter ep_healthy (w_endpoints w cid)) \<noteq> []"
  by (simp add: Healthy_def filter_empty_conv)

lemma chain_check_effect:
  assumes "chain_check (Client cid) w = (e, v)"
  shows "e = entry_at w cid (w_tick w)" and "c \<noteq> cid \<Longrightarrow> w_endpoints v c = w_endpoints w c" and "quiet w v"
proof -
  obtain r u where b: "BlockNumber cid w = (r, u)" by (cases "BlockNumber cid w")
  have r: "r = failover_answer cid (rpc_BlockNumber (w_rpc w)) (w_tick w)
      (map ep_url (filter ep_healthy (w_endpoints w cid)))"
    using BlockNumber_failover [of cid w] b by simp
  have v: "v = (if Healthy cid w then u else w)" using assms b by (auto simp: chain_check_def split: if_splits)
  show "e = entry_at w cid (w_tick w)"
  proof (cases "Healthy cid w")
    case True
    then show ?thesis using assms b r by (auto simp: chain_check_def entry_at_def Healthy_urls)
  next
    case False
    then have "map ep_url (filter ep_healthy (w_endpoints w cid)) = []" by (simp only: Healthy_urls not_not)
    then show ?thesis using assms False by (auto simp: chain_check_def entry_at_def failover_answer_def)
  qed
  show "w_endpoints v c = w_endpoints w c" if "c \<noteq> cid" using BlockNumber_others [OF b that] v by simp
  show "quiet w v" using quiet_BlockNumber_pool [OF b] v by simp
qed

lemma entry_at_same: "w_endpoints v cid = w_endpoints w cid \<Longrightarrow> w_rpc v = w_rpc w \<Longrightarrow> entry_at v cid t = entry_at w cid t"
  by (simp add: entry_at_def)

lemma chain_checks_effect:
  assumes "chain_checks cs w = (es, v)" and "distinct (map fst cs)"
    and "\<forall>(cid, c) \<in> set cs. c = Client cid"
  shows "map fst es = map fst cs \<and> (\<forall>(cid, e) \<in> set es. \<exists>t. e = entry_at w cid t) \<and> quiet w v"
  using assms
proof (induction cs arbitrary: w es)
  case (Cons x cs)
  obtain cid where x: "x = (cid, Client cid)" using Cons.prems(3) by (cases x) auto
  obtain e u where e: "chain_check (Client cid) w = (e, u)" by (cases "chain_check (Client cid) w")
  obtain es' where es': "chain_checks cs u = (es', v)" and es: "es = (cid, e) # es'"
    using Cons.prems(1) x e by (auto split: prod.splits)
  note eff = chain_check_effect [OF e]
  have IH: "map fst es' = map fst cs" "\<forall>(cid, e) \<in> set es'. \<exists>t. e = entry_at u cid t" "quiet u v"
    using Cons.IH [OF es'] Cons.prems(2,3) by simp_all
  have "entry_at u c t = entry_at w c t" if "(c, e') \<in> set es'" for c e' t
  proof -
    have "c \<in> fst ` set cs" using that IH(1) by (metis fst_conv image_eqI list.set_map)
    then have "c \<noteq> cid" using Cons.prems(2) x by auto
    then show ?thesis using eff(2,3) by (intro entry_at_same) (simp_all add: quiet_def rpc_frame_def)
  qed
  then have "\<forall>(c, e') \<in> set es'. \<exists>t. e' = entry_at w c t" using IH(2) by fastforce
  moreover have "quiet w v" using quiet_trans [OF eff(3) IH(3)] .
  ultimately show ?case using IH(1) es x eff(1) by auto
qed simp

text \<open>The entry of a pipeline: the number of transactions queued for it, as an undisturbed database gives
  it, and zero when the database does not answer.\<close>

definition queue_depth :: "'key eth_lib \<Rightarrow> pipeline \<Rightarrow> db \<Rightarrow> int" where
  "queue_depth L p d = int (length (filter (\<lambda>r. r_status r = TxStatusQueued
     \<and> r_sender r = ToLower (Address_Hex L (pl_sender p)) \<and> r_chain_id r = int (unat (pl_chainID p)))
     (d_transactions d)))"

definition pipeline_entry :: "'key eth_lib \<Rightarrow> world \<Rightarrow> string \<times> pipeline \<Rightarrow> string \<times> pipeline_info \<Rightarrow> bool" where
  "pipeline_entry L w kp e \<longleftrightarrow> fst e = fst kp \<and> pi_Status (snd e) = ''running''
     \<and> (calm w \<longrightarrow> unat (pl_chainID (snd kp)) < 2 ^ 63 \<longrightarrow> pi_QueueDepth (snd e) = queue_depth L (snd kp) (w_db w))
     \<and> ((\<forall>t. w_dbres w t \<noteq> DbOk) \<longrightarrow> pi_QueueDepth (snd e) = 0)"

lemma query_down:
  assumes "\<forall>t. w_dbres w t \<noteq> DbOk" and "query q w = (r, v)"
  shows "(\<exists>e. r = Inl e) \<and> w_dbres v = w_dbres w"
  using assms by (cases "w_dbres w (w_tick w)") (auto simp: query_def run_stmt_def Let_def split: sum.splits)

lemma pipeline_entry_same:
  "pipeline_entry L v kp e \<Longrightarrow> (calm w \<Longrightarrow> calm v \<and> w_db v = w_db w)
    \<Longrightarrow> (\<forall>t. w_dbres w t \<noteq> DbOk \<Longrightarrow> w_dbres v = w_dbres w) \<Longrightarrow> pipeline_entry L w kp e"
  by (auto simp: pipeline_entry_def)

lemma status_entries_exact:
  assumes "status_entries L ps w = (es, v)"
  shows "list_all2 (pipeline_entry L w) ps es"
  using assms
proof (induction ps arbitrary: w es)
  case (Cons x ps)
  obtain key p where x: "x = (key, p)" by (cases x)
  obtain n u where n: "CountQueuedTransactions (ToLower (Address_Hex L (pl_sender p))) (pl_chainID p) w = (n, u)"
    by (cases "CountQueuedTransactions (ToLower (Address_Hex L (pl_sender p))) (pl_chainID p) w")
  obtain es' where es': "status_entries L ps u = (es', v)" and es: "es = (key, \<lparr>pi_Status = ''running'',
      pi_QueueDepth = (case n of Inl e \<Rightarrow> 0 | Inr k \<Rightarrow> k)\<rparr>) # es'"
    using Cons.prems x n by (auto split: prod.splits)
  have down: "(\<exists>e. n = Inl e) \<and> w_dbres u = w_dbres w" if "\<forall>t. w_dbres w t \<noteq> DbOk"
    using query_down [OF that] n by (simp add: CountQueuedTransactions_def)
  have calm: "calm u \<and> w_db u = w_db w" if "calm w"
    using n that by (auto simp: CountQueuedTransactions_def calm_query)
  have "pipeline_entry L w x (key, \<lparr>pi_Status = ''running'', pi_QueueDepth = (case n of Inl e \<Rightarrow> 0 | Inr k \<Rightarrow> k)\<rparr>)"
    using n down by (auto simp: pipeline_entry_def x CountQueuedTransactions_def calm_query bigint_def queue_depth_def)
  moreover have "list_all2 (pipeline_entry L w) ps es'"
    by (rule list_all2_mono [OF Cons.IH [OF es']]) (erule pipeline_entry_same, simp_all add: calm down)
  ultimately show ?case using es by simp
qed simp

section \<open>Properties\<close>

text \<open>C23: A response can be read back: the value, the effective gas price and the call data of the
  stored transaction, and the fees of every attempt, are recovered from the texts of the response.\<close>

theorem toResponse_roundtrip:
  "read_value (xr_Value (toResponse tx ats)) = tx_Value tx
   \<and> SetString10 (xr_EffectiveGasPrice (toResponse tx ats)) = tx_EffectiveGasPrice tx
   \<and> read_data (xr_Data (toResponse tx ats)) = tx_Data tx
   \<and> map (\<lambda>a. (SetString10 (ar_MaxFeePerGas a), SetString10 (ar_MaxPriorityFeePerGas a),
         SetString10 (ar_GasPrice a))) (xr_Attempts (toResponse tx ats))
     = map (\<lambda>a. (at_MaxFeePerGas a, at_MaxPriorityFeePerGas a, at_GasPrice a)) ats"
  by (simp add: toResponse_def attempt_response_def read_big_text read_big_field read_data_def
      decode_encodeHex comp_def split: option.split)

text \<open>C22: Paging is complete: a client that lists page by page, always continuing after the last
  identifier it saw, gets every transaction that matches its filters exactly once and in the order of
  the identifiers, whatever page size it asks for.\<close>

theorem List_walk_complete:
  assumes "calm w" and "sys_ok (w_db w)" and "[] \<notin> tx_ids (w_db w)"
    and "query_chain q = Some cid" and "\<And>c. cid = Some c \<Longrightarrow> unat c < 2 ^ 63" and "lq_after q = []"
    and "length (d_transactions (w_db w)) < n"
  shows "walk n q w = map row_response (sort_key r_id (filter (list_match q cid) (d_transactions (w_db w))))"
proof -
  have "after_row q r" for r using assms(6) by (simp add: after_row_def)
  then have all: "filter (after_row q) (matching q cid (w_db w)) = matching q cid (w_db w)"
    by (simp add: filter_id_conv)
  have "distinct (map r_id (d_transactions (w_db w)))"
    using assms(2) by (simp add: sys_ok_def db_ok_def txs_ok_def)
  moreover have "length (filter (list_match q cid) (d_transactions (w_db w))) < n"
    using assms(7) length_filter_le le_less_trans by blast
  then have "length (filter (after_row q) (matching q cid (w_db w))) < n"
    unfolding all by (simp add: matching_def)
  ultimately have "walk n q w = map row_response (filter (after_row q) (matching q cid (w_db w)))"
    using assms all by (intro walk_rest [where seen = "[]"]) (simp_all add: tx_ids_def)
  then show ?thesis unfolding all by (simp add: matching_def)
qed

definition any_query :: list_query where
  "any_query = \<lparr>lq_sender = [], lq_status = ''queued'', lq_after = [], lq_chain_id = [], lq_limit = ''1''\<rparr>"

theorem List_walk_complete_witness:
  "map xr_ID (walk 2 any_query (sample_world one_up queued_db)) = [''t1'']"
proof -
  have "[] \<notin> tx_ids (w_db (sample_world one_up queued_db))" by (simp add: tx_ids_def)
  moreover have "query_chain any_query = Some None" "lq_after any_query = []"
    by (simp_all add: query_chain_def any_query_def)
  moreover have "list_match any_query None sample_row"
  proof -
    have "ToUpper ''queued'' = ''QUEUED''" by code_simp
    then show ?thesis by (simp add: list_match_def any_query_def)
  qed
  ultimately show ?thesis
    using List_walk_complete [OF calm_sample_world, of one_up queued_db any_query None 2] sys_ok_queued_db
    by simp
qed

text \<open>A transaction that is not stored is reported as an internal error of the database, with status
  500; the branch of Get for a missing transaction is never reached.\<close>

lemma Get_unknown_is_500:
  assumes "txid \<noteq> []" and "w_dbres w (w_tick w) = DbOk" and "txid \<notin> tx_ids (db_now w)"
  shows "fst (Get txid w) = writeError (NewAppError ErrCodeInternalError 500 ''database error'')
    \<and> w_db (snd (Get txid w)) = db_now w"
proof -
  have none: "row_by r_id txid (d_transactions (db_now w)) = None"
    using assms(3) by (simp add: row_by_None_iff tx_ids_def)
  have "GetTransaction txid w = (Inl ErrNoRows, after_stmt (db_now w) w)"
    by (simp add: GetTransaction_def query_def run_stmt_def assms(2) none)
  with assms(1) show ?thesis by (simp add: Get_def)
qed

lemma Get_unknown_is_500_witness:
  "rs_Status (fst (Get ''t2'' (sample_world one_up queued_db))) = 500"
  using Get_unknown_is_500 [of "''t2''" "sample_world one_up queued_db"]
  by (simp add: tx_ids_def writeError_def writeJSON_def NewAppError_def)

text \<open>C24: The health report is exact. The database is connected exactly when it answers the ping. Every
  chain has one entry, healthy when one of its endpoints is, with the block number that the first
  healthy endpoint answers, or the next one, and zero when they fail. Every pipeline has one entry,
  with the number of transactions that are queued for it in an undisturbed database, and zero when
  the database is down. The report is healthy, with status 200, when the database answers and every
  chain is healthy, and degraded, with 503, otherwise.\<close>

theorem Health_report:
  assumes "Health L (map (\<lambda>(cid, chain). (cid, Client cid)) configs) m w = (resp, v)"
    and "distinct (map fst configs)"
  shows "\<exists>hr. rs_Body resp = HealthBody hr
    \<and> rs_Status resp = (if w_dbres w (w_tick w) = DbOk \<and> (\<forall>cid \<in> fst ` set configs. Healthy cid w)
        then 200 else 503)
    \<and> hr_Status hr = (if rs_Status resp = 200 then ''healthy'' else ''degraded'')
    \<and> hr_DB hr = (if w_dbres w (w_tick w) = DbOk then ''connected'' else ''disconnected'')
    \<and> distinct (map fst (hr_Chains hr)) \<and> fst ` set (hr_Chains hr) = fst ` set configs
    \<and> (\<forall>(cid, e) \<in> set (hr_Chains hr). chh_Healthy e = Healthy cid w \<and> (\<exists>t. e = entry_at w cid t))
    \<and> (\<exists>ps. mset ps = mset (mg_pipelines m) \<and> list_all2 (pipeline_entry L w) ps (hr_Pipelines hr))"
proof -
  let ?cs = "range_order (map (\<lambda>(cid, chain). (cid, Client cid)) configs) (tick w)"
  obtain es u where es: "chain_checks ?cs (tick w) = (es, u)" by (cases "chain_checks ?cs (tick w)")
  obtain p where ping: "Ping w = (p, tick w)" "p = None \<longleftrightarrow> w_dbres w (w_tick w) = DbOk"
    by (cases "w_dbres w (w_tick w)") (auto simp: Ping_def)
  have keys: "map fst (map (\<lambda>(cid, chain). (cid, Client cid)) configs) = map fst configs" by auto
  have dcs: "distinct (map fst ?cs)" using assms(2) by (intro distinct_range_keys) (simp only: keys)
  moreover have "\<forall>(cid, c) \<in> set ?cs. c = Client cid" by auto
  ultimately have eff: "map fst es = map fst ?cs" "\<forall>(cid, e) \<in> set es. \<exists>t. e = entry_at (tick w) cid t" "quiet (tick w) u"
    using chain_checks_effect [OF es] by simp_all
  have "entry_at (tick w) cid t = entry_at w cid t" for cid t by (rule entry_at_same) simp_all
  moreover have "chh_Healthy (entry_at w cid t) = Healthy cid w" for cid t
    by (simp add: entry_at_def Let_def Healthy_urls)
  ultimately have ent: "\<forall>(cid, e) \<in> set es. chh_Healthy e = Healthy cid w \<and> (\<exists>t. e = entry_at w cid t)"
    using eff(2) by fastforce
  have "fst ` set ?cs = fst ` set configs" by (force simp: image_iff)
  then have dom: "fst ` set es = fst ` set configs" using eff(1) by (metis list.set_map)
  have dist: "distinct (map fst es)" using eff(1) dcs by simp
  obtain ps u' where ps: "PipelineStatus L m u = (ps, u')" by (cases "PipelineStatus L m u")
  have "list_all2 (pipeline_entry L u) (range_order (mg_pipelines m) u) ps"
    using status_entries_exact ps unfolding PipelineStatus_def by blast
  then have "list_all2 (pipeline_entry L w) (range_order (mg_pipelines m) u) ps"
    by (rule list_all2_mono) (erule pipeline_entry_same, use eff(3) in
        \<open>simp_all add: quiet_def rpc_frame_def calm_def\<close>)
  then have pipes: "\<exists>qs. mset qs = mset (mg_pipelines m) \<and> list_all2 (pipeline_entry L w) qs ps"
    using range_order_mset by blast
  define degraded where "degraded = (p \<noteq> None \<or> (\<exists>(c, e) \<in> set es. \<not> chh_Healthy e))"
  have resp: "resp = writeJSON (if degraded then 503 else 200) (HealthBody
      \<lparr>hr_Status = (if degraded then ''degraded'' else ''healthy''), hr_Chains = es, hr_Pipelines = ps,
       hr_DB = (if p = None then ''connected'' else ''disconnected'')\<rparr>)"
    using assms(1) unfolding Health_def ping(1) Let_def prod.case es ps degraded_def by simp
  have "(\<exists>(c, e) \<in> set es. \<not> chh_Healthy e) \<longleftrightarrow> \<not> (\<forall>cid \<in> fst ` set configs. Healthy cid w)"
    unfolding dom [symmetric] using ent by force
  then have "degraded \<longleftrightarrow> \<not> (w_dbres w (w_tick w) = DbOk \<and> (\<forall>cid \<in> fst ` set configs. Healthy cid w))"
    using ping(2) by (simp only: degraded_def) blast
  then show ?thesis using resp dom dist ent pipes ping(2) by (simp add: writeJSON_def)
qed

text \<open>A service over one chain whose endpoint is down, with one queued transaction.\<close>

definition one_pipeline :: manager where
  "one_pipeline = (manager_of sample_lib [(7, 3 :: nat)] [(1, sample_chain)])\<lparr>mg_pipelines := [(''0x7-1'', sample_worker)]\<rparr>"

theorem Health_report_witness:
  "\<exists>resp v hr. Health sample_lib [(1, Client 1)] one_pipeline (sample_world all_down queued_db) = (resp, v)
     \<and> rs_Status resp = 503 \<and> rs_Body resp = HealthBody hr \<and> hr_DB hr = ''connected''
     \<and> hr_Pipelines hr = [(''0x7-1'', \<lparr>pi_Status = ''running'', pi_QueueDepth = 1\<rparr>)]"
proof -
  let ?w = "sample_world all_down queued_db"
  obtain resp v where run: "Health sample_lib [(1, Client 1)] one_pipeline ?w = (resp, v)"
    by (cases "Health sample_lib [(1, Client 1)] one_pipeline ?w")
  have down: "\<not> Healthy 1 ?w" by (simp add: Healthy_def all_down_def)
  from Health_report [of sample_lib "[(1, sample_chain)]" one_pipeline ?w resp v] run down
  obtain hr ps where hr: "rs_Body resp = HealthBody hr" "rs_Status resp = 503" "hr_DB hr = ''connected''"
    "mset ps = {#(''0x7-1'', sample_worker)#}" "list_all2 (pipeline_entry sample_lib ?w) ps (hr_Pipelines hr)"
    by (auto simp: one_pipeline_def)
  have "ps = [(''0x7-1'', sample_worker)]" using hr(4) by simp
  then obtain k i where i: "hr_Pipelines hr = [(k, i)]"
    "pipeline_entry sample_lib ?w (''0x7-1'', sample_worker) (k, i)"
    using hr(5) by (auto simp: list_all2_Cons1)
  have "ToLower (Address_Hex sample_lib (pl_sender sample_worker)) = ''0x7''" "pl_chainID sample_worker = 1"
    using sample_ids(1) by (simp_all add: senderHex_def sample_worker_def NewPipeline_def pl_chainID_def sample_chain_def)
  then have "queue_depth sample_lib sample_worker queued_db = 1" "unat (pl_chainID sample_worker) < 2 ^ 63"
    by (simp_all add: queue_depth_def)
  then have "k = ''0x7-1''" "pi_Status i = ''running''" "pi_QueueDepth i = 1"
    using i(2) by (simp_all add: pipeline_entry_def)
  then have "(k, i) = (''0x7-1'', \<lparr>pi_Status = ''running'', pi_QueueDepth = 1\<rparr>)" by simp
  then show ?thesis using run hr i(1) by simp
qed

end
