(* ===== verification/Router.thy ===== *)
theory Router
  imports ServiceFacts ReadFacts
begin

text \<open>
  internal/api/router.go and middleware.go: the routes of the service and what the middleware makes of
  a handler that panics. Matching a path against the patterns is done by package chi, a parameter;
  the pages of the API documentation are served by a library.
\<close>

section \<open>Routes\<close>

datatype handler = CreateTransfer | GetTx | ListTxs | CheckHealth | SwaggerUI

definition routes :: "(string \<times> string \<times> handler) list" where
  "routes =
    [(''POST'', ''/v1/transfers'', CreateTransfer),
     (''GET'', ''/v1/transactions/{id}'', GetTx),
     (''GET'', ''/v1/transactions'', ListTxs),
     (''GET'', ''/v1/health'', CheckHealth),
     (''GET'', ''/swagger/*'', SwaggerUI)]"

text \<open>The matcher gives the handler and the text that stands for \<open>{id}\<close>.\<close>

type_synonym matcher =
  "(string \<times> string \<times> handler) list \<Rightarrow> string \<Rightarrow> string \<Rightarrow> (handler \<times> string) option"

record http_request =
  hq_Method :: string
  hq_Path :: string
  hq_Body :: "go_error + transfer_request"
  hq_Query :: list_query

section \<open>Middleware\<close>

text \<open>An answer of the API, a plain text, or an answer that a library makes.\<close>

datatype reply = JsonReply response | TextReply int string | LibraryReply

text \<open>The state in which a handler panicked is not part of the model; no handler runs on fuel.\<close>

definition RecoveryMiddleware :: "(reply \<times> world) outcome \<Rightarrow> reply \<times> world option" where
  "RecoveryMiddleware next = (case next of
       Ret (r, w) \<Rightarrow> (r, Some w)
     | Panic \<Rightarrow> (TextReply 500 ''internal server error'', None)
     | NoFuel \<Rightarrow> (LibraryReply, None))"

definition json_reply :: "response \<times> world \<Rightarrow> reply \<times> world" where
  "json_reply rw = (JsonReply (fst rw), snd rw)"

fun run_handler ::
    "'key eth_lib \<Rightarrow> transfer_handler \<Rightarrow> (u64 \<times> eth_client) list \<Rightarrow> manager \<Rightarrow> http_request \<Rightarrow> string
      \<Rightarrow> handler \<Rightarrow> world \<Rightarrow> (reply \<times> world) outcome" where
  "run_handler L th clients m req txid CreateTransfer w =
     and_then (Create L th (hq_Body req) w) (\<lambda>rw. Ret (json_reply rw))"
| "run_handler L th clients m req txid GetTx w = Ret (json_reply (Get txid w))"
| "run_handler L th clients m req txid ListTxs w = Ret (json_reply (List (hq_Query req) w))"
| "run_handler L th clients m req txid CheckHealth w = Ret (json_reply (Health L clients m w))"
| "run_handler L th clients m req txid SwaggerUI w = Ret (LibraryReply, w)"

definition NewRouter ::
    "matcher \<Rightarrow> 'key eth_lib \<Rightarrow> signer \<Rightarrow> (u64 \<times> chain_config) list \<Rightarrow> (u64 \<times> eth_client) list \<Rightarrow> manager
      \<Rightarrow> http_request \<Rightarrow> world \<Rightarrow> reply \<times> world option" where
  "NewRouter chi L sg configs clients m req w =
    RecoveryMiddleware
      (case chi routes (hq_Method req) (hq_Path req) of
         None \<Rightarrow> Ret (LibraryReply, w)
       | Some (h, txid) \<Rightarrow>
           run_handler L (NewTransferHandler sg configs m) clients m req txid h w)"

section \<open>What the API documents\<close>

text \<open>The status codes of the \<open>@Success\<close> and \<open>@Failure\<close> annotations of the handlers.\<close>

fun documented :: "handler \<Rightarrow> int set" where
  "documented CreateTransfer = {202, 400, 403, 404, 409, 422, 500}"
| "documented GetTx = {200, 404, 500}"
| "documented ListTxs = {200, 400, 500}"
| "documented CheckHealth = {200, 503}"
| "documented SwaggerUI = {}"

text \<open>A response carries an error exactly when its code is one of a refusal; the health report is
  always a report.\<close>

definition well_answered :: "handler \<Rightarrow> response \<Rightarrow> bool" where
  "well_answered h r \<longleftrightarrow> rs_Status r \<in> documented h
     \<and> (h \<noteq> CheckHealth \<longrightarrow> (rs_Status r \<ge> 400 \<longleftrightarrow> (\<exists>code msg. rs_Body r = ErrorBody code msg)))"

lemma error_answered:
  "ae_HTTP e \<in> documented h \<Longrightarrow> ae_HTTP e \<ge> 400 \<Longrightarrow> well_answered h (writeError e)"
  by (simp add: well_answered_def writeError_def writeJSON_def)

lemma validate_documented:
  assumes "validate L h req = Some e" shows "ae_HTTP e \<in> {400, 404}"
  using assms by (auto simp: validate_def NewAppError_def split: if_splits)

lemma check_amount_documented:
  assumes "check_amount a dc m t = Inl e" shows "ae_HTTP e \<in> {400, 422}"
  using assms by (auto simp: check_amount_def NewAppError_def split: sum.splits if_splits)

lemma resolve_documented:
  assumes "resolveTransfer L req chain = Inl e" shows "ae_HTTP e \<in> {400, 403, 422, 500}"
  using assms check_amount_documented
  by (fastforce simp: resolveTransfer_def NewAppError_def Let_def split: sum.splits if_splits option.splits)

lemma store_transfer_answers: "well_answered CreateTransfer (fst (store_transfer L h req ty tx w))"
  by (auto simp: store_transfer_def well_answered_def writeError_def writeJSON_def NewAppError_def Let_def
      split: prod.splits option.splits)

lemma new_transfer_answers:
  assumes "map_of (th_chains h) (rq_ChainID req) = Some chain"
  shows "\<exists>rw. new_transfer L h req w = Ret rw \<and> well_answered CreateTransfer (fst rw)"
proof (cases "resolveTransfer L req chain")
  case (Inl e)
  then have "well_answered CreateTransfer (writeError e)"
    using resolve_documented [OF Inl] by (intro error_answered) auto
  with Inl assms show ?thesis by (simp add: new_transfer_def)
next
  case (Inr r)
  obtain params tc ty dc where "r = (params, tc, ty, dc)" by (cases r)
  moreover have "well_answered CreateTransfer
      (writeError (NewAppError ErrCodeInvalidPriority 400 ''invalid priority''))"
    by (rule error_answered) (simp_all add: NewAppError_def)
  ultimately show ?thesis
    using Inr assms store_transfer_answers
    by (cases "request_priority req"; cases "ulid_make w") (auto simp: new_transfer_def Let_def)
qed

lemma Create_answers: "\<exists>rw. Create L h body w = Ret rw \<and> well_answered CreateTransfer (fst rw)"
proof (cases body)
  case (Inl e)
  then show ?thesis
    by (simp add: Create_def well_answered_def writeError_def writeJSON_def NewAppError_def)
next
  case (Inr req)
  show ?thesis
  proof (cases "validate L h req")
    case (Some e)
    then have "well_answered CreateTransfer (writeError e)"
      using validate_documented [OF Some] by (intro error_answered) auto
    with Some Inr show ?thesis by (simp add: Create_def)
  next
    case None
    obtain chain where chain: "map_of (th_chains h) (rq_ChainID req) = Some chain"
      using validate_chain [OF None] by blast
    obtain found w1 where g: "GetTransactionByIdempotencyKey (rq_IdempotencyKey req) w = (found, w1)"
      by (cases "GetTransactionByIdempotencyKey (rq_IdempotencyKey req) w")
    show ?thesis
    proof (cases found)
      case (Inl e)
      with None Inr g show ?thesis
        by (simp add: Create_def well_answered_def writeError_def writeJSON_def NewAppError_def)
    next
      case (Inr row)
      with None \<open>body = Inr req\<close> g new_transfer_answers [OF chain, of L w1] show ?thesis
        by (cases row) (auto simp: Create_def well_answered_def writeError_def writeJSON_def NewAppError_def)
    qed
  qed
qed

lemma Get_answers: "txid \<noteq> [] \<Longrightarrow> well_answered GetTx (fst (Get txid w))"
  by (auto simp: Get_def well_answered_def writeError_def writeJSON_def NewAppError_def Let_def
      split: prod.splits sum.splits)

lemma list_with_answers: "well_answered ListTxs (fst (list_with q c w))"
  by (auto simp: list_with_def well_answered_def writeError_def writeJSON_def NewAppError_def
      split: prod.splits sum.splits)

lemma List_answers: "well_answered ListTxs (fst (List q w))"
  using list_with_answers
  by (cases "lq_chain_id q = []"; cases "ParseUint (lq_chain_id q)")
    (simp_all add: List_def error_answered NewAppError_def)

lemma Health_answers: "well_answered CheckHealth (fst (Health L clients m w))"
  by (auto simp: Health_def well_answered_def writeJSON_def Let_def split: prod.splits)

section \<open>Property\<close>

text \<open>C16: Every request of a known route is answered as documented: whatever its content, the database
  and the nodes do, no handler panics, so that the recovery middleware never has to answer, the code
  is one that the handler documents, and the body is an error exactly when the code refuses.\<close>

theorem requests_answered:
  assumes "chi routes (hq_Method req) (hq_Path req) = Some (h, txid)" and "h \<noteq> SwaggerUI"
    and "h = GetTx \<longrightarrow> txid \<noteq> []"
  shows "\<exists>r v. NewRouter chi L sg configs clients m req w = (JsonReply r, Some v)
    \<and> rs_Status r \<in> documented h
    \<and> (h \<noteq> CheckHealth \<longrightarrow> (rs_Status r \<ge> 400 \<longleftrightarrow> (\<exists>code msg. rs_Body r = ErrorBody code msg)))"
proof -
  have "\<exists>r v. run_handler L (NewTransferHandler sg configs m) clients m req txid h w
      = Ret (JsonReply r, v) \<and> well_answered h r"
  proof (cases h)
    case CreateTransfer
    with Create_answers [of L "NewTransferHandler sg configs m" "hq_Body req" w] show ?thesis
      by (fastforce simp: json_reply_def)
  qed (use assms(2,3) Get_answers List_answers Health_answers in \<open>auto simp: json_reply_def\<close>)
  then show ?thesis
    using assms(1) by (auto simp: NewRouter_def RecoveryMiddleware_def well_answered_def)
qed

text \<open>A matcher for the example: paths without a parameter are compared, an identifier is the rest.\<close>

definition sample_matcher :: matcher where
  "sample_matcher rs meth path =
    (case List.find (\<lambda>(m, p, h). m = meth \<and> p = path) rs of
       Some (m, p, h) \<Rightarrow> Some (h, [])
     | None \<Rightarrow>
         if prefix ''/v1/transactions/'' path \<and> meth = ''GET'' \<and> length path > 17
         then Some (GetTx, drop 17 path) else None)"

theorem requests_answered_witness:
  "\<exists>r v. NewRouter sample_matcher sample_lib (th_signer sample_handler) (th_chains sample_handler) []
     (th_manager sample_handler) \<lparr>hq_Method = ''GET'', hq_Path = ''/v1/transactions/T9'',
        hq_Body = Inl (Err []), hq_Query = \<lparr>lq_sender = [], lq_status = [], lq_after = [],
        lq_chain_id = [], lq_limit = []\<rparr>\<rparr> (sample_world one_up empty_db) = (JsonReply r, Some v)
     \<and> rs_Status r \<in> {200, 404, 500}"
proof -
  let ?req = "\<lparr>hq_Method = ''GET'', hq_Path = ''/v1/transactions/T9'', hq_Body = Inl (Err []),
    hq_Query = \<lparr>lq_sender = [], lq_status = [], lq_after = [], lq_chain_id = [], lq_limit = []\<rparr>\<rparr>"
  have "sample_matcher routes (hq_Method ?req) (hq_Path ?req) = Some (GetTx, ''T9'')"
    by (simp add: sample_matcher_def routes_def)
  from requests_answered [of sample_matcher ?req, OF this, of sample_lib "th_signer sample_handler"
      "th_chains sample_handler" "[]" "th_manager sample_handler" "sample_world one_up empty_db"]
  show ?thesis by auto
qed

end
