(* ===== verification/Progress.thy ===== *)
theory Progress
  imports PipelineFacts
begin

text \<open>
  Progress: in an undisturbed database, with nodes that answer and take what is broadcast, a pipeline
  works off its queue in the order of creation: each iteration submits the oldest transaction with
  the next nonce.
\<close>

section \<open>The queue\<close>

definition queue :: "string \<Rightarrow> int \<Rightarrow> db \<Rightarrow> tx_row list" where
  "queue s c d = sort_key r_created_at (filter (\<lambda>r. r_status r = TxStatusQueued
     \<and> r_sender r = s \<and> r_chain_id r = c) (d_transactions d))"

lemma next_queued_hd: "next_queued s c d = (case queue s c d of [] \<Rightarrow> None | r # _ \<Rightarrow> Some r)"
  by (simp add: next_queued_def queue_def)

lemma set_queue: "set (queue s c d) = {r \<in> set (d_transactions d). r_status r = TxStatusQueued
    \<and> r_sender r = s \<and> r_chain_id r = c}"
  by (auto simp: queue_def)

lemma queue_distinct:
  "distinct (map r_id (d_transactions d)) \<Longrightarrow> distinct (map r_id (queue s c d))"
proof -
  have "mset (map r_id (queue s c d)) = mset (map r_id (filter (\<lambda>r. r_status r = TxStatusQueued
     \<and> r_sender r = s \<and> r_chain_id r = c) (d_transactions d)))" by (simp add: queue_def)
  from mset_eq_imp_distinct_iff [OF this] show "distinct (map r_id (d_transactions d)) \<Longrightarrow> ?thesis"
    by (simp add: distinct_map_filter)
qed

text \<open>Taking one row out of the state QUEUED takes it out of the queue.\<close>

lemma queue_upd:
  assumes "distinct (map r_id (d_transactions d))" and "queue s c d = r # rs"
    and "d_transactions d' = upd_by r_id (r_id r) f (d_transactions d)"
    and "\<And>x. r_status (f x) \<noteq> TxStatusQueued"
  shows "queue s c d' = rs"
proof -
  let ?Q = "\<lambda>r. r_status r = TxStatusQueued \<and> r_sender r = s \<and> r_chain_id r = c"
  have "filter ?Q (upd_by r_id (r_id r) f xs) = filter (\<lambda>x. r_id x \<noteq> r_id r) (filter ?Q xs)" for xs
    using assms(4) by (induction xs) auto
  then have "queue s c d' = filter (\<lambda>x. r_id x \<noteq> r_id r) (queue s c d)"
    by (simp add: queue_def assms(3) filter_sort)
  moreover have "distinct (map r_id (r # rs))" using queue_distinct [OF assms(1), of s c] assms(2) by simp
  then have "filter (\<lambda>x. r_id x \<noteq> r_id r) (r # rs) = rs"
    by (auto simp: filter_id_conv image_iff)
  ultimately show ?thesis using assms(2) by simp
qed

lemma claim_calm:
  assumes "calm w" and "bigint cid = Inr c" and "queue s c (w_db w) = r # rs"
  shows "ClaimNextQueued s cid x w = (Inr (Some (scanTransaction (claim_row x (time_now w) r))),
    after_stmt (upd_tx (r_id r) (claim_row x (time_now w)) (w_db w)) w)"
  using assms by (simp add: ClaimNextQueued_def Let_def calm_runs next_queued_hd no_rows_is_nil_def)

section \<open>Nodes that answer\<close>

definition small :: "int option \<Rightarrow> bool" where
  "small b \<longleftrightarrow> (\<forall>x. b = Some x \<longrightarrow> \<bar>x\<bar> < 10 ^ 78)"

text \<open>The numbers of the node are of a size that the fee columns can hold.\<close>

definition answers :: "'key eth_lib \<Rightarrow> chain_config \<Rightarrow> rpc_nodes \<Rightarrow> string \<Rightarrow> bool" where
  "answers L chain n url \<longleftrightarrow>
     (\<forall>t src dst data v. \<exists>g. rpc_EstimateGas n url t src dst data v = Inr g
        \<and> unat (scale_gas L g (ch_GasLimitMultiplier chain)) < 2 ^ 63)
   \<and> (\<forall>t. \<exists>f. rpc_LatestBaseFee n url t = Inr (Some f) \<and> 0 \<le> f \<and> f < 10 ^ 70)
   \<and> (\<forall>t. \<exists>p. rpc_SuggestGasTipCap n url t = Inr p \<and> 0 \<le> p \<and> p < 10 ^ 70)
   \<and> (\<forall>t. \<exists>p. rpc_SuggestGasPrice n url t = Inr p \<and> 0 \<le> p \<and> p < 10 ^ 70)
   \<and> (\<forall>t s. rpc_SendTransaction n url t s = None)"

definition small_limits :: "chain_config \<Rightarrow> bool" where
  "small_limits chain \<longleftrightarrow> small (ch_MinMaxFee chain) \<and> small (ch_MaxMaxFee chain)
     \<and> small (ch_MinPriorityFee chain) \<and> small (ch_MaxPriorityFee chain)"

definition can_sign :: "'key eth_lib \<Rightarrow> 'key key_map \<Rightarrow> address \<Rightarrow> bool" where
  "can_sign L keys sender \<longleftrightarrow> (\<exists>k. map_of keys sender = Some k
     \<and> (\<forall>tx c. \<exists>s. SignTx L tx c k = Inr s)) \<and> (\<forall>s. \<exists>b. MarshalBinary L s = Inr b)"

text \<open>What the environment of the pipeline has to offer, now and from now on.\<close>

definition serving :: "'key eth_lib \<Rightarrow> chain_config \<Rightarrow> world \<Rightarrow> bool" where
  "serving L chain w \<longleftrightarrow> calm w \<and> (\<forall>t. \<not> w_done w t)
     \<and> w_endpoints w (ch_ChainID chain) \<noteq> []
     \<and> (\<forall>ep \<in> set (w_endpoints w (ch_ChainID chain)).
          ep_healthy ep \<and> answers L chain (w_rpc w) (ep_url ep))
     \<and> inj (w_ulid w) \<and> (\<forall>t \<ge> w_tick w. w_ulid w t \<notin> a_id ` set (d_attempts (w_db w)))"

text \<open>What the steps of the pipeline leave alone.\<close>

definition steady :: "world \<Rightarrow> world \<Rightarrow> bool" where
  "steady w v \<longleftrightarrow> w_endpoints v = w_endpoints w \<and> w_rpc v = w_rpc w \<and> w_ulid v = w_ulid w
     \<and> w_done v = w_done w \<and> w_dbres v = w_dbres w \<and> w_others v = w_others w
     \<and> w_tick w \<le> w_tick v"

lemma steady_refl [simp, intro]: "steady w w"
  by (simp add: steady_def)

lemma steady_trans [trans]: "steady u v \<Longrightarrow> steady v w \<Longrightarrow> steady u w"
  by (simp add: steady_def)

lemma steady_after [intro]: "steady w v \<Longrightarrow> steady w (after_stmt d v)" "steady w v \<Longrightarrow> steady w (tick v)"
  by (auto simp: steady_def)

lemma steady_calm: "steady w v \<Longrightarrow> calm w \<Longrightarrow> calm v"
  by (simp add: steady_def calm_def)

section \<open>One call at a time\<close>

definition storable :: "gas_params \<Rightarrow> bool" where
  "storable g \<longleftrightarrow> unat (gp_GasLimit g) < 2 ^ 63 \<and> small (gp_MaxFeePerGas g)
     \<and> small (gp_MaxPriorityFeePerGas g) \<and> small (gp_GasPrice g)"

lemma small_clamp: "small (Some x) \<Longrightarrow> small lo \<Longrightarrow> small hi \<Longrightarrow> small (clamp (Some x) lo hi)"
  by (auto simp: clamp_def small_def split: option.splits)

lemma scaled_fee:
  assumes "0 \<le> x" and "x < 10 ^ 70" and "0 \<le> k" and "k \<le> (300 :: int)"
  shows "0 \<le> x * k div 100 \<and> x * k div 100 < 10 ^ 71"
proof -
  have "x * k \<le> x * 300" using assms by (intro mult_left_mono) auto
  then have "x * k < 10 ^ 71 * 100" using assms(2) by simp
  then show ?thesis using assms by (simp add: pos_imp_zdiv_nonneg_iff)
qed

lemma fees_storable:
  assumes "small_limits chain" and "0 \<le> f" and "f < 10 ^ 70" and "0 \<le> p" and "p < 10 ^ 70"
    and "eip1559_fees chain prio f p = (mf, pf)"
  shows "small mf \<and> small pf"
proof -
  obtain a b where ab: "(case priorityMultipliers prio of Some m \<Rightarrow> m
      | None \<Rightarrow> the (priorityMultipliers PriorityNormal)) = (a, b)" and k: "0 \<le> a" "a \<le> 300" "0 \<le> b" "b \<le> 300"
    by (cases prio) (auto simp: priorityMultipliers_def)
  have t: "0 \<le> p * a div 100 \<and> p * a div 100 < 10 ^ 71" using scaled_fee [OF assms(4,5) k(1,2)] .
  have m: "0 \<le> f * b div 100 \<and> f * b div 100 < 10 ^ 71" using scaled_fee [OF assms(2,3) k(3,4)] .
  have "small (Some (p * a div 100))" "small (Some (f * b div 100 + p * a div 100))"
    using t m by (simp_all add: small_def)
  then have "small (clamp (Some (p * a div 100)) (ch_MinPriorityFee chain) (ch_MaxPriorityFee chain))"
    "small (clamp (Some (f * b div 100 + p * a div 100)) (ch_MinMaxFee chain) (ch_MaxMaxFee chain))"
    using assms(1) small_clamp by (simp_all add: small_limits_def)
  then show ?thesis using assms(6) by (auto simp: eip1559_fees_def ab Let_def split: if_splits)
qed

lemma first_up:
  assumes "w_endpoints w cid \<noteq> []" and "\<forall>ep \<in> set (w_endpoints w cid). ep_healthy ep \<and> P (ep_url ep)"
  shows "\<exists>url. getClient cid w = Inr (0, url) \<and> P url"
  using assms by (cases "w_endpoints w cid") (auto simp: getClient_def)

lemma rpc_answer:
  "getClient cid w = Inr (i, url) \<Longrightarrow> f (w_rpc w) url (w_tick w) = Inr a
    \<Longrightarrow> rpc_call m cid f w = (Inr a, tick w)"
  by (simp add: rpc_call_def)

lemma getClient_tick [simp]: "getClient cid (tick w) = getClient cid w"
  by (simp add: getClient_def)

lemma estimate_answers:
  assumes "serving L chain w" and "small_limits chain"
  shows "\<exists>g v. Estimate L (Client (ch_ChainID chain)) chain src dst data val prio w = (Inr g, v)
    \<and> storable g \<and> steady w v \<and> w_db v = w_db w \<and> w_sent v = w_sent w"
proof -
  let ?c = "ch_ChainID chain"
  obtain url where cl: "getClient ?c w = Inr (0, url)" and ans: "answers L chain (w_rpc w) url"
    using first_up [of w ?c "answers L chain (w_rpc w)"] assms(1) unfolding serving_def by blast
  note call = rpc_answer [where i = 0 and url = url]
  obtain g where g: "rpc_EstimateGas (w_rpc w) url (w_tick w) src dst data val = Inr g"
    and lim: "unat (scale_gas L g (ch_GasLimitMultiplier chain)) < 2 ^ 63"
    using ans unfolding answers_def by blast
  have 1: "ec_EstimateGas (Client ?c) src dst data val w = (Inr g, tick w)"
    using call [OF cl, of "\<lambda>n url t. rpc_EstimateGas n url t src dst data val"] g
    by (simp add: Client_def EstimateGas_def)
  let ?gl = "scale_gas L g (ch_GasLimitMultiplier chain)"
  show ?thesis
  proof (cases "ch_SupportsEIP1559 chain")
    case True
    obtain f where f: "rpc_LatestBaseFee (w_rpc w) url (Suc (w_tick w)) = Inr (Some f)" "0 \<le> f" "f < 10 ^ 70"
      using ans unfolding answers_def by blast
    obtain p where p: "rpc_SuggestGasTipCap (w_rpc w) url (Suc (Suc (w_tick w))) = Inr p" "0 \<le> p" "p < 10 ^ 70"
      using ans unfolding answers_def by blast
    have 2: "ec_LatestBaseFee (Client ?c) (tick w) = (Inr f, tick (tick w))"
      using call [of ?c "tick w" rpc_LatestBaseFee] cl f(1) by (simp add: Client_def LatestBaseFee_def)
    have 3: "ec_SuggestGasTipCap (Client ?c) (tick (tick w)) = (Inr p, tick (tick (tick w)))"
      using call [of ?c "tick (tick w)" rpc_SuggestGasTipCap] cl p(1) by (simp add: Client_def SuggestGasTipCap_def)
    obtain mf pf where fees: "eip1559_fees chain prio f p = (mf, pf)" by (cases "eip1559_fees chain prio f p")
    from fees_storable [OF assms(2) f(2,3) p(2,3) fees] lim
    have "storable \<lparr>gp_GasLimit = ?gl, gp_MaxFeePerGas = mf, gp_MaxPriorityFeePerGas = pf,
        gp_GasPrice = None, gp_TxType = 2\<rparr>" by (simp add: storable_def small_def)
    with True show ?thesis
      by (simp add: Estimate_def 1 estimateEIP1559_def 2 3 fees Let_def steady_def)
  next
    case False
    obtain p where p: "rpc_SuggestGasPrice (w_rpc w) url (Suc (w_tick w)) = Inr p" "0 \<le> p" "p < 10 ^ 70"
      using ans unfolding answers_def by blast
    have 2: "ec_SuggestGasPrice (Client ?c) (tick w) = (Inr p, tick (tick w))"
      using call [of ?c "tick w" rpc_SuggestGasPrice] cl p(1) by (simp add: Client_def SuggestGasPrice_def)
    have "small (clamp (Some p) (ch_MinMaxFee chain) (ch_MaxMaxFee chain))"
      using p(2,3) assms(2) by (intro small_clamp) (simp_all add: small_def small_limits_def)
    then have "storable \<lparr>gp_GasLimit = ?gl, gp_MaxFeePerGas = None, gp_MaxPriorityFeePerGas = None,
        gp_GasPrice = clamp (Some p) (ch_MinMaxFee chain) (ch_MaxMaxFee chain), gp_TxType = 0\<rparr>"
      using lim by (simp add: storable_def small_def)
    with False show ?thesis by (simp add: Estimate_def 1 estimateLegacy_def 2 Let_def steady_def)
  qed
qed

lemma small_column: "small b \<Longrightarrow> nullable_numeric78 (bigIntToString b) = Inr b"
  by (cases b) (simp_all add: small_def nullable_numeric78_def bigIntToString_def numeric78_def)

lemma attempt_columns:
  assumes "storable g"
  shows "\<exists>row. attempt_row_of (new_attempt aid i n h g raw t) = Inr row \<and> a_id row = aid
    \<and> a_transaction_id row = i \<and> a_attempt_number row = n \<and> a_tx_hash row = h"
  using assms by (simp add: storable_def attempt_row_of_def new_attempt_def small_column bigint_def)

lemma sent_at_once:
  assumes "w_endpoints w (ch_ChainID chain) \<noteq> []"
    and "\<forall>ep \<in> set (w_endpoints w (ch_ChainID chain)). ep_healthy ep \<and> answers L chain (w_rpc w) (ep_url ep)"
  shows "broadcast_loop maxBroadcastRetries (Client (ch_ChainID chain)) stx None w
    = (None, tick (w\<lparr>w_sent := w_sent w
        @ map (\<lambda>ep. (ch_ChainID chain, ep_url ep, stx)) (w_endpoints w (ch_ChainID chain))\<rparr>))"
proof -
  let ?eps = "w_endpoints w (ch_ChainID chain)"
  have all: "filter ep_healthy ?eps = ?eps" using assms by (simp add: filter_id_conv)
  have "None \<in> set (send_errs stx w ?eps)"
    using assms by (cases ?eps) (auto simp: send_errs_def answers_def)
  then have "ec_SendTransaction (Client (ch_ChainID chain)) stx w = (None, tick (w\<lparr>w_sent := w_sent w
      @ map (\<lambda>ep. (ch_ChainID chain, ep_url ep, stx)) ?eps\<rparr>))"
    by (simp add: Client_def SendTransaction_def Let_def all)
  then show ?thesis by (simp add: maxBroadcastRetries_def numeral_eq_Suc)
qed

section \<open>One transaction\<close>

lemma upd_by_twice:
  "(\<And>x. key (g x) = key x) \<Longrightarrow> upd_by key k f (upd_by key k g rows) = upd_by key k (f \<circ> g) rows"
  by (induction rows) auto

lemma assign_rest:
  assumes "calm w" and "AssignNonceAndMarkPending i s c w = (m, v)"
  shows "d_attempts (w_db v) = d_attempts (w_db w) \<and> w_tick w \<le> w_tick v"
  using assms by (auto simp: AssignNonceAndMarkPending_def calm_runs increment_stmt_def set_nonce_stmt_def
      upd_cursor_def upd_tx_def split: sum.splits option.splits if_splits)

lemma sign_answers:
  assumes "can_sign L keys sender"
  shows "\<exists>stx raw. buildAndSign L (worker_of L keys sender chain) tx n g = Inr (stx, raw)"
proof -
  let ?eth = "build_tx (ch_ChainID chain) n g (HexToAddress L (tx_ToAddress tx)) (tx_Value tx) (tx_Data tx)"
  obtain k sig where k: "map_of keys sender = Some k"
    "SignTx L ?eth (int (unat (ch_ChainID chain))) k = Inr sig"
    using assms unfolding can_sign_def by blast
  obtain raw where "MarshalBinary L \<lparr>st_inner = ?eth, st_sig = sig\<rparr> = Inr raw"
    using assms unfolding can_sign_def by blast
  with k show ?thesis
    by (simp add: buildAndSign_def NewPipeline_def pl_chainID_def LocalSigner_def Sign_def del: of_nat_unat)
qed

lemma nonce_row_id [simp]: "r_id (nonce_row n t r) = r_id r"
  by (simp add: nonce_row_def)

text \<open>The row of the transaction once it is submitted, and what an iteration leaves behind.\<close>

definition submitted_as :: "int \<Rightarrow> string \<Rightarrow> tx_row \<Rightarrow> bool" where
  "submitted_as n h r \<longleftrightarrow> r_status r = TxStatusSubmitted \<and> r_nonce r = Some n \<and> r_final_tx_hash r = Some h"

definition submits :: "'key eth_lib \<Rightarrow> u64 \<Rightarrow> string \<Rightarrow> int \<Rightarrow> world \<Rightarrow> world \<Rightarrow> bool" where
  "submits L cid i n w v \<longleftrightarrow> steady w v \<and> (\<exists>f a t stx.
     w_sent v = w_sent w @ map (\<lambda>ep. (cid, ep_url ep, stx)) (w_endpoints w cid)
     \<and> a_tx_hash a = Hash_Hex L (Tx_Hash L stx)
     \<and> d_transactions (w_db v) = upd_by r_id i f (d_transactions (w_db w))
     \<and> (\<forall>x. r_id (f x) = r_id x \<and> submitted_as n (a_tx_hash a) (f x))
     \<and> d_attempts (w_db v) = d_attempts (w_db w) @ [a] \<and> a_transaction_id a = i
     \<and> a_id a = w_ulid w t \<and> w_tick w \<le> t \<and> t < w_tick v)"

lemma steady_serving:
  assumes "serving L chain w" and "steady w v" and "d_attempts (w_db v) = d_attempts (w_db w)"
  shows "serving L chain v"
  using assms steady_calm by (auto simp: serving_def steady_def)

text \<open>Signing, storing, broadcasting and marking: the row keeps its nonce.\<close>

definition hands_over :: "'key eth_lib \<Rightarrow> u64 \<Rightarrow> string \<Rightarrow> world \<Rightarrow> world \<Rightarrow> bool" where
  "hands_over L cid i w v \<longleftrightarrow> steady w v \<and> d_cursors (w_db v) = d_cursors (w_db w) \<and> (\<exists>h time a t stx.
     w_sent v = w_sent w @ map (\<lambda>ep. (cid, ep_url ep, stx)) (w_endpoints w cid)
     \<and> h = Hash_Hex L (Tx_Hash L stx) \<and> a_tx_hash a = h
     \<and> d_transactions (w_db v) = upd_by r_id i (submitted_row h time) (d_transactions (w_db w))
     \<and> d_attempts (w_db v) = d_attempts (w_db w) @ [a] \<and> a_transaction_id a = i
     \<and> a_id a = w_ulid w t \<and> w_tick w \<le> t \<and> t < w_tick v)"

lemma worker_fields:
  "pl_client (worker_of L keys sender chain) = Client (ch_ChainID chain)"
  "pl_chainID (worker_of L keys sender chain) = ch_ChainID chain"
  "pl_chain (worker_of L keys sender chain) = chain" "pl_sender (worker_of L keys sender chain) = sender"
  by (simp_all add: NewPipeline_def pl_chainID_def)

lemma mark_and_log:
  assumes "serving L chain w" and "w_db w = d"
  shows "\<exists>v. broadcast_and_mark (worker_of L keys sender chain) tx n h stx act w = v \<and> steady w v
    \<and> w_tick w < w_tick v
    \<and> w_sent v = w_sent w @ map (\<lambda>ep. (ch_ChainID chain, ep_url ep, stx)) (w_endpoints w (ch_ChainID chain))
    \<and> (\<exists>time. d_transactions (w_db v) = upd_by r_id (tx_ID tx) (submitted_row h time) (d_transactions d))
    \<and> d_attempts (w_db v) = d_attempts d \<and> d_cursors (w_db v) = d_cursors d"
proof -
  let ?c = "ch_ChainID chain"
  define u where "u = tick (w\<lparr>w_sent := w_sent w
    @ map (\<lambda>ep. (?c, ep_url ep, stx)) (w_endpoints w ?c)\<rparr>)"
  have b: "broadcast_loop maxBroadcastRetries (Client ?c) stx None w = (None, u)"
    using sent_at_once [of w chain L stx] assms(1) by (simp add: serving_def u_def)
  have u: "calm u" "w_db u = d" "steady w u" "w_tick w < w_tick u"
    "w_sent u = w_sent w @ map (\<lambda>ep. (?c, ep_url ep, stx)) (w_endpoints w ?c)"
    using assms by (simp_all add: u_def serving_def steady_def)
  define v where "v = logTransition (tx_ID tx) (status_text TxStatusPending) (status_text TxStatusSubmitted) act
    (''broadcast with hash '' @ h @ '', nonce '' @ u64_dec n)
    (after_stmt (upd_tx (tx_ID tx) (submitted_row h (time_now u)) d) u)"
  have "broadcast_and_mark (worker_of L keys sender chain) tx n h stx act w = v"
    by (simp add: broadcast_and_mark_def worker_fields b MarkSubmitted_def calm_exec u v_def
        del: status_text.simps)
  moreover have "steady w v" "w_tick w < w_tick v" "w_sent v = w_sent u"
      "d_transactions (w_db v) = upd_by r_id (tx_ID tx) (submitted_row h (time_now u)) (d_transactions d)"
      "d_attempts (w_db v) = d_attempts d" "d_cursors (w_db v) = d_cursors d"
    using u by (simp_all add: v_def log_calm steady_def upd_tx_def)
  ultimately show ?thesis using u(5) by auto
qed

lemma send_hands_over:
  assumes srv: "serving L chain w" and sgn: "can_sign L keys sender" and g: "storable g"
    and row: "tx_ID tx \<in> r_id ` set (d_transactions (w_db w))"
    and new: "tx_ID tx \<notin> a_transaction_id ` set (d_attempts (w_db w))"
  shows "hands_over L (ch_ChainID chain) (tx_ID tx) w (sign_and_send L (worker_of L keys sender chain) tx n g act w)"
proof -
  let ?p = "worker_of L keys sender chain" and ?c = "ch_ChainID chain" and ?i = "tx_ID tx"
  obtain stx raw where sg: "buildAndSign L ?p tx n g = Inr (stx, raw)" using sign_answers [OF sgn] by blast
  let ?h = "Hash_Hex L (Tx_Hash L stx)" and ?aid = "w_ulid w (w_tick w)"
  define att where "att = new_attempt ?aid ?i 1 ?h g raw (time_now (tick w))"
  obtain ar where ar: "attempt_row_of att = Inr ar" "a_id ar = ?aid" "a_transaction_id ar = ?i"
      "a_tx_hash ar = ?h" using attempt_columns [OF g] unfolding att_def by blast
  let ?d = "w_db w\<lparr>d_attempts := d_attempts (w_db w) @ [ar]\<rparr>"
  have calm: "calm w" and fresh: "?aid \<notin> a_id ` set (d_attempts (w_db w))"
    using srv by (simp_all add: serving_def)
  have ins: "insert_attempt att (w_db w) = Inr ?d"
    using fresh new row ar unfolding insert_attempt_def by (auto simp: image_iff)
  define u where "u = after_stmt ?d (tick w)"
  have c: "CreateAttempt att (tick w) = (None, u)"
    using ins calm by (simp add: CreateAttempt_def calm_exec u_def)
  have u: "steady w u" "w_db u = ?d" "w_sent u = w_sent w" "w_tick w < w_tick u"
    "w_endpoints u = w_endpoints w" by (simp_all add: u_def steady_after)
  have srvu: "serving L chain u"
    using srv inj_eq [of "w_ulid w"] steady_calm [OF u(1)] ar(2) by (auto simp: serving_def u_def)
  obtain v where v: "broadcast_and_mark ?p tx n ?h stx act u = v" "steady u v" "w_tick u < w_tick v"
      "w_sent v = w_sent u @ map (\<lambda>ep. (?c, ep_url ep, stx)) (w_endpoints u ?c)"
      "\<exists>time. d_transactions (w_db v) = upd_by r_id ?i (submitted_row ?h time) (d_transactions ?d)"
      "d_attempts (w_db v) = d_attempts ?d" "d_cursors (w_db v) = d_cursors ?d"
    using mark_and_log [OF srvu u(2)] by blast
  have "sign_and_send L ?p tx n g act w = v"
    using c v(1) by (simp add: sign_and_send_def sg ulid_make_def Let_def att_def [symmetric])
  moreover have "hands_over L ?c ?i w v"
    unfolding hands_over_def using steady_trans [OF u(1) v(2)] u v(3-7) ar by fastforce
  ultimately show ?thesis by simp
qed

lemma hands_over_submits:
  assumes "hands_over L cid i u v" and "steady w u" and "w_sent u = w_sent w"
    and "d_transactions (w_db u) = upd_by r_id i (nonce_row n time) (d_transactions (w_db w))"
    and "d_attempts (w_db u) = d_attempts (w_db w)"
  shows "submits L cid i n w v"
proof -
  obtain h time' a t stx where f: "w_sent v = w_sent u @ map (\<lambda>ep. (cid, ep_url ep, stx)) (w_endpoints u cid)"
    "a_tx_hash a = Hash_Hex L (Tx_Hash L stx)" "h = a_tx_hash a"
    "d_transactions (w_db v) = upd_by r_id i (submitted_row h time') (d_transactions (w_db u))"
    "d_attempts (w_db v) = d_attempts (w_db u) @ [a]" "a_transaction_id a = i"
    "a_id a = w_ulid u t" "w_tick u \<le> t" "t < w_tick v" and st: "steady u v"
    using assms(1) unfolding hands_over_def by metis
  have "d_transactions (w_db v) = upd_by r_id i (submitted_row h time' \<circ> nonce_row n time) (d_transactions (w_db w))"
    unfolding f(4) assms(4) by (rule upd_by_twice) simp
  moreover have "\<forall>x. r_id ((submitted_row h time' \<circ> nonce_row n time) x) = r_id x
      \<and> submitted_as n (a_tx_hash a) ((submitted_row h time' \<circ> nonce_row n time) x)"
    by (simp add: submitted_row_def nonce_row_def submitted_as_def f(3))
  moreover have "w_endpoints u = w_endpoints w" "w_ulid u = w_ulid w" "w_tick w \<le> t"
    using assms(2) f(8) by (simp_all add: steady_def)
  ultimately show ?thesis
    unfolding submits_def using steady_trans [OF assms(2) st] f assms(3,5) by metis
qed

text \<open>The whole handler.\<close>

lemma process_submits:
  assumes srv: "serving L chain w" and lims: "small_limits chain" and sgn: "can_sign L keys sender"
    and cid: "bigint (ch_ChainID chain) = Inr c"
    and cur: "cursor_value (senderHex L (worker_of L keys sender chain)) (ch_ChainID chain) (w_db w) = Some n"
    and n: "0 \<le> n" "n + 1 < 2 ^ 63"
    and row: "tx_ID tx \<in> r_id ` set (d_transactions (w_db w))"
    and new: "tx_ID tx \<notin> a_transaction_id ` set (d_attempts (w_db w))"
  shows "\<exists>v. processTx L (worker_of L keys sender chain) tx act w = v
    \<and> submits L (ch_ChainID chain) (tx_ID tx) n w v
    \<and> cursor_value (senderHex L (worker_of L keys sender chain)) (ch_ChainID chain) (w_db v) = Some (n + 1)"
proof -
  let ?p = "worker_of L keys sender chain" and ?c = "ch_ChainID chain" and ?i = "tx_ID tx"
  let ?s = "senderHex L ?p"
  have calm: "calm w" using srv by (simp add: serving_def)
  define w1 where "w1 = logTransition ?i (status_text TxStatusQueued) (status_text TxStatusPending)
    act ''claimed by pipeline'' w"
  have w1: "calm w1" "steady w w1" "d_transactions (w_db w1) = d_transactions (w_db w)"
    "d_attempts (w_db w1) = d_attempts (w_db w)" "cursor_value ?s ?c (w_db w1) = Some n"
    "w_sent w1 = w_sent w"
    using calm cur by (simp_all add: w1_def log_calm steady_after cursor_value_def)
  obtain m w2 where a: "AssignNonceAndMarkPending ?i ?s ?c w1 = (m, w2)"
    by (cases "AssignNonceAndMarkPending ?i ?s ?c w1")
  note as = assign_calm [OF w1(1) cid w1(5) n a] and rest = assign_rest [OF w1(1) a]
  then obtain t where rows2: "d_transactions (w_db w2) = upd_by r_id ?i (nonce_row n t) (d_transactions (w_db w))"
    using w1(3) by auto
  have att2: "d_attempts (w_db w2) = d_attempts (w_db w)" using rest w1(4) by simp
  have "steady w1 w2" using same_env_assign [OF a] rest by (simp add: steady_def same_env_def)
  then have s2: "steady w w2" by (rule steady_trans [OF w1(2)])
  have srv2: "serving L chain w2" using steady_serving [OF srv s2 att2] .
  obtain g w3 where e: "Estimate L (Client ?c) chain sender (HexToAddress L (tx_ToAddress tx)) (tx_Data tx)
      (tx_Value tx) (tx_Priority tx) w2 = (Inr g, w3)" and g: "storable g" and s23: "steady w2 w3"
    and db3: "w_db w3 = w_db w2" "w_sent w3 = w_sent w2" using estimate_answers [OF srv2 lims] by blast
  have s3: "steady w w3" using steady_trans [OF s2 s23] .
  have "r_id ` set (d_transactions (w_db w2)) = r_id ` set (d_transactions (w_db w))"
    unfolding rows2 by (metis (no_types) keys_upd_by [of r_id "nonce_row n t"] nonce_row_id list.set_map)
  then have "hands_over L ?c ?i w3 (sign_and_send L ?p tx (word_of_int n) g act w3)"
    using steady_serving [OF srv2 s23] row new by (intro send_hands_over [OF _ sgn g]) (simp_all add: db3 att2)
  moreover have "processTx L ?p tx act w = sign_and_send L ?p tx (word_of_int n) g act w3"
    using a as e by (simp add: processTx_def Let_def w1_def [symmetric] worker_fields del: status_text.simps)
  moreover have "d_transactions (w_db w3) = upd_by r_id ?i (nonce_row n t) (d_transactions (w_db w))"
    "d_attempts (w_db w3) = d_attempts (w_db w)" "w_sent w3 = w_sent w" "cursor_value ?s ?c (w_db w3) = Some (n + 1)"
    using rows2 att2 as w1(6) by (simp_all add: db3)
  ultimately show ?thesis
    using hands_over_submits [OF _ s3, of L ?c ?i _ n t]
    by (simp add: hands_over_def cursor_value_def)
qed

section \<open>The whole queue\<close>

lemma submits_after:
  assumes "submits L cid i n u v" and "steady w u" and "w_sent u = w_sent w"
    and "d_transactions (w_db u) = upd_by r_id i g (d_transactions (w_db w))"
    and "\<And>x. r_id (g x) = r_id x" and "d_attempts (w_db u) = d_attempts (w_db w)"
  shows "submits L cid i n w v"
proof -
  obtain f a t stx where f: "w_sent v = w_sent u @ map (\<lambda>ep. (cid, ep_url ep, stx)) (w_endpoints u cid)"
    "a_tx_hash a = Hash_Hex L (Tx_Hash L stx)"
    "d_transactions (w_db v) = upd_by r_id i f (d_transactions (w_db u))"
    "\<forall>x. r_id (f x) = r_id x \<and> submitted_as n (a_tx_hash a) (f x)"
    "d_attempts (w_db v) = d_attempts (w_db u) @ [a]" "a_transaction_id a = i"
    "a_id a = w_ulid u t" "w_tick u \<le> t" "t < w_tick v" and st: "steady u v"
    using assms(1) unfolding submits_def by blast
  have "d_transactions (w_db v) = upd_by r_id i (f \<circ> g) (d_transactions (w_db w))"
    unfolding f(3) assms(4) by (rule upd_by_twice) (rule assms(5))
  moreover have "\<forall>x. r_id ((f \<circ> g) x) = r_id x \<and> submitted_as n (a_tx_hash a) ((f \<circ> g) x)"
    using f(4) assms(5) by simp
  moreover have "w_endpoints u = w_endpoints w" "w_ulid u = w_ulid w" "w_tick w \<le> t"
    using assms(2) f(8) by (simp_all add: steady_def)
  ultimately show ?thesis
    unfolding submits_def using steady_trans [OF assms(2) st] f assms(3,6) by metis
qed

lemma iteration_submits:
  assumes srv: "serving L chain w" and lims: "small_limits chain" and sgn: "can_sign L keys sender"
    and cid: "bigint (ch_ChainID chain) = Inr c"
    and q: "queue (senderHex L (worker_of L keys sender chain)) c (w_db w) = r # rs"
    and cur: "cursor_value (senderHex L (worker_of L keys sender chain)) (ch_ChainID chain) (w_db w) = Some n"
    and n: "0 \<le> n" "n + 1 < 2 ^ 63"
    and new: "r_id r \<notin> a_transaction_id ` set (d_attempts (w_db w))"
  shows "\<exists>v. run_iteration L (worker_of L keys sender chain) w = Some v
    \<and> submits L (ch_ChainID chain) (r_id r) n w v
    \<and> cursor_value (senderHex L (worker_of L keys sender chain)) (ch_ChainID chain) (w_db v) = Some (n + 1)"
proof -
  let ?p = "worker_of L keys sender chain" and ?c = "ch_ChainID chain"
  let ?x = "pipelineID L ?p" and ?s = "senderHex L ?p"
  let ?tx = "scanTransaction (claim_row ?x (time_now w) r)"
  have calm: "calm w" and go: "\<not> ctx_done w" using srv by (simp_all add: serving_def ctx_done_def)
  define u where "u = after_stmt (upd_tx (r_id r) (claim_row ?x (time_now w)) (w_db w)) w"
  have claim: "ClaimNextQueued ?s ?c ?x w = (Inr (Some ?tx), u)"
    using claim_calm [OF calm cid q] by (simp add: u_def)
  have i: "tx_ID ?tx = r_id r" by (simp add: scanTransaction_def Let_def claim_row_def)
  have u: "steady w u" "w_sent u = w_sent w" "d_attempts (w_db u) = d_attempts (w_db w)"
    "d_transactions (w_db u) = upd_by r_id (r_id r) (claim_row ?x (time_now w)) (d_transactions (w_db w))"
    "cursor_value ?s ?c (w_db u) = Some n"
    using cur by (simp_all add: u_def steady_after upd_tx_def cursor_value_def)
  have keep: "\<And>y. r_id (claim_row ?x (time_now w) y) = r_id y" by (simp add: claim_row_def)
  have "r \<in> set (d_transactions (w_db w))" using q set_queue [of ?s c "w_db w"] by auto
  then have "r_id r \<in> set (map r_id (d_transactions (w_db u)))"
    unfolding u(4) keys_upd_by [of r_id "claim_row ?x (time_now w)", OF keep] by simp
  then have row: "tx_ID ?tx \<in> r_id ` set (d_transactions (w_db u))" by (simp only: i list.set_map)
  have new': "tx_ID ?tx \<notin> a_transaction_id ` set (d_attempts (w_db u))" using new by (simp only: i u(3) not_False_eq_True)
  obtain v where v: "processTx L ?p ?tx ?x u = v" "submits L ?c (r_id r) n u v"
      "cursor_value ?s ?c (w_db v) = Some (n + 1)"
    using process_submits [OF steady_serving [OF srv u(1,3)] lims sgn cid u(5) n row new', of ?x]
    unfolding i by blast
  have p: "pl_chainID ?p = ?c" by (simp add: NewPipeline_def pl_chainID_def)
  have "run_iteration L ?p w = Some v" using go claim v(1) by (simp add: run_iteration_def p)
  with submits_after [OF v(2) u(1,2,4) keep u(3)] v(3) show ?thesis by blast
qed

text \<open>Several iterations; None when the context ended one.\<close>

fun iterations :: "nat \<Rightarrow> 'key eth_lib \<Rightarrow> pipeline \<Rightarrow> world \<Rightarrow> world option" where
  "iterations 0 L p w = Some w"
| "iterations (Suc k) L p w =
    (case run_iteration L p w of None \<Rightarrow> None | Some w1 \<Rightarrow> iterations k L p w1)"

text \<open>The transaction is submitted with this nonce, under the hash of an attempt that every endpoint got.\<close>

definition handed_in :: "'key eth_lib \<Rightarrow> u64 \<Rightarrow> string \<Rightarrow> int \<Rightarrow> world \<Rightarrow> bool" where
  "handed_in L cid i n v \<longleftrightarrow> (\<exists>r \<in> set (d_transactions (w_db v)). \<exists>a \<in> set (d_attempts (w_db v)). \<exists>stx.
     r_id r = i \<and> submitted_as n (a_tx_hash a) r \<and> a_transaction_id a = i
     \<and> a_tx_hash a = Hash_Hex L (Tx_Hash L stx)
     \<and> (\<forall>ep \<in> set (w_endpoints v cid). (cid, ep_url ep, stx) \<in> set (w_sent v)))"

lemma submitsE:
  assumes "submits L cid i n w v"
  obtains f a t stx where "steady w v"
    "w_sent v = w_sent w @ map (\<lambda>ep. (cid, ep_url ep, stx)) (w_endpoints w cid)"
    "a_tx_hash a = Hash_Hex L (Tx_Hash L stx)"
    "d_transactions (w_db v) = upd_by r_id i f (d_transactions (w_db w))"
    "\<And>x. r_id (f x) = r_id x" "\<And>x. submitted_as n (a_tx_hash a) (f x)"
    "d_attempts (w_db v) = d_attempts (w_db w) @ [a]" "a_transaction_id a = i"
    "a_id a = w_ulid w t" "w_tick w \<le> t" "t < w_tick v"
  using assms unfolding submits_def by blast

lemma submits_hands_in:
  assumes "submits L cid i n w v" and "i \<in> r_id ` set (d_transactions (w_db w))"
  shows "handed_in L cid i n v"
  using assms(1)
proof (rule submitsE)
  fix f a t stx
  assume f: "d_transactions (w_db v) = upd_by r_id i f (d_transactions (w_db w))"
    "\<And>x. r_id (f x) = r_id x" "\<And>x. submitted_as n (a_tx_hash a) (f x)"
    "d_attempts (w_db v) = d_attempts (w_db w) @ [a]" "a_transaction_id a = i"
    "a_tx_hash a = Hash_Hex L (Tx_Hash L stx)" "steady w v"
    "w_sent v = w_sent w @ map (\<lambda>ep. (cid, ep_url ep, stx)) (w_endpoints w cid)"
  obtain x where x: "x \<in> set (d_transactions (w_db w))" "r_id x = i" using assms(2) by blast
  then have "f x \<in> set (d_transactions (w_db v))" by (auto simp: f(1) set_upd_by)
  moreover have "a \<in> set (d_attempts (w_db v))" by (simp add: f(4))
  moreover have "\<forall>ep \<in> set (w_endpoints v cid). (cid, ep_url ep, stx) \<in> set (w_sent v)"
    using f(7,8) by (simp add: steady_def)
  ultimately show ?thesis unfolding handed_in_def using f(2,3,5,6) x(2) by metis
qed

lemma handed_in_later:
  assumes "submits L cid j m w v" and "handed_in L cid i n w" and "i \<noteq> j"
  shows "handed_in L cid i n v"
  using assms(1)
proof (rule submitsE)
  fix f b t stx'
  assume f: "d_transactions (w_db v) = upd_by r_id j f (d_transactions (w_db w))"
    "d_attempts (w_db v) = d_attempts (w_db w) @ [b]" "steady w v"
    "w_sent v = w_sent w @ map (\<lambda>ep. (cid, ep_url ep, stx')) (w_endpoints w cid)"
  obtain r a stx where r: "r \<in> set (d_transactions (w_db w))" "a \<in> set (d_attempts (w_db w))"
    "r_id r = i" "submitted_as n (a_tx_hash a) r" "a_transaction_id a = i"
    "a_tx_hash a = Hash_Hex L (Tx_Hash L stx)"
    "\<forall>ep \<in> set (w_endpoints w cid). (cid, ep_url ep, stx) \<in> set (w_sent w)"
    using assms(2) unfolding handed_in_def by blast
  have "r \<in> set (d_transactions (w_db v))" using r(1,3) assms(3) by (auto simp: f(1) set_upd_by)
  moreover have "a \<in> set (d_attempts (w_db v))" using r(2) by (simp add: f(2))
  moreover have "\<forall>ep \<in> set (w_endpoints v cid). (cid, ep_url ep, stx) \<in> set (w_sent v)"
    using r(7) f(3,4) by (auto simp: steady_def)
  ultimately show ?thesis unfolding handed_in_def using r(3-6) by metis
qed

lemma submits_serving:
  assumes "serving L chain w" and "submits L cid i n w v"
  shows "serving L chain v"
  using assms(2)
proof (rule submitsE)
  fix f a t
  assume st: "steady w v" and a: "d_attempts (w_db v) = d_attempts (w_db w) @ [a]" "a_id a = w_ulid w t"
    "t < w_tick v"
  have fresh: "\<forall>t' \<ge> w_tick w. w_ulid w t' \<notin> a_id ` set (d_attempts (w_db w))" and inj: "inj (w_ulid w)"
    using assms(1) by (simp_all add: serving_def)
  have "w_ulid v t' \<notin> a_id ` set (d_attempts (w_db v))" if "w_tick v \<le> t'" for t'
  proof -
    have "w_ulid w t' \<noteq> w_ulid w t" using inj_eq [OF inj] a(3) that by simp
    moreover have "w_tick w \<le> t'" using st that by (simp add: steady_def)
    ultimately show ?thesis using fresh a(1,2) st by (simp add: steady_def)
  qed
  then show ?thesis
    using assms(1) st steady_calm [OF st] by (simp add: serving_def steady_def)
qed

lemma queue_worked_off:
  assumes "small_limits chain" and "can_sign L keys sender" and "bigint (ch_ChainID chain) = Inr c"
    and "s = senderHex L (worker_of L keys sender chain)"
    and "serving L chain w" and "distinct (map r_id (d_transactions (w_db w)))"
    and "queue s c (w_db w) = Q" and "cursor_value s (ch_ChainID chain) (w_db w) = Some n"
    and "0 \<le> n" and "n + int (length Q) < 2 ^ 63"
    and "\<And>q. q \<in> set Q \<Longrightarrow> r_id q \<notin> a_transaction_id ` set (d_attempts (w_db w))"
  shows "\<exists>v. iterations (length Q) L (worker_of L keys sender chain) w = Some v \<and> queue s c (w_db v) = []
    \<and> cursor_value s (ch_ChainID chain) (w_db v) = Some (n + int (length Q))
    \<and> (\<forall>k < length Q. handed_in L (ch_ChainID chain) (r_id (Q ! k)) (n + int k) v)
    \<and> (\<forall>i m. i \<notin> r_id ` set Q \<longrightarrow> handed_in L (ch_ChainID chain) i m w
        \<longrightarrow> handed_in L (ch_ChainID chain) i m v)"
  using assms(5-)
proof (induction Q arbitrary: w n)
  case Nil
  then show ?case by simp
next
  case (Cons r rs)
  let ?p = "worker_of L keys sender chain" and ?c = "ch_ChainID chain"
  have n1: "n + 1 < 2 ^ 63" using Cons.prems(6) by simp
  obtain w1 where run: "run_iteration L ?p w = Some w1" and sub: "submits L ?c (r_id r) n w w1"
    and cur: "cursor_value s ?c (w_db w1) = Some (n + 1)"
    using iteration_submits [OF Cons.prems(1) assms(1-3) Cons.prems(3) [unfolded assms(4)]
        Cons.prems(4) [unfolded assms(4)] Cons.prems(5) n1] Cons.prems(7) [of r]
    unfolding assms(4) by auto
  obtain f a where f: "d_transactions (w_db w1) = upd_by r_id (r_id r) f (d_transactions (w_db w))"
    "\<And>x. r_id (f x) = r_id x" "\<And>x. submitted_as n (a_tx_hash a) (f x)"
    "d_attempts (w_db w1) = d_attempts (w_db w) @ [a]" "a_transaction_id a = r_id r"
    using sub by (rule submitsE) blast
  have q1: "queue s c (w_db w1) = rs"
    using queue_upd [OF Cons.prems(2,3) f(1)] f(3) by (simp add: submitted_as_def)
  have ids: "map r_id (d_transactions (w_db w1)) = map r_id (d_transactions (w_db w))"
    unfolding f(1) by (rule keys_upd_by) (rule f(2))
  have other: "r_id r \<notin> r_id ` set rs" using queue_distinct [OF Cons.prems(2), of s c] Cons.prems(3) by simp
  have "\<exists>v. iterations (length rs) L ?p w1 = Some v \<and> queue s c (w_db v) = []
    \<and> cursor_value s ?c (w_db v) = Some (n + 1 + int (length rs))
    \<and> (\<forall>k < length rs. handed_in L ?c (r_id (rs ! k)) (n + 1 + int k) v)
    \<and> (\<forall>i m. i \<notin> r_id ` set rs \<longrightarrow> handed_in L ?c i m w1 \<longrightarrow> handed_in L ?c i m v)"
  proof (rule Cons.IH)
    show "serving L chain w1" using submits_serving [OF Cons.prems(1) sub] .
    show "n + 1 + int (length rs) < 2 ^ 63" "0 \<le> n + 1" using Cons.prems(5,6) by simp_all
    show "r_id q \<notin> a_transaction_id ` set (d_attempts (w_db w1))" if "q \<in> set rs" for q
    proof -
      have "r_id q \<noteq> r_id r" using other that by (metis imageI)
      then show ?thesis using Cons.prems(7) [of q] that f(4,5) by simp
    qed
  qed (simp_all add: ids Cons.prems(2) q1 cur)
  then obtain v where v: "iterations (length rs) L ?p w1 = Some v" "queue s c (w_db v) = []"
    "cursor_value s ?c (w_db v) = Some (n + 1 + int (length rs))"
    "\<And>k. k < length rs \<Longrightarrow> handed_in L ?c (r_id (rs ! k)) (n + 1 + int k) v"
    "\<And>i m. i \<notin> r_id ` set rs \<Longrightarrow> handed_in L ?c i m w1 \<Longrightarrow> handed_in L ?c i m v" by blast
  have "r \<in> set (d_transactions (w_db w))" using Cons.prems(3) set_queue [of s c "w_db w"] by auto
  then have "handed_in L ?c (r_id r) n v" using v(5) [OF other] submits_hands_in [OF sub] by blast
  then have "handed_in L ?c (r_id ((r # rs) ! k)) (n + int k) v" if "k < length (r # rs)" for k
    using that v(4) [of "k - 1"] by (cases k) (simp_all add: algebra_simps)
  moreover have "handed_in L ?c i m v" if "i \<notin> r_id ` set (r # rs)" "handed_in L ?c i m w" for i m
    using that v(5) handed_in_later [OF sub that(2)] by auto
  ultimately show ?case using run v(1-3) by (auto simp: algebra_simps)
qed

section \<open>Property\<close>

text \<open>C13: The queue is worked off: in an undisturbed database, over endpoints that are healthy, answer
  and accept what is broadcast, with a key that signs, a pipeline needs as many iterations as
  transactions are queued for its sender on its chain to submit them all; the k-th oldest gets the
  k-th next nonce, every endpoint has received it, and an attempt records its final hash.\<close>

theorem queue_is_submitted:
  assumes "serving L chain w" and "small_limits chain" and "can_sign L keys sender"
    and "bigint (ch_ChainID chain) = Inr c" and "distinct (map r_id (d_transactions (w_db w)))"
    and "queue (senderHex L (worker_of L keys sender chain)) c (w_db w) = Q"
    and "cursor_value (senderHex L (worker_of L keys sender chain)) (ch_ChainID chain) (w_db w) = Some n"
    and "0 \<le> n" and "n + int (length Q) < 2 ^ 63"
    and "\<forall>q \<in> set Q. r_id q \<notin> a_transaction_id ` set (d_attempts (w_db w))"
  shows "\<exists>v. iterations (length Q) L (worker_of L keys sender chain) w = Some v
    \<and> queue (senderHex L (worker_of L keys sender chain)) c (w_db v) = []
    \<and> (\<forall>k < length Q. \<exists>r \<in> set (d_transactions (w_db v)). \<exists>a \<in> set (d_attempts (w_db v)). \<exists>stx.
          r_id r = r_id (Q ! k) \<and> r_status r = TxStatusSubmitted \<and> r_nonce r = Some (n + int k)
        \<and> r_final_tx_hash r = Some (Hash_Hex L (Tx_Hash L stx))
        \<and> a_transaction_id a = r_id r \<and> a_tx_hash a = Hash_Hex L (Tx_Hash L stx)
        \<and> (\<forall>ep \<in> set (w_endpoints v (ch_ChainID chain)).
              (ch_ChainID chain, ep_url ep, stx) \<in> set (w_sent v)))"
proof -
  have "\<And>q. q \<in> set Q \<Longrightarrow> r_id q \<notin> a_transaction_id ` set (d_attempts (w_db w))" using assms(10) by blast
  from queue_worked_off [OF assms(2-4) refl assms(1,5-9) this] obtain v where
    v: "iterations (length Q) L (worker_of L keys sender chain) w = Some v"
      "queue (senderHex L (worker_of L keys sender chain)) c (w_db v) = []"
      "\<forall>k < length Q. handed_in L (ch_ChainID chain) (r_id (Q ! k)) (n + int k) v" by blast
  then show ?thesis unfolding handed_in_def submitted_as_def by (intro exI [of _ v]) metis
qed

text \<open>Two queued transactions, the younger one stored first.\<close>

definition two_queued :: db where
  "two_queued = queued_db\<lparr>d_transactions :=
     [sample_row\<lparr>r_id := ''t2'', r_idempotency_key := ''k2'', r_created_at := 1\<rparr>, sample_row]\<rparr>"

lemma two_queued_fields:
  "queue ''0x7'' 1 two_queued = [sample_row, sample_row\<lparr>r_id := ''t2'', r_idempotency_key := ''k2'', r_created_at := 1\<rparr>]"
  "d_attempts two_queued = []" "cursor_value ''0x7'' 1 two_queued = Some 5"
  "distinct (map r_id (d_transactions two_queued))"
  by (simp_all add: two_queued_def queue_def cursor_value_def c_key_def)

lemma sample_serving:
  assumes "d_attempts d = []"
  shows "serving sample_lib sample_chain (sample_world one_up d)"
proof -
  have l: "ilog2 21000 = 14" "ilog2 25200 = 14" by (simp_all add: ilog2.simps)
  have r: "f64_round 21000 = 21000" "f64_round 25200 = 25200"
    by (simp_all add: f64_round_def f64_round_pos_def f64_exp_def l two_powi_def round_even_def Let_def)
  have "scale_gas sample_lib 21000 (6 / 5) = 25200" by (simp add: scale_gas_def r f64_to_u64_def)
  then have "answers sample_lib sample_chain sample_nodes url" for url
    by (simp add: answers_def sample_nodes_def sample_chain_def)
  moreover have "inj (\<lambda>n. CHR ''U'' # nat_dec n)" by (rule injI) (simp add: nat_dec_inj)
  moreover have "w_ulid (sample_world one_up d) = (\<lambda>n. CHR ''U'' # nat_dec n)" "w_done (sample_world one_up d) = (\<lambda>_. False)"
    by (simp_all add: sample_world_def)
  ultimately show ?thesis
    using assms by (simp add: serving_def one_up_def)
qed

theorem queue_is_submitted_witness:
  "\<exists>v. iterations 2 sample_lib sample_worker (sample_world one_up two_queued) = Some v
     \<and> (\<exists>r \<in> set (d_transactions (w_db v)). r_id r = ''t1'' \<and> r_status r = TxStatusSubmitted \<and> r_nonce r = Some 5)
     \<and> (\<exists>r \<in> set (d_transactions (w_db v)). r_id r = ''t2'' \<and> r_status r = TxStatusSubmitted \<and> r_nonce r = Some 6)"
proof -
  let ?Q = "[sample_row, sample_row\<lparr>r_id := ''t2'', r_idempotency_key := ''k2'', r_created_at := 1\<rparr>]"
  let ?w = "sample_world one_up two_queued"
  have "small_limits sample_chain" by (simp add: small_limits_def small_def sample_chain_def)
  moreover have "can_sign sample_lib [(7, 3)] 7" by (simp add: can_sign_def sample_lib_def)
  moreover have c: "ch_ChainID sample_chain = 1" by (simp add: sample_chain_def)
  then have "bigint (ch_ChainID sample_chain) = Inr 1" by (simp add: bigint_def)
  moreover have s: "senderHex sample_lib (worker_of sample_lib [(7, 3)] 7 sample_chain) = ''0x7''"
    using sample_ids(1) by (simp only: sample_worker_def)
  have q: "queue (senderHex sample_lib (worker_of sample_lib [(7, 3)] 7 sample_chain)) 1 (w_db ?w) = ?Q"
    "cursor_value (senderHex sample_lib (worker_of sample_lib [(7, 3)] 7 sample_chain)) (ch_ChainID sample_chain)
      (w_db ?w) = Some 5" unfolding s using two_queued_fields by (simp_all only: c sample_world_fields)
  have srv: "serving sample_lib sample_chain ?w" using sample_serving two_queued_fields(2) by blast
  have rest: "distinct (map r_id (d_transactions (w_db ?w)))" "(0 :: int) \<le> 5"
    "5 + int (length ?Q) < 2 ^ 63" "\<forall>q \<in> set ?Q. r_id q \<notin> a_transaction_id ` set (d_attempts (w_db ?w))"
    using two_queued_fields(2,4) by simp_all
  have len: "length ?Q = 2" by simp
  from queue_is_submitted [OF srv calculation(1,2) \<open>bigint _ = Inr 1\<close> rest(1) q rest(2-4), folded sample_worker_def]
  obtain v where run: "iterations 2 sample_lib sample_worker ?w = Some v"
    and fin: "\<forall>k < 2. \<exists>r \<in> set (d_transactions (w_db v)). r_id r = r_id (?Q ! k)
      \<and> r_status r = TxStatusSubmitted \<and> r_nonce r = Some (5 + int k)"
    unfolding len by meson
  from fin [rule_format, of 0] fin [rule_format, of 1] run show ?thesis by simp
qed

end
