(* ===== verification/Paging.thy ===== *)
theory Paging
  imports Progress ReadFacts
begin

text \<open>
  The pass over the pages of a status, which the receipt poller makes twice per round: in a good world
  it visits every row of the status once and changes no other. It is proved once, in a locale, for
  any handler of a page.
\<close>

section \<open>A pass over the pages\<close>

text \<open>The rows of a status after the cursor, in the order of their identifiers.\<close>

definition rest_rows :: "tx_status \<Rightarrow> int \<Rightarrow> string \<Rightarrow> db \<Rightarrow> tx_row list" where
  "rest_rows st c cur d = sort_key r_id (filter (\<lambda>r. r_status r = st \<and> r_chain_id r = c
     \<and> (cur \<noteq> [] \<longrightarrow> cur < r_id r)) (d_transactions d))"

lemma set_rest_rows: "set (rest_rows st c cur d) = {r \<in> set (d_transactions d). r_status r = st
    \<and> r_chain_id r = c \<and> (cur \<noteq> [] \<longrightarrow> cur < r_id r)}"
  by (auto simp: rest_rows_def)

lemma page_calm:
  assumes "calm w" and "bigint cid = Inr c" and "0 \<le> lm"
  shows "get_page st cid lm cur w
    = (Inr (scanTransactionRows (take (nat lm) (rest_rows st c cur (w_db w)))), after_stmt (w_db w) w)"
  using assms by (simp add: get_page_def calm_query page_after_def rest_rows_def)

lemma rest_rows_strict:
  assumes "distinct (map r_id (d_transactions d))"
  shows "sorted_wrt (<) (map r_id (rest_rows st c cur d))"
proof -
  have "inj_on r_id (set (d_transactions d))" "distinct (d_transactions d)"
    using assms by (simp_all add: distinct_map)
  then have "distinct (map r_id (rest_rows st c cur d))"
    by (auto simp: rest_rows_def distinct_map inj_on_def)
  moreover have "sorted (map r_id (rest_rows st c cur d))" by (simp add: rest_rows_def)
  ultimately show ?thesis by (simp add: strict_sorted_iff)
qed

lemma filter_map_same:
  "(\<And>x. x \<in> set xs \<Longrightarrow> F x = x \<or> \<not> P (F x) \<and> \<not> P x) \<Longrightarrow> filter P (map F xs) = filter P xs"
proof (induction xs)
  case (Cons x xs)
  have "F x = x \<or> \<not> P (F x) \<and> \<not> P x" using Cons.prems by simp
  moreover have "filter P (map F xs) = filter P xs" using Cons by simp
  ultimately show ?case by (elim disjE) simp_all
qed simp

text \<open>After a page, the rows behind its last one are left as they were.\<close>

lemma rest_after_page:
  assumes "distinct (map r_id (d_transactions d))" and "[] \<notin> r_id ` set (d_transactions d)"
    and "rest_rows st c cur d = ys @ zs" and "ys \<noteq> []" and "d_transactions d' = map F (d_transactions d)"
    and "\<And>x. r_id (F x) = r_id x" and "\<And>x. r_id x \<notin> r_id ` set ys \<Longrightarrow> F x = x"
  shows "rest_rows st c (r_id (last ys)) d' = zs"
proof -
  let ?l = "r_id (last ys)"
  let ?P = "\<lambda>r. r_status r = st \<and> r_chain_id r = c \<and> (?l \<noteq> [] \<longrightarrow> ?l < r_id r)"
  let ?Q = "\<lambda>r. r_status r = st \<and> r_chain_id r = c \<and> (cur \<noteq> [] \<longrightarrow> cur < r_id r)"
  have strict: "sorted_wrt (<) (map r_id (ys @ zs))" using rest_rows_strict [OF assms(1), of st c cur] assms(3) by simp
  have in_page: "last ys \<in> set (rest_rows st c cur d)" using assms(3,4) by simp
  then have l: "?l \<noteq> []" "cur \<noteq> [] \<longrightarrow> cur < ?l" using assms(2) set_rest_rows by force+
  have le: "\<not> ?l < r_id y" if "y \<in> set ys" for y
  proof -
    obtain us where ys: "ys = us @ [last ys]" using assms(4) by (metis append_butlast_last_id)
    have "sorted_wrt (<) (map r_id (us @ [last ys]))" using strict ys by (metis map_append sorted_wrt_append)
    then have "\<forall>u \<in> set us. r_id u < ?l" by (simp add: sorted_wrt_append)
    moreover have "y \<in> set us \<or> y = last ys" using that ys by (metis set_append Un_iff list.set(1) list.set(2) empty_iff insert_iff)
    ultimately show ?thesis by (auto dest: less_asym)
  qed
  have "filter ?P (map F xs) = filter ?P xs" for xs
  proof (rule filter_map_same)
    fix x show "F x = x \<or> \<not> ?P (F x) \<and> \<not> ?P x"
    proof (cases "r_id x \<in> r_id ` set ys")
      case True
      then show ?thesis using le l(1) assms(6) by auto
    qed (use assms(7) in auto)
  qed
  moreover have "filter ?P xs = filter (\<lambda>r. ?l < r_id r) (filter ?Q xs)" for xs
    using l by (induction xs) (auto intro: less_trans)
  ultimately have "filter ?P (map F xs) = filter (\<lambda>r. ?l < r_id r) (filter ?Q xs)" for xs by (simp only:)
  then have "rest_rows st c ?l d' = filter (\<lambda>r. ?l < r_id r) (rest_rows st c cur d)"
    by (simp only: rest_rows_def assms(5) filter_sort)
  then show ?thesis using rest_after [OF strict assms(4)] assms(3) by simp
qed

text \<open>A rewriting of the transactions with certain identifiers, in a steady world.\<close>

definition alters :: "string set \<Rightarrow> (tx_row \<Rightarrow> tx_row) \<Rightarrow> world \<Rightarrow> world \<Rightarrow> bool" where
  "alters I F w v \<longleftrightarrow> steady w v \<and> d_transactions (w_db v) = map F (d_transactions (w_db w))
     \<and> (\<forall>x. r_id (F x) = r_id x) \<and> (\<forall>x. r_id x \<notin> I \<longrightarrow> F x = x)"

lemma alters_idle:
  "steady w v \<Longrightarrow> d_transactions (w_db v) = d_transactions (w_db w) \<Longrightarrow> alters I id w v"
  by (simp add: alters_def)

lemma alters_trans:
  "alters I F w u \<Longrightarrow> alters J G u v \<Longrightarrow> alters (I \<union> J) (G \<circ> F) w v"
  using steady_trans by (auto simp: alters_def)

lemma alters_mono: "alters I F w v \<Longrightarrow> I \<subseteq> J \<Longrightarrow> alters J F w v"
  by (auto simp: alters_def)

lemma alters_same: "alters I F w v \<Longrightarrow> r_id r \<notin> I \<Longrightarrow> F r = r"
  by (simp add: alters_def)

lemma alters_upd:
  "steady w v \<Longrightarrow> d_transactions (w_db v) = upd_by r_id i f (d_transactions (w_db w))
    \<Longrightarrow> (\<And>x. r_id (f x) = r_id x) \<Longrightarrow> alters {i} (\<lambda>x. if r_id x = i then f x else x) w v"
  by (simp add: alters_def upd_by_def)

lemma alters_ids: "alters I F w v \<Longrightarrow> map r_id (d_transactions (w_db v)) = map r_id (d_transactions (w_db w))"
  by (simp add: alters_def)

text \<open>One row, then others.\<close>

lemma alters_step:
  assumes "alters {r_id r} F w u" and "alters (r_id ` B) G u v" and "r_id r \<notin> r_id ` B"
  shows "alters (r_id ` insert r B) (G \<circ> F) w v" and "(G \<circ> F) r = F r" and "q \<in> B \<Longrightarrow> (G \<circ> F) q = G q"
proof -
  show "alters (r_id ` insert r B) (G \<circ> F) w v" using alters_trans [OF assms(1,2)] by simp
  have "r_id (F r) = r_id r" using assms(1) by (simp add: alters_def)
  then show "(G \<circ> F) r = F r" using alters_same [OF assms(2), of "F r"] assms(3) by simp
  show "(G \<circ> F) q = G q" if "q \<in> B"
  proof -
    have "r_id q \<noteq> r_id r" using assms(3) imageI [OF that, of r_id] by (intro notI) (simp only: simp_thms)
    then have "F q = q" by (intro alters_same [OF assms(1)]) simp
    then show ?thesis by simp
  qed
qed

text \<open>
  A handler that, in a good world, changes each row of a page as it should and no other row.
\<close>

locale page_pass =
  fixes ok :: "world \<Rightarrow> bool"
    and handle :: "transaction list \<Rightarrow> world \<Rightarrow> (bool \<times> world) outcome"
    and fine :: "tx_row set \<Rightarrow> bool"
    and decided :: "tx_row \<Rightarrow> tx_row \<Rightarrow> bool"
  assumes ok_calm: "ok w \<Longrightarrow> calm w"
    and ok_steady: "ok w \<Longrightarrow> steady w v \<Longrightarrow> ok v"
    and fine_part: "fine B \<Longrightarrow> A \<subseteq> B \<Longrightarrow> fine A"
    and handles: "ok w \<Longrightarrow> rows \<noteq> [] \<Longrightarrow> distinct (map r_id rows) \<Longrightarrow> fine (set rows) \<Longrightarrow>
      \<exists>v F. handle (scanTransactionRows rows) w = Ret (True, v) \<and> alters (r_id ` set rows) F w v
        \<and> (\<forall>r \<in> set rows. decided r (F r))"
begin

lemma pass:
  assumes "ok w" and "bigint cid = Inr c" and "0 < chunk"
    and "distinct (map r_id (d_transactions (w_db w)))" and "[] \<notin> r_id ` set (d_transactions (w_db w))"
    and "length (rest_rows st c cur (w_db w)) < n" and "fine (set (rest_rows st c cur (w_db w)))"
  shows "\<exists>v F. page_loop n (get_page st cid chunk) handle chunk cur w = Ret v
    \<and> alters (r_id ` set (rest_rows st c cur (w_db w))) F w v
    \<and> (\<forall>r \<in> set (rest_rows st c cur (w_db w)). decided r (F r))"
  using assms(1,4-) unfolding alters_def
proof (induction n arbitrary: cur w)
  case (Suc n)
  define xs where "xs = rest_rows st c cur (w_db w)"
  define ys where "ys = take (nat chunk) xs"
  define zs where "zs = drop (nat chunk) xs"
  have xs: "xs = ys @ zs" by (simp add: ys_def zs_def)
  define u where "u = after_stmt (w_db w) w"
  have page: "get_page st cid chunk cur w = (Inr (scanTransactionRows ys), u)"
    using page_calm [OF ok_calm [OF Suc.prems(1)] assms(2)] assms(3) by (simp add: ys_def xs_def u_def)
  have u: "steady w u" "w_db u = w_db w" by (simp_all add: u_def steady_after)
  show ?case
  proof (cases "ys = []")
    case True
    then have "xs = []" using assms(3) by (simp add: ys_def)
    with True page u show ?thesis
      by (intro exI [of _ u] exI [of _ id]) (simp add: scanTransactionRows_def xs_def [symmetric])
  next
    case False
    have strict: "sorted_wrt (<) (map r_id xs)" using rest_rows_strict [OF Suc.prems(2)] by (simp add: xs_def)
    then have dist: "distinct (map r_id (ys @ zs))" using xs by (simp add: strict_sorted_iff)
    have fine: "fine (set ys)" "fine (set zs)"
      using fine_part [OF Suc.prems(5)] xs unfolding xs_def [symmetric] by simp_all
    have "distinct (map r_id ys)" using dist by simp
    from handles [OF ok_steady [OF Suc.prems(1) u(1)] False this fine(1)]
    obtain w1 F where h: "handle (scanTransactionRows ys) u = Ret (True, w1)" and st1: "steady u w1"
      and F1: "d_transactions (w_db w1) = map F (d_transactions (w_db w))" "\<forall>x. r_id (F x) = r_id x"
        "\<forall>x. r_id x \<notin> r_id ` set ys \<longrightarrow> F x = x" "\<forall>r \<in> set ys. decided r (F r)"
      unfolding alters_def u(2) by blast
    note F = F1(1) F1(2-4) [rule_format]
    have s1: "steady w w1" using steady_trans [OF u(1) st1] .
    let ?cur = "r_id (last ys)"
    have last: "tx_ID (last (scanTransactionRows ys)) = ?cur"
      using False by (simp add: scanTransactionRows_def last_map scanTransaction_def Let_def)
    have ne: "scanTransactionRows ys \<noteq> []" "length (scanTransactionRows ys) = length ys"
      using False by (simp_all add: scanTransactionRows_def)
    show ?thesis
    proof (cases "int (length ys) < chunk")
      case True
      then have "length xs < nat chunk" using assms(3) by (auto simp: ys_def min_def split: if_splits)
      then have "ys = xs" by (simp add: ys_def)
      moreover have "page_loop (Suc n) (get_page st cid chunk) handle chunk cur w = Ret w1"
        using page ne True h by simp
      ultimately show ?thesis using F s1 unfolding xs_def by blast
    next
      case more: False
      have rest: "rest_rows st c ?cur (w_db w1) = zs"
        using rest_after_page [OF Suc.prems(2,3) xs_def [symmetric, unfolded xs] False F(1-3)] .
      have ids: "map r_id (d_transactions (w_db w1)) = map r_id (d_transactions (w_db w))"
        using F(1,2) by simp
      have "length zs < n"
        using Suc.prems(4) False unfolding xs_def [symmetric] xs by (cases ys) simp_all
      then have "\<exists>v G. page_loop n (get_page st cid chunk) handle chunk ?cur w1 = Ret v \<and> steady w1 v
          \<and> d_transactions (w_db v) = map G (d_transactions (w_db w1)) \<and> (\<forall>x. r_id (G x) = r_id x)
          \<and> (\<forall>x. r_id x \<notin> r_id ` set zs \<longrightarrow> G x = x) \<and> (\<forall>r \<in> set zs. decided r (G r))"
        using Suc.IH [OF ok_steady [OF Suc.prems(1) s1], of ?cur] Suc.prems(2,3) fine(2)
        unfolding rest ids list.set_map [symmetric] by blast
      then obtain v G where G: "page_loop n (get_page st cid chunk) handle chunk ?cur w1 = Ret v"
        "steady w1 v" "d_transactions (w_db v) = map G (d_transactions (w_db w1))"
        "\<And>x. r_id (G x) = r_id x" "\<And>x. r_id x \<notin> r_id ` set zs \<Longrightarrow> G x = x"
        "\<And>r. r \<in> set zs \<Longrightarrow> decided r (G r)" by blast
      have apart: "r_id y \<notin> r_id ` set zs" if "y \<in> set ys" for y
        using dist that by (auto simp: image_iff)
      have apart': "r_id z \<notin> r_id ` set ys" if "z \<in> set zs" for z
        using dist that by (metis IntI distinct_append empty_iff imageI list.set_map map_append)
      have "page_loop (Suc n) (get_page st cid chunk) handle chunk cur w = Ret v"
        using page ne more h G(1) last by simp
      moreover have "d_transactions (w_db v) = map (G \<circ> F) (d_transactions (w_db w))" using G(3) F(1) by simp
      moreover have "\<forall>x. r_id ((G \<circ> F) x) = r_id x" using G(4) F(2) by simp
      moreover have "(G \<circ> F) x = x" if "r_id x \<notin> r_id ` set xs" for x
        using that F(3) [of x] G(5) [of x] by (simp add: xs image_Un)
      moreover have "decided r ((G \<circ> F) r)" if "r \<in> set xs" for r
        using that F(2) [of r] F(3) [of r] F(4) [of r] G(5) [of "F r"] G(6) [of r] apart [of r] apart' [of r] xs by auto
      ultimately show ?thesis using steady_trans [OF s1 G(2)] unfolding xs_def [symmetric] by blast
    qed
  qed
qed simp

text \<open>From the first page on, every row of the status is visited.\<close>

lemma visits:
  assumes "ok w" and "bigint cid = Inr c" and "0 < chunk"
    and "distinct (map r_id (d_transactions (w_db w)))" and "[] \<notin> r_id ` set (d_transactions (w_db w))"
    and "length (d_transactions (w_db w)) < n"
    and "fine {r \<in> set (d_transactions (w_db w)). r_status r = st \<and> r_chain_id r = c}"
  shows "\<exists>v F. page_loop n (get_page st cid chunk) handle chunk [] w = Ret v \<and> alters UNIV F w v
    \<and> (\<forall>r \<in> set (d_transactions (w_db w)).
          if r_status r = st \<and> r_chain_id r = c then decided r (F r) else F r = r)"
proof -
  let ?R = "rest_rows st c [] (w_db w)"
  have rows: "set ?R = {r \<in> set (d_transactions (w_db w)). r_status r = st \<and> r_chain_id r = c}"
    by (simp add: set_rest_rows)
  have "length ?R \<le> length (d_transactions (w_db w))" by (simp add: rest_rows_def)
  then have len: "length ?R < n" using assms(6) by (rule le_less_trans)
  obtain v F where v: "page_loop n (get_page st cid chunk) handle chunk [] w = Ret v"
    and F: "alters (r_id ` set ?R) F w v" "\<forall>r \<in> set ?R. decided r (F r)"
    using pass [OF assms(1-5) len assms(7) [folded rows]] by blast
  have "if r_status r = st \<and> r_chain_id r = c then decided r (F r) else F r = r"
    if r: "r \<in> set (d_transactions (w_db w))" for r
  proof (cases "r \<in> set ?R")
    case False
    have "r_id r \<notin> r_id ` set ?R"
    proof
      assume "r_id r \<in> r_id ` set ?R"
      then obtain q where q: "r_id r = r_id q" "q \<in> set ?R" by (rule imageE)
      have "q \<in> set (d_transactions (w_db w))" using q(2) by (simp add: set_rest_rows)
      then have "r = q" using assms(4) r q(1) unfolding distinct_map by (blast dest: inj_onD)
      then show False using False q(2) by simp
    qed
    then have "F r = r" by (rule alters_same [OF F(1)])
    then show ?thesis using False r by (auto simp: set_rest_rows)
  next
    case True
    then show ?thesis using F(2) by (simp add: set_rest_rows)
  qed
  then show ?thesis using v alters_mono [OF F(1) subset_UNIV] by blast
qed

end

end
