(* ===== verification/Rounds.thy ===== *)
theory Rounds
  imports Paging ReceiptFacts
begin

text \<open>
  Progress of the receipt poller: over nodes that answer, a round moves every submitted and every
  included transaction of the chain to the state that its receipt and the head of the chain call for.
\<close>

section \<open>What the nodes know\<close>










section \<open>One receipt\<close>







section \<open>Submitted transactions\<close>
















section \<open>Included transactions\<close>








section \<open>A round\<close>





section \<open>Property\<close>





end
