(* ===== verification/Spec2Isabelle.thy ===== *)
theory Spec2Isabelle
  imports Amount StuckFacts Router Rounds
begin

text \<open>
  A verification development of evm-tx-sender, a service that sends native and ERC-20 transfers on
  EVM chains from keys it holds. A request of the HTTP API becomes a QUEUED row of PostgreSQL; one
  pipeline per sender and chain claims it, gives it a nonce, estimates gas, signs, stores the attempt,
  broadcasts and marks it SUBMITTED; a receipt poller per chain follows it to INCLUDED and CONFIRMED
  or REVERTED and back after a reorganisation; a stuck detector per chain replaces it with higher
  fees. All of them share the database and nothing else but a wake-up channel per pipeline.

  \<^bold>\<open>The world (Prelude, GoStd, Domain, Store).\<close> Prelude has Go's integers as words, error values, the
  outcome of a call that may panic, and rows of tables. GoStd has what the code uses of the packages
  strings, strconv and math/big, on byte strings. Domain has the entities of internal/domain with
  their constants; a pointer is an option, a big.Int an int. Store has the four tables of
  migrations/001_init.sql and the world record: the database, the endpoints of each chain, what was
  broadcast, the wake-up flags, and the environment as functions of a step counter (clock,
  identifiers, cancellation, the answer to each SQL statement and each RPC call, the order of each
  range over a map, and what other goroutines did to the database before each statement). The
  theorems quantify over these functions, so they hold for every behaviour of database and network
  and every interleaving of statements, except where a hypothesis (calm, serving, over_chain) says otherwise.

  \<^bold>\<open>Components, with the code they translate.\<close>
  \<^item> EthClient: infrastructure/ethereum/client.go, the endpoint pool with failover and broadcast. The
    locale rpc_client is domain.EthClient as its callers see it, interpreted with the pool.
  \<^item> Signer: infrastructure/ethereum/signer.go; the locale tx_signer is domain.Signer. Gas:
    infrastructure/ethereum/gas.go, in double arithmetic as rationals rounded to 53 bits.
  \<^item> Repo, RepoFacts: infrastructure/postgres/repo.go, one operation per method, each SQL statement
    atomic, each able to fail before or after it took effect; nonce_source is the contract of the
    nonce counter, interpreted with both statements that issue nonces.
  \<^item> Pipeline, PipelineFacts: pipeline/pipeline.go. Receipt, ReceiptFacts: pipeline/receipt.go, the
    pages read with fuel. Stuck, StuckFacts: pipeline/stuck.go. Manager, ManagerFacts:
    pipeline/manager.go. Their locales (pipeline_env, receipt_env, paged_source, stuck_env,
    manager_env) extend the contracts above and are interpreted with the constructors of the code.
  \<^item> Api, TransferFacts, ApiFacts, ReadFacts: api/transfer.go, transaction.go, health.go, response.go.
    Router: api/router.go and middleware.go. Amount: domain/transfer.go.
  \<^item> Duration, Config, ConfigFacts: config/config.go over the state monad of package viper's store,
    with time.ParseDuration. Service, ServiceFacts: cmd/tx-sender/main.go up to the HTTP server.
  \<^item> Fixtures: the concrete worlds of the witnesses.

  \<^bold>\<open>The abstract specification (Protocol).\<close> The relation sys_step says which statement a goroutine
  may run in which state of a row, independently of the handlers. The invariants (schema, unique
  nonces, a recorded hash for all that was submitted, at most six numbered attempts) are proved for
  every sequence of such steps. PipelineFacts, ReceiptFacts, StuckFacts, ManagerFacts and ApiFacts
  show that each handler, on every branch and for every answer of database and nodes, only makes such
  steps when the others do (rely and guarantee), so the invariants hold of the service.

  \<^bold>\<open>Groups of theorems.\<close> Safety: nonces are never shared, everything broadcast is stored and has the
  nonce, recipient, value and data of its transaction, loaded keys belong to their addresses, amounts
  are positive and bounded. Function: what a receipt does on every branch, claims in order of
  creation, one idempotency key for one transaction, what a transfer stores column by column,
  complete pages, the health report, fees within ordered bounds but for a priority fee above the
  maximum, bumps to the wei, which endpoint a failover marks, exact amounts. Liveness: Progress shows that a pipeline works its
  queue off when database and nodes answer; Paging and Rounds show that a poller round then moves
  every transaction of its chain to the state receipts and head call for (round_status). The locale
  page_pass of Paging is interpreted with both halves of a round. Termination: Run ends after cancellation, a poller round
  returns. Errors: what outages, lagging or forgetful nodes and crashes do, and that every request is
  answered with a documented code. Startup: what comes up is complete and, when the nodes know every
  recorded nonce, keeps the invariants; the code does not check that they do.

  \<^bold>\<open>Bounds and fuel.\<close> Run of a pipeline needs at most one iteration per instant before cancellation
  (Run_pipeline_terminates); a poller round needs one page per transaction of the chain and one more
  (poller_round_returns); the broadcast loop makes five tries, the code's constant; everything else is
  structural or has a measure. Columns are checked against BIGINT and NUMERIC(78,0) as PostgreSQL does.

  \<^bold>\<open>Parameters.\<close> go-ethereum (addresses, hashes, signing, encoding, ABI: the record eth_lib), package
  crypto (crypto_lib), viper with the file system (viper_lib), pgxpool (pgx_lib), dialling a node,
  chi's matching of paths, and the nodes themselves (rpc_nodes) are arguments of the definitions that
  use them; the witnesses instantiate them.

  \<^bold>\<open>Not modelled.\<close> Decoding and encoding of JSON (a request is what the decoder made of it), the HTTP
  server, signals and the graceful shutdown, logging, the SQL text of the migrations, generated
  documentation, mocks and tests. Changes of case are those of ASCII. Times are in microseconds, the
  resolution of PostgreSQL; a duration of the configuration is rounded up, so that it is positive
  exactly when it is in the code. The background goroutines of the endpoint pool are given as their
  single rounds; rounds and broadcasts to several endpoints happen at one instant. A double has an
  unbounded exponent.
\<close>

end
